(* ===== verification/Prelude.thy ===== *)
theory Prelude
  imports Main "HOL-Library.Sublist" "HOL-Library.AList" "HOL-Library.Word"
begin

text \<open>
  What every component of the development shares: the result type of fallible Go
  functions, the collections of simplification rules, reachability over a step relation
  with the invariant principle as a locale, and a few facts about association lists (the
  model of Go maps whose entries the code ranges over) and lists.
\<close>

section \<open>Results\<close>

text \<open>
  A Go function returning \<open>(T, error)\<close> is a HOL function into \<open>'e + 't\<close>: \<open>Inl e\<close> is a
  non-nil error (the code then returns the zero value of \<open>T\<close>), \<open>Inr t\<close> is \<open>(t, nil)\<close>.
\<close>

type_synonym ('e, 'a) result = "'e + 'a"

abbreviation ok :: "('e, unit) result" where
  "ok \<equiv> Inr ()"

definition is_ok :: "('e, 'a) result \<Rightarrow> bool" where
  "is_ok r = (case r of Inl _ \<Rightarrow> False | Inr _ \<Rightarrow> True)"

lemma is_ok_simps [simp]: "is_ok (Inr a)" "\<not> is_ok (Inl e)"
  by (simp_all add: is_ok_def)

lemma is_okE: "is_ok r \<Longrightarrow> (\<And>a. r = Inr a \<Longrightarrow> P) \<Longrightarrow> P"
  by (cases r) auto

lemma is_ok_unit [simp]: "is_ok r \<longleftrightarrow> r = ok" for r :: "('e, unit) result"
  by (cases r) auto

text \<open>\<open>if !cond { return err }\<close> followed by the rest of the function.\<close>

definition guard_err :: "bool \<Rightarrow> 'e \<Rightarrow> ('e, 'a) result \<Rightarrow> ('e, 'a) result" where
  "guard_err bad e rest = (if bad then Inl e else rest)"

lemma guard_err_Inr [simp]: "guard_err bad e r = Inr a \<longleftrightarrow> \<not> bad \<and> r = Inr a"
  by (simp add: guard_err_def)

lemma guard_err_simps [simp]: "guard_err True e r = Inl e" "guard_err False e r = r"
  by (simp_all add: guard_err_def)

text \<open>\<open>v, err := f(); if err != nil { return wrap(err) }\<close>, then \<open>k v\<close>.\<close>

definition bind_err :: "('e \<Rightarrow> 'f) \<Rightarrow> ('e, 'a) result \<Rightarrow> ('a \<Rightarrow> ('f, 'b) result) \<Rightarrow> ('f, 'b) result"
where
  "bind_err wrap r k = (case r of Inl e \<Rightarrow> Inl (wrap e) | Inr a \<Rightarrow> k a)"

lemma bind_err_Inr [simp]: "bind_err w r k = Inr b \<longleftrightarrow> (\<exists>a. r = Inr a \<and> k a = Inr b)"
  by (cases r) (auto simp: bind_err_def)

lemma bind_err_simps [simp]: "bind_err w (Inl e) k = Inl (w e)" "bind_err w (Inr a) k = k a"
  by (simp_all add: bind_err_def)

section \<open>Rule collections\<close>

named_theorems ascii_simps \<open>byte-level facts about ASCII characters\<close>
named_theorems re_simps \<open>equations that run the regular-expression matcher\<close>
named_theorems inv_simps \<open>invariants of the components, unfolded\<close>

section \<open>Reachable states and invariants\<close>

inductive reach :: "('s \<Rightarrow> bool) \<Rightarrow> ('s \<Rightarrow> 's \<Rightarrow> bool) \<Rightarrow> 's \<Rightarrow> bool"
  for start :: "'s \<Rightarrow> bool" and step :: "'s \<Rightarrow> 's \<Rightarrow> bool" where
  reach_start: "start s \<Longrightarrow> reach start step s"
| reach_step: "reach start step s \<Longrightarrow> step s t \<Longrightarrow> reach start step t"

text \<open>
  The interface of a component with state: its start states, its steps and an invariant
  the steps keep. Every stateful component of the program interprets it.
\<close>

locale transition_system =
  fixes start :: "'s \<Rightarrow> bool" and step :: "'s \<Rightarrow> 's \<Rightarrow> bool" and inv :: "'s \<Rightarrow> bool"
  assumes start_inv: "start s \<Longrightarrow> inv s"
    and step_inv: "inv s \<Longrightarrow> step s t \<Longrightarrow> inv t"
begin

lemma reach_inv: "reach start step s \<Longrightarrow> inv s"
  by (induction rule: reach.induct) (auto intro: start_inv step_inv)

lemma reach_steps_inv: "step\<^sup>*\<^sup>* s t \<Longrightarrow> inv s \<Longrightarrow> inv t"
  by (induction rule: rtranclp_induct) (auto intro: step_inv)

end

text \<open>
  A system in which, moreover, some observation of the state only ever grows: what is
  observed of a state bounds what is observed of every later one.
\<close>

locale monotone_system = transition_system start step inv
  for start :: "'s \<Rightarrow> bool" and step :: "'s \<Rightarrow> 's \<Rightarrow> bool" and inv :: "'s \<Rightarrow> bool" +
  fixes obs :: "'s \<Rightarrow> 'o \<Rightarrow> 'r::order"
  assumes step_mono: "inv s \<Longrightarrow> step s t \<Longrightarrow> obs s k \<le> obs t k"
begin

lemma steps_mono: "step\<^sup>*\<^sup>* s t \<Longrightarrow> inv s \<Longrightarrow> obs s k \<le> obs t k"
proof (induction rule: rtranclp_induct)
  case base
  show ?case by simp
next
  case (step t u)
  have "inv t" using step.hyps(1) step.prems by (rule reach_steps_inv)
  then have "obs t k \<le> obs u k" using step.hyps(2) by (rule step_mono)
  with step.IH[OF step.prems] show ?case by (rule order_trans)
qed

end

section \<open>Services in front of a remote system\<close>

text \<open>
  What a service does to the world is recorded in a session: the requests it has sent to the
  system behind it, and the lines it has written to the log. The system answers a request as
  a function of all requests so far, so that any stateful system is one such function.
\<close>

record ('q, 'l) session =
  sent :: "'q list"
  audit :: "'l list"

type_synonym ('q, 'e, 'o) remote = "'q list \<Rightarrow> ('e, 'o) result"

definition empty_session :: "('q, 'l) session" where
  "empty_session = \<lparr>sent = [], audit = []\<rparr>"

definition send :: "('q, 'e, 'o) remote \<Rightarrow> 'q \<Rightarrow> ('q, 'l) session \<Rightarrow> ('e, 'o) result \<times> ('q, 'l) session"
where
  "send remote q st = (remote (sent st @ [q]), st\<lparr>sent := sent st @ [q]\<rparr>)"

lemma send_simps [simp]:
  "fst (send f q st) = f (sent st @ [q])" "sent (snd (send f q st)) = sent st @ [q]"
  "audit (snd (send f q st)) = audit st"
  by (simp_all add: send_def)

definition write_log :: "bool \<Rightarrow> 'l \<Rightarrow> ('q, 'l) session \<Rightarrow> ('q, 'l) session" where
  "write_log on l st = (if on then st\<lparr>audit := audit st @ [l]\<rparr> else st)"

lemma sent_write_log [simp]: "sent (write_log on l st) = sent st"
  by (simp add: write_log_def)

text \<open>
  The contract of a guarded service: whatever it is asked, it sends only admitted requests,
  and it answers only what it has sent. A client that works through the service inherits the
  first part, however it chooses its questions.
\<close>

locale guarded_query =
  fixes exec :: "'i \<Rightarrow> ('q, 'l) session \<Rightarrow> ('e, 'o) result \<times> ('q, 'l) session"
    and admitted :: "'q \<Rightarrow> bool"
  assumes exec_sent: "\<exists>qs. sent (snd (exec i st)) = sent st @ qs \<and> list_all admitted qs"
    and exec_answer: "is_ok (fst (exec i st)) \<Longrightarrow> sent (snd (exec i st)) \<noteq> sent st"
begin

definition asks :: "('q, 'l) session \<Rightarrow> ('q, 'l) session \<Rightarrow> bool" where
  "asks st st' \<longleftrightarrow> (\<exists>i. st' = snd (exec i st))"

lemma exec_admitted:
  "list_all admitted (sent st) \<Longrightarrow> list_all admitted (sent (snd (exec i st)))"
  using exec_sent[of i st] by auto

lemma exec_prefix: "prefix (sent st) (sent (snd (exec i st)))"
  using exec_sent[of i st] by auto

end

sublocale guarded_query \<subseteq> transition_system "\<lambda>st. sent st = []" asks "\<lambda>st. list_all admitted (sent st)"
  by unfold_locales (auto simp: asks_def dest: exec_admitted)

context guarded_query
begin

text \<open>Every session reached through the service, in any order of questions.\<close>

lemma session_admitted: "reach (\<lambda>st. sent st = []) asks st \<Longrightarrow> list_all admitted (sent st)"
  by (rule reach_inv)

text \<open>A client that asks the questions \<open>is\<close>, one after the other.\<close>

definition ask_all :: "'i list \<Rightarrow> ('q, 'l) session \<Rightarrow> ('q, 'l) session" where
  "ask_all is st = fold (\<lambda>i st. snd (exec i st)) is st"

lemma ask_all_sent: "\<exists>qs. sent (ask_all is st) = sent st @ qs \<and> list_all admitted qs"
proof (induction "is" arbitrary: st)
  case (Cons i "is")
  obtain qs where "sent (snd (exec i st)) = sent st @ qs" "list_all admitted qs"
    using exec_sent[of i st] by blast
  moreover obtain qs' where "sent (ask_all is (snd (exec i st))) = sent (snd (exec i st)) @ qs'"
    "list_all admitted qs'"
    using Cons.IH by blast
  ultimately show ?case by (intro exI[of _ "qs @ qs'"]) (simp add: ask_all_def)
qed (simp add: ask_all_def)

lemma ask_all_answer:
  assumes "is_ok (fst (exec i st))"
  shows "sent (ask_all (i # is) st) \<noteq> sent st"
proof -
  obtain qs where "sent (ask_all is (snd (exec i st))) = sent (snd (exec i st)) @ qs"
    using ask_all_sent by blast
  then have "sent (ask_all (i # is) st) = sent (snd (exec i st)) @ qs" by (simp add: ask_all_def)
  moreover obtain qs' where "sent (snd (exec i st)) = sent st @ qs'" using exec_sent[of i st] by blast
  moreover have "qs' \<noteq> []" using exec_answer[OF assms] calculation(2) by auto
  ultimately show ?thesis by simp
qed

lemma later_sent: "asks\<^sup>*\<^sup>* st st' \<Longrightarrow> prefix (sent st) (sent st')"
  by (induction rule: rtranclp_induct) (auto simp: asks_def intro: prefix_order.trans exec_prefix)

end

section \<open>Association lists and lists\<close>

lemma map_of_eq_None_keys: "map_of m k = None \<longleftrightarrow> k \<notin> fst ` set m"
  by (simp add: map_of_eq_None_iff)

lemma map_of_update_at: "map_of (AList.update k v m) k' = (if k' = k then Some v else map_of m k')"
  by (simp add: update_conv')

lemma map_of_delete_at: "map_of (AList.delete k m) k' = (if k' = k then None else map_of m k')"
  by (simp add: delete_conv')

lemma take_last_subset: "set (drop n xs) \<subseteq> set xs"
  by (rule set_drop_subset)

lemma concat_eq_Nil: "concat xss = [] \<longleftrightarrow> (\<forall>xs \<in> set xss. xs = [])"
  by (rule concat_eq_Nil_conv)

end
