(* ===== verification/GoStrings.thy ===== *)
theory GoStrings
  imports Prelude
begin

text \<open>
  The parts of Go's \<open>unicode/utf8\<close>, \<open>unicode\<close>, \<open>strings\<close> and \<open>strconv\<close> the program uses.
  A Go string is a sequence of bytes, an Isabelle \<^typ>\<open>string\<close> is a list of 8-bit
  characters: the model keeps the bytes, so \<open>len\<close> is \<^const>\<open>length\<close> and slicing is
  \<^const>\<open>take\<close> and \<^const>\<open>drop\<close>. Where Go ranges over runes, the model decodes UTF-8
  exactly as \<open>utf8.DecodeRune\<close> does, invalid bytes becoming U+FFFD of width 1.
\<close>

section \<open>Bytes and runes\<close>

definition byte_val :: "char \<Rightarrow> int" where
  "byte_val c = of_char c"

definition byte_chr :: "int \<Rightarrow> char" where
  "byte_chr b = char_of b"

lemma byte_val_range: "0 \<le> byte_val c" "byte_val c < 256"
proof -
  have "byte_val c = int (of_char c)" by (simp add: byte_val_def of_nat_of_char)
  then show "0 \<le> byte_val c" "byte_val c < 256"
    using nat_of_char_less_256[of c] by simp_all
qed

lemma byte_chr_val [simp]: "byte_chr (byte_val c) = c"
  by (simp add: byte_val_def byte_chr_def)

lemma byte_val_chr: "0 \<le> b \<Longrightarrow> b < 256 \<Longrightarrow> byte_val (byte_chr b) = b"
  by (simp add: byte_val_def byte_chr_def)

lemma byte_val_inject: "byte_val c = byte_val d \<longleftrightarrow> c = d"
  by (metis byte_chr_val)

definition ascii :: "char \<Rightarrow> bool" where
  "ascii c \<longleftrightarrow> byte_val c < 128"

type_synonym rune = int

definition rune_error :: rune where
  "rune_error = 0xFFFD"

text \<open>A rune that UTF-8 encodes: a Unicode scalar value.\<close>

definition valid_rune :: "rune \<Rightarrow> bool" where
  "valid_rune r \<longleftrightarrow> (0 \<le> r \<and> r < 0xD800) \<or> (0xE000 \<le> r \<and> r \<le> 0x10FFFF)"

definition cont_in :: "int \<Rightarrow> int \<Rightarrow> char \<Rightarrow> bool" where
  "cont_in lo hi c \<longleftrightarrow> lo \<le> byte_val c \<and> byte_val c \<le> hi"

definition cont_bits :: "char \<Rightarrow> int" where
  "cont_bits c = byte_val c - 0x80"

text \<open>\<open>utf8.DecodeRuneInString\<close>: the rune at the front and the bytes it takes.\<close>

fun decode_rune :: "string \<Rightarrow> rune \<times> nat" where
  "decode_rune [] = (rune_error, 0)"
| "decode_rune (c # cs) =
    (let b = byte_val c in
     if b < 0x80 then (b, 1)
     else if b < 0xC2 then (rune_error, 1)
     else if b < 0xE0 then
       (case cs of
          c1 # _ \<Rightarrow> if cont_in 0x80 0xBF c1 then ((b - 0xC0) * 64 + cont_bits c1, 2) else (rune_error, 1)
        | [] \<Rightarrow> (rune_error, 1))
     else if b < 0xF0 then
       (case cs of
          c1 # c2 # _ \<Rightarrow>
            if cont_in (if b = 0xE0 then 0xA0 else 0x80) (if b = 0xED then 0x9F else 0xBF) c1
               \<and> cont_in 0x80 0xBF c2
            then ((b - 0xE0) * 4096 + cont_bits c1 * 64 + cont_bits c2, 3) else (rune_error, 1)
        | _ \<Rightarrow> (rune_error, 1))
     else if b < 0xF5 then
       (case cs of
          c1 # c2 # c3 # _ \<Rightarrow>
            if cont_in (if b = 0xF0 then 0x90 else 0x80) (if b = 0xF4 then 0x8F else 0xBF) c1
               \<and> cont_in 0x80 0xBF c2 \<and> cont_in 0x80 0xBF c3
            then ((b - 0xF0) * 262144 + cont_bits c1 * 4096 + cont_bits c2 * 64 + cont_bits c3, 4)
            else (rune_error, 1)
        | _ \<Rightarrow> (rune_error, 1))
     else (rune_error, 1))"

lemma decode_rune_width: "s \<noteq> [] \<Longrightarrow> 1 \<le> snd (decode_rune s) \<and> snd (decode_rune s) \<le> length s"
  by (cases s) (auto simp: Let_def split: list.splits)

lemma decode_rune_ascii [ascii_simps]: "ascii c \<Longrightarrow> decode_rune (c # cs) = (byte_val c, 1)"
  by (simp add: ascii_def)

declare decode_rune.simps(2) [simp del]

text \<open>\<open>for _, r := range s\<close>.\<close>

function runes :: "string \<Rightarrow> rune list" where
  "runes s = (if s = [] then [] else fst (decode_rune s) # runes (drop (snd (decode_rune s)) s))"
  by pat_completeness auto
termination
  by (relation "measure length") (auto dest: decode_rune_width)

declare runes.simps [simp del]

lemma runes_Nil [simp]: "runes [] = []"
  by (simp add: runes.simps)

lemma runes_ascii [ascii_simps]: "ascii c \<Longrightarrow> runes (c # cs) = byte_val c # runes cs"
  by (simp add: runes.simps[of "c # cs"] decode_rune_ascii)

text \<open>\<open>utf8.AppendRune\<close>: an invalid rune is written as U+FFFD.\<close>

definition encode_rune :: "rune \<Rightarrow> string" where
  "encode_rune r0 =
    (let r = (if valid_rune r0 then r0 else rune_error) in
     if r < 0x80 then [byte_chr r]
     else if r < 0x800 then [byte_chr (0xC0 + r div 64), byte_chr (0x80 + r mod 64)]
     else if r < 0x10000 then
       [byte_chr (0xE0 + r div 4096), byte_chr (0x80 + r div 64 mod 64), byte_chr (0x80 + r mod 64)]
     else
       [byte_chr (0xF0 + r div 262144), byte_chr (0x80 + r div 4096 mod 64),
        byte_chr (0x80 + r div 64 mod 64), byte_chr (0x80 + r mod 64)])"

definition encode_runes :: "rune list \<Rightarrow> string" where
  "encode_runes rs = concat (map encode_rune rs)"

lemma decode_two:
  assumes "2 \<le> a" "a < 32" "0 \<le> b" "b < 64"
  shows "decode_rune (byte_chr (0xC0 + a) # byte_chr (0x80 + b) # s) = (a * 64 + b, 2)"
proof -
  have "byte_val (byte_chr (0xC0 + a)) = 0xC0 + a" "byte_val (byte_chr (0x80 + b)) = 0x80 + b"
    using assms by (simp_all add: byte_val_chr)
  moreover have "\<not> 0xC0 + a < 0x80" "\<not> 0xC0 + a < 0xC2" "0xC0 + a < 0xE0"
    "0x80 \<le> 0x80 + b" "0x80 + b \<le> 0xBF"
    using assms by linarith+
  ultimately show ?thesis
    by (simp only: decode_rune.simps(2) Let_def cont_in_def cont_bits_def if_True if_False
        list.case simp_thms) simp
qed

lemma decode_three:
  assumes "0 \<le> a" "a < 16" "0 \<le> b" "b < 64" "0 \<le> c" "c < 64"
    and "a = 0 \<Longrightarrow> 32 \<le> b" "a = 13 \<Longrightarrow> b \<le> 31"
  shows "decode_rune (byte_chr (0xE0 + a) # byte_chr (0x80 + b) # byte_chr (0x80 + c) # s) =
    (a * 4096 + b * 64 + c, 3)"
proof -
  have "byte_val (byte_chr (0xE0 + a)) = 0xE0 + a" "byte_val (byte_chr (0x80 + b)) = 0x80 + b"
    "byte_val (byte_chr (0x80 + c)) = 0x80 + c"
    using assms(1-6) by (simp_all add: byte_val_chr)
  moreover have "\<not> 0xE0 + a < 0x80" "\<not> 0xE0 + a < 0xC2" "\<not> 0xE0 + a < 0xE0" "0xE0 + a < 0xF0"
    "0x80 \<le> 0x80 + c" "0x80 + c \<le> 0xBF"
    using assms(1-6) by linarith+
  moreover have "(if 0xE0 + a = 0xE0 then 0xA0 else 0x80) \<le> 0x80 + b"
    "0x80 + b \<le> (if 0xE0 + a = 0xED then 0x9F else 0xBF)"
    using assms(3,4,7,8) by auto
  ultimately show ?thesis
    by (simp only: decode_rune.simps(2) Let_def cont_in_def cont_bits_def if_True if_False
        list.case simp_thms) simp
qed

lemma decode_four:
  assumes "0 \<le> a" "a < 5" "0 \<le> b" "b < 64" "0 \<le> c" "c < 64" "0 \<le> d" "d < 64"
    and "a = 0 \<Longrightarrow> 16 \<le> b" "a = 4 \<Longrightarrow> b \<le> 15"
  shows "decode_rune (byte_chr (0xF0 + a) # byte_chr (0x80 + b) # byte_chr (0x80 + c)
      # byte_chr (0x80 + d) # s) = (a * 262144 + b * 4096 + c * 64 + d, 4)"
proof -
  have "byte_val (byte_chr (0xF0 + a)) = 0xF0 + a" "byte_val (byte_chr (0x80 + b)) = 0x80 + b"
    "byte_val (byte_chr (0x80 + c)) = 0x80 + c" "byte_val (byte_chr (0x80 + d)) = 0x80 + d"
    using assms(1-8) by (simp_all add: byte_val_chr)
  moreover have "\<not> 0xF0 + a < 0x80" "\<not> 0xF0 + a < 0xC2" "\<not> 0xF0 + a < 0xE0"
    "\<not> 0xF0 + a < 0xF0" "0xF0 + a < 0xF5"
    "0x80 \<le> 0x80 + c" "0x80 + c \<le> 0xBF" "0x80 \<le> 0x80 + d" "0x80 + d \<le> 0xBF"
    using assms(1-8) by linarith+
  moreover have "(if 0xF0 + a = 0xF0 then 0x90 else 0x80) \<le> 0x80 + b"
    "0x80 + b \<le> (if 0xF0 + a = 0xF4 then 0x8F else 0xBF)"
    using assms(3,4,9,10) by auto
  ultimately show ?thesis
    by (simp only: decode_rune.simps(2) Let_def cont_in_def cont_bits_def if_True if_False
        list.case simp_thms) simp
qed

lemma div_64_64: "r div 4096 = r div 64 div 64" "r div 262144 = r div 64 div 64 div 64" for r :: int
  by (simp_all add: zdiv_zmult2_eq[symmetric])

lemma rune_split: "(r div 64) * 64 + r mod 64 = r"
  "(r div 4096) * 4096 + (r div 64 mod 64) * 64 + r mod 64 = r"
  "(r div 262144) * 262144 + (r div 4096 mod 64) * 4096 + (r div 64 mod 64) * 64 + r mod 64 = r"
  for r :: int
proof -
  note m = div_mult_mod_eq[of r 64] div_mult_mod_eq[of "r div 64" 64]
    div_mult_mod_eq[of "r div 64 div 64" 64]
  show "(r div 64) * 64 + r mod 64 = r" by (rule m(1))
  show "(r div 4096) * 4096 + (r div 64 mod 64) * 64 + r mod 64 = r"
    unfolding div_64_64 using m by linarith
  show "(r div 262144) * 262144 + (r div 4096 mod 64) * 4096 + (r div 64 mod 64) * 64 + r mod 64 = r"
    unfolding div_64_64 using m by linarith
qed

lemma mod_64_range: "0 \<le> r mod 64" "r mod 64 < 64" for r :: int
  by simp_all

lemma rune_range_2: "0x80 \<le> r \<Longrightarrow> r < 0x800 \<Longrightarrow> 2 \<le> r div 64 \<and> r div 64 < 32" for r :: int
  using rune_split(1)[of r] mod_64_range[of r] by linarith

lemma rune_range_3:
  fixes r :: int
  assumes "0x800 \<le> r" "r < 0x10000"
  shows "0 \<le> r div 4096" "r div 4096 < 16" "r div 4096 = 0 \<Longrightarrow> 32 \<le> r div 64 mod 64"
    and "r < 0xD800 \<or> 0xE000 \<le> r \<Longrightarrow> r div 4096 = 13 \<Longrightarrow> r div 64 mod 64 \<le> 31"
proof -
  note f = assms rune_split(2)[of r] mod_64_range[of r] mod_64_range[of "r div 64"]
  show "0 \<le> r div 4096" using f by linarith
  show "r div 4096 < 16" using f by linarith
  show "32 \<le> r div 64 mod 64" if "r div 4096 = 0" using f that by linarith
  show "r div 64 mod 64 \<le> 31" if "r < 0xD800 \<or> 0xE000 \<le> r" "r div 4096 = 13"
    using that(1) by (rule disjE) (use f that(2) in linarith)+
qed

lemma rune_range_4:
  fixes r :: int
  assumes "0x10000 \<le> r" "r \<le> 0x10FFFF"
  shows "0 \<le> r div 262144" "r div 262144 < 5" "r div 262144 = 0 \<Longrightarrow> 16 \<le> r div 4096 mod 64"
    and "r div 262144 = 4 \<Longrightarrow> r div 4096 mod 64 \<le> 15"
proof -
  note f = assms rune_split(3)[of r] mod_64_range[of r] mod_64_range[of "r div 64"]
    mod_64_range[of "r div 4096"]
  show "0 \<le> r div 262144" using f by linarith
  show "r div 262144 < 5" using f by linarith
  show "16 \<le> r div 4096 mod 64" if "r div 262144 = 0" using f that by linarith
  show "r div 4096 mod 64 \<le> 15" if "r div 262144 = 4" using f that by linarith
qed

lemma encode_rune_ascii: "0 \<le> r \<Longrightarrow> r < 128 \<Longrightarrow> encode_rune r = [byte_chr r]"
  by (simp add: encode_rune_def valid_rune_def)

lemma encode_rune_two:
  "0x80 \<le> r \<Longrightarrow> r < 0x800 \<Longrightarrow> encode_rune r = [byte_chr (0xC0 + r div 64), byte_chr (0x80 + r mod 64)]"
  by (simp add: encode_rune_def valid_rune_def)

lemma encode_rune_three:
  assumes "0x800 \<le> r" "r < 0x10000" "valid_rune r"
  shows "encode_rune r = [byte_chr (0xE0 + r div 4096), byte_chr (0x80 + r div 64 mod 64),
    byte_chr (0x80 + r mod 64)]"
proof -
  have "\<not> r < 0x80" "\<not> r < 0x800" using assms by linarith+
  then show ?thesis using assms by (simp only: encode_rune_def Let_def if_True if_False)
qed

lemma encode_rune_four:
  assumes "0x10000 \<le> r" "valid_rune r"
  shows "encode_rune r = [byte_chr (0xF0 + r div 262144), byte_chr (0x80 + r div 4096 mod 64),
    byte_chr (0x80 + r div 64 mod 64), byte_chr (0x80 + r mod 64)]"
proof -
  have "\<not> r < 0x80" "\<not> r < 0x800" "\<not> r < 0x10000" using assms by linarith+
  then show ?thesis using assms by (simp only: encode_rune_def Let_def if_True if_False)
qed

lemma decode_encode_rune:
  assumes "valid_rune r"
  shows "decode_rune (encode_rune r @ s) = (r, length (encode_rune r))"
proof -
  consider "0 \<le> r" "r < 0x80" | "0x80 \<le> r" "r < 0x800"
    | "0x800 \<le> r" "r < 0x10000" "r < 0xD800 \<or> 0xE000 \<le> r" | "0x10000 \<le> r" "r \<le> 0x10FFFF"
    using assms by (force simp: valid_rune_def)
  then show ?thesis
  proof cases
    case 1
    then show ?thesis
      by (simp add: encode_rune_ascii decode_rune.simps(2) Let_def byte_val_chr)
  next
    case 2
    have "decode_rune (encode_rune r @ s) = (r div 64 * 64 + r mod 64, 2)"
      unfolding encode_rune_two[OF 2] append_Cons append_Nil
      using rune_range_2[OF 2] mod_64_range[of r] by (intro decode_two) auto
    then show ?thesis by (simp only: rune_split encode_rune_two[OF 2] list.size) simp
  next
    case 3
    note enc = encode_rune_three[OF 3(1,2) assms]
    have "decode_rune (encode_rune r @ s) = (r div 4096 * 4096 + r div 64 mod 64 * 64 + r mod 64, 3)"
      unfolding enc append_Cons append_Nil
      using rune_range_3[OF 3(1,2)] 3(3) mod_64_range by (intro decode_three) blast+
    then show ?thesis by (simp only: rune_split enc list.size) simp
  next
    case 4
    note enc = encode_rune_four[OF 4(1) assms]
    have "decode_rune (encode_rune r @ s) = (r div 262144 * 262144 + r div 4096 mod 64 * 4096
        + r div 64 mod 64 * 64 + r mod 64, 4)"
      unfolding enc append_Cons append_Nil
      using rune_range_4[OF 4] mod_64_range by (intro decode_four) blast+
    then show ?thesis by (simp only: rune_split enc list.size) simp
  qed
qed

lemma encode_rune_nonempty [simp]: "encode_rune r \<noteq> []"
  by (simp add: encode_rune_def Let_def)

text \<open>Decoding what was encoded gives the runes back.\<close>

lemma runes_encode: "\<forall>r \<in> set rs. valid_rune r \<Longrightarrow> runes (encode_runes rs) = rs"
proof (induction rs)
  case Nil
  show ?case by (simp add: encode_runes_def)
next
  case (Cons r rs)
  then have "decode_rune (encode_rune r @ encode_runes rs) = (r, length (encode_rune r))"
    by (intro decode_encode_rune) simp
  with Cons show ?case
    by (subst runes.simps) (simp add: encode_runes_def)
qed

section \<open>unicode\<close>

text \<open>
  \<open>unicode.IsSpace\<close> and \<open>unicode.IsControl\<close> are written out. The letter, digit and case tables
  are large data of Go's \<open>unicode\<close> package: their entries for ASCII are written out and those
  beyond it are a parameter, the record \<open>unicode\<close>.
\<close>

definition is_space :: "rune \<Rightarrow> bool" where
  "is_space r \<longleftrightarrow> (9 \<le> r \<and> r \<le> 13) \<or> r = 0x20 \<or> r = 0x85 \<or> r = 0xA0 \<or> r = 0x1680
    \<or> (0x2000 \<le> r \<and> r \<le> 0x200A) \<or> r = 0x2028 \<or> r = 0x2029 \<or> r = 0x202F \<or> r = 0x205F \<or> r = 0x3000"

definition is_control :: "rune \<Rightarrow> bool" where
  "is_control r \<longleftrightarrow> (0 \<le> r \<and> r \<le> 0x1F) \<or> (0x7F \<le> r \<and> r \<le> 0x9F)"

record unicode =
  u_letter :: "rune \<Rightarrow> bool"
  u_digit :: "rune \<Rightarrow> bool"
  u_upper :: "rune \<Rightarrow> rune"
  u_lower :: "rune \<Rightarrow> rune"

definition is_letter :: "unicode \<Rightarrow> rune \<Rightarrow> bool" where
  "is_letter U r = (if r < 0x80 then (0x41 \<le> r \<and> r \<le> 0x5A) \<or> (0x61 \<le> r \<and> r \<le> 0x7A) else u_letter U r)"

definition is_digit :: "unicode \<Rightarrow> rune \<Rightarrow> bool" where
  "is_digit U r = (if r < 0x80 then 0x30 \<le> r \<and> r \<le> 0x39 else u_digit U r)"

definition rune_upper :: "unicode \<Rightarrow> rune \<Rightarrow> rune" where
  "rune_upper U r = (if r < 0x80 then (if 0x61 \<le> r \<and> r \<le> 0x7A then r - 0x20 else r) else u_upper U r)"

definition rune_lower :: "unicode \<Rightarrow> rune \<Rightarrow> rune" where
  "rune_lower U r = (if r < 0x80 then (if 0x41 \<le> r \<and> r \<le> 0x5A then r + 0x20 else r) else u_lower U r)"

text \<open>
  An instance of the tables for closed examples: the Latin-1 letters, the CJK ideographs,
  and the case pairs that leave or enter ASCII (U+0131, U+017F, U+0130, U+212A).
\<close>

definition sample_unicode :: unicode where
  "sample_unicode = \<lparr>
    u_letter = (\<lambda>r. r = 0xAA \<or> r = 0xB5 \<or> r = 0xBA \<or> (0xC0 \<le> r \<and> r \<le> 0x17F \<and> r \<noteq> 0xD7 \<and> r \<noteq> 0xF7)
      \<or> r = 0x212A \<or> (0x4E00 \<le> r \<and> r \<le> 0x9FFF)),
    u_digit = (\<lambda>r. 0x660 \<le> r \<and> r \<le> 0x669),
    u_upper = (\<lambda>r. if r = 0x131 then 0x49 else if r = 0x17F then 0x53
      else if 0xE0 \<le> r \<and> r \<le> 0xFE \<and> r \<noteq> 0xF7 then r - 0x20 else r),
    u_lower = (\<lambda>r. if r = 0x130 then 0x69 else if r = 0x212A then 0x6B
      else if 0xC0 \<le> r \<and> r \<le> 0xDE \<and> r \<noteq> 0xD7 then r + 0x20 else r)\<rparr>"

section \<open>strings\<close>

text \<open>\<open>strings.ToUpper\<close>, \<open>strings.ToLower\<close>: \<open>strings.Map\<close> over the runes.\<close>

definition map_runes :: "(rune \<Rightarrow> rune) \<Rightarrow> string \<Rightarrow> string" where
  "map_runes f s = encode_runes (map f (runes s))"

definition to_upper :: "unicode \<Rightarrow> string \<Rightarrow> string" where
  "to_upper U s = map_runes (rune_upper U) s"

definition to_lower :: "unicode \<Rightarrow> string \<Rightarrow> string" where
  "to_lower U s = map_runes (rune_lower U) s"

text \<open>The bytes of the white-space rune at the front (at the end) of a string, 0 if none.\<close>

definition space_len :: "string \<Rightarrow> nat" where
  "space_len s = (if s \<noteq> [] \<and> is_space (fst (decode_rune s)) then snd (decode_rune s) else 0)"

definition ends_in_space :: "nat \<Rightarrow> string \<Rightarrow> bool" where
  "ends_in_space k s \<longleftrightarrow> k \<le> length s \<and> space_len (drop (length s - k) s) = k"

definition last_space_len :: "string \<Rightarrow> nat" where
  "last_space_len s = (if ends_in_space 1 s then 1 else if ends_in_space 2 s then 2
     else if ends_in_space 3 s then 3 else 0)"

lemma space_len_le: "space_len s \<le> length s"
  using decode_rune_width[of s] by (simp add: space_len_def)

lemma last_space_len_le: "last_space_len s \<le> length s"
  by (auto simp: last_space_len_def ends_in_space_def)

function trim_left :: "string \<Rightarrow> string" where
  "trim_left s = (if space_len s = 0 then s else trim_left (drop (space_len s) s))"
  by pat_completeness auto
termination
  by (relation "measure length") (auto dest: gr_implies_not0 simp: space_len_def split: if_splits)

function trim_right :: "string \<Rightarrow> string" where
  "trim_right s = (if last_space_len s = 0 then s
     else trim_right (take (length s - last_space_len s) s))"
  by pat_completeness auto
termination
proof (relation "measure length")
  fix s :: string
  assume "last_space_len s \<noteq> 0"
  then show "(take (length s - last_space_len s) s, s) \<in> measure length"
    using last_space_len_le[of s] by simp
qed simp

declare trim_left.simps [simp del] trim_right.simps [simp del]

text \<open>\<open>strings.TrimSpace\<close>.\<close>

definition trim_space :: "string \<Rightarrow> string" where
  "trim_space s = trim_right (trim_left s)"

text \<open>\<open>strings.Fields\<close>: the accumulator holds the current field, reversed.\<close>

function fields_from :: "string \<Rightarrow> string \<Rightarrow> string list" where
  "fields_from acc s =
    (if s = [] then (if acc = [] then [] else [rev acc])
     else if space_len s = 0 then fields_from (hd s # acc) (tl s)
     else (if acc = [] then [] else [rev acc]) @ fields_from [] (drop (space_len s) s))"
  by pat_completeness auto
termination
  by (relation "measure (\<lambda>(acc, s). length s)") auto

declare fields_from.simps [simp del]

definition str_fields :: "string \<Rightarrow> string list" where
  "str_fields s = fields_from [] s"

text \<open>\<open>strings.Join\<close>, \<open>strings.Split\<close> by one byte, \<open>TrimSuffix\<close>, \<open>TrimPrefix\<close>, \<open>ContainsAny\<close>.\<close>

fun join :: "string \<Rightarrow> string list \<Rightarrow> string" where
  "join sep [] = []"
| "join sep [x] = x"
| "join sep (x # y # xs) = x @ sep @ join sep (y # xs)"

fun split_at :: "char \<Rightarrow> string \<Rightarrow> string list" where
  "split_at sep [] = [[]]"
| "split_at sep (c # cs) =
    (if c = sep then [] # split_at sep cs
     else (case split_at sep cs of [] \<Rightarrow> [[c]] | w # ws \<Rightarrow> (c # w) # ws))"

definition trim_suffix :: "string \<Rightarrow> string \<Rightarrow> string" where
  "trim_suffix s suf = (if suffix suf s then take (length s - length suf) s else s)"

definition trim_prefix :: "string \<Rightarrow> string \<Rightarrow> string" where
  "trim_prefix s pre = (if prefix pre s then drop (length pre) s else s)"

definition contains_any :: "string \<Rightarrow> string \<Rightarrow> bool" where
  "contains_any s chars = list_ex (\<lambda>c. c \<in> set chars) s"

abbreviation contains :: "string \<Rightarrow> string \<Rightarrow> bool" where
  "contains s sub \<equiv> sublist sub s"

abbreviation has_prefix :: "string \<Rightarrow> string \<Rightarrow> bool" where
  "has_prefix s p \<equiv> prefix p s"

lemma contains_any_iff: "contains_any s cs \<longleftrightarrow> set s \<inter> set cs \<noteq> {}"
  by (auto simp: contains_any_def list_ex_iff)

lemma contains_char_iff: "contains s [c] \<longleftrightarrow> c \<in> set s"
  by (metis in_set_conv_decomp append_Cons append_Nil sublist_def)

section \<open>strconv\<close>

definition digit_value :: "char \<Rightarrow> int option" where
  "digit_value c = (let v = byte_val c - 0x30 in if 0 \<le> v \<and> v \<le> 9 then Some v else None)"

fun digits_from :: "int \<Rightarrow> string \<Rightarrow> int option" where
  "digits_from v [] = Some v"
| "digits_from v (c # cs) =
    (case digit_value c of None \<Rightarrow> None | Some d \<Rightarrow> digits_from (10 * v + d) cs)"

text \<open>\<open>strconv.ParseUint(s, 10, 64)\<close>.\<close>

definition parse_uint64 :: "string \<Rightarrow> int option" where
  "parse_uint64 s = (if s = [] then None else
     (case digits_from 0 s of None \<Rightarrow> None | Some v \<Rightarrow> if v < 2 ^ 64 then Some v else None))"

text \<open>\<open>strconv.Atoi\<close> and \<open>strconv.ParseInt(s, 10, 64)\<close> on a 64-bit platform.\<close>

definition parse_int64 :: "string \<Rightarrow> int option" where
  "parse_int64 s =
    (let neg = prefix ''-'' s; ds = (if neg \<or> prefix ''+'' s then tl s else s) in
     if ds = [] then None else
     (case digits_from 0 ds of
        None \<Rightarrow> None
      | Some v \<Rightarrow> if neg then (if v \<le> 2 ^ 63 then Some (- v) else None)
                  else (if v < 2 ^ 63 then Some v else None)))"

abbreviation atoi :: "string \<Rightarrow> int option" where
  "atoi s \<equiv> parse_int64 s"

text \<open>
  The number \<open>strconv.Atoi\<close> returns beside its error, for callers that drop the error: 0 for a
  syntax error, the nearest bound when the digits leave the range, what comes after them unread.
\<close>

fun digits_clamped :: "int \<Rightarrow> string \<Rightarrow> int option" where
  "digits_clamped v [] = Some v"
| "digits_clamped v (c # cs) =
    (case digit_value c of
       None \<Rightarrow> None
     | Some d \<Rightarrow> if 2 ^ 64 \<le> 10 * v + d then Some (2 ^ 64 - 1) else digits_clamped (10 * v + d) cs)"

definition atoi_value :: "string \<Rightarrow> int" where
  "atoi_value s =
    (let neg = prefix ''-'' s; ds = (if neg \<or> prefix ''+'' s then tl s else s) in
     if ds = [] then 0 else
     (case digits_clamped 0 ds of
        None \<Rightarrow> 0
      | Some v \<Rightarrow> if neg then max (- v) (- (2 ^ 63)) else min v (2 ^ 63 - 1)))"

text \<open>\<open>strconv.Itoa\<close> and \<open>strconv.FormatUint(n, 10)\<close>.\<close>

function format_nat :: "int \<Rightarrow> string" where
  "format_nat n = (if n < 10 then [byte_chr (0x30 + n)]
     else format_nat (n div 10) @ [byte_chr (0x30 + n mod 10)])"
  by pat_completeness auto
termination
  by (relation "measure nat") auto

declare format_nat.simps [simp del]

definition itoa :: "int \<Rightarrow> string" where
  "itoa n = (if n < 0 then ''-'' @ format_nat (- n) else format_nat n)"

section \<open>Facts about decoding and white space\<close>

definition cont_byte :: "char \<Rightarrow> bool" where
  "cont_byte c \<longleftrightarrow> cont_in 0x80 0xBF c"

lemma ascii_not_cont: "ascii c \<Longrightarrow> \<not> cont_byte c"
  by (simp add: ascii_def cont_byte_def cont_in_def)

text \<open>A byte that continues no rune does not change how the bytes before it decode.\<close>

lemma decode_rune_before:
  assumes "t \<noteq> []" "\<not> cont_byte c"
  shows "decode_rune (t @ c # u) = decode_rune t"
proof -
  obtain b t' where t: "t = b # t'" using assms(1) by (cases t) auto
  have c: "\<not> cont_in lo hi c" if "0x80 \<le> lo" "hi \<le> 0xBF" for lo hi
    using assms(2) that by (auto simp: cont_byte_def cont_in_def)
  show ?thesis
    unfolding t append_Cons decode_rune.simps(2) Let_def
    by (cases t' rule: decode_rune.cases; cases "tl t'"; cases "tl (tl t')")
      (simp_all add: c split: list.split)
qed

text \<open>A rune that decoded properly keeps decoding when bytes follow.\<close>

lemma decode_rune_append:
  assumes "t \<noteq> []" "fst (decode_rune t) \<noteq> rune_error"
  shows "decode_rune (t @ u) = decode_rune t"
proof -
  obtain b t' where t: "t = b # t'" using assms(1) by (cases t) auto
  show ?thesis
    using assms(2) unfolding t append_Cons decode_rune.simps(2) Let_def
    by (cases t'; cases "tl t'"; cases "tl (tl t')") (auto split: if_splits)
qed

lemma is_space_not_error: "is_space r \<Longrightarrow> r \<noteq> rune_error"
  by (auto simp: is_space_def rune_error_def)

lemma space_len_Nil [simp]: "space_len [] = 0"
  by (simp add: space_len_def)

lemma space_len_append: "space_len t \<noteq> 0 \<Longrightarrow> space_len (t @ u) = space_len t"
  by (auto simp: space_len_def is_space_not_error decode_rune_append split: if_splits)

lemma space_len_before: "t \<noteq> [] \<Longrightarrow> \<not> cont_byte c \<Longrightarrow> space_len (t @ c # u) = space_len t"
  by (simp add: space_len_def decode_rune_before)

lemma space_len_cont: "cont_byte c \<Longrightarrow> space_len (c # cs) = 0"
  by (auto simp: space_len_def decode_rune.simps(2) Let_def cont_byte_def cont_in_def
      is_space_def rune_error_def)

lemma space_len_ascii [ascii_simps]:
  "ascii c \<Longrightarrow> space_len (c # cs) = (if is_space (byte_val c) then 1 else 0)"
  by (simp add: space_len_def decode_rune_ascii)

lemma space_len_pos: "s \<noteq> [] \<Longrightarrow> is_space (fst (decode_rune s)) \<Longrightarrow> 0 < space_len s"
  using decode_rune_width[of s] by (simp add: space_len_def)

text \<open>A string no suffix of which starts with white space: a field.\<close>

fun no_space :: "string \<Rightarrow> bool" where
  "no_space [] = True"
| "no_space (c # cs) = (space_len (c # cs) = 0 \<and> no_space cs)"

lemma no_space_drop: "no_space s \<Longrightarrow> no_space (drop k s)"
  by (induction s arbitrary: k) (auto simp: drop_Cons split: nat.split)

text \<open>The bytes of a rune after the first are continuation bytes.\<close>

lemma decode_rune_conts:
  "s \<noteq> [] \<Longrightarrow> c \<in> set (tl (take (snd (decode_rune s)) s)) \<Longrightarrow> cont_byte c"
  by (cases s; cases "tl s"; cases "tl (tl s)"; cases "tl (tl (tl s))")
    (auto simp: decode_rune.simps(2) Let_def cont_byte_def cont_in_def split: if_splits)

lemma no_space_conts: "(\<forall>c \<in> set s. cont_byte c) \<Longrightarrow> no_space t \<Longrightarrow> no_space (s @ t)"
  by (induction s) (auto simp: space_len_cont)

text \<open>No rune of the string is white space: then no position of it starts one.\<close>

lemma no_space_runes: "\<forall>r \<in> set (runes s). \<not> is_space r \<Longrightarrow> no_space s"
proof (induction s rule: runes.induct)
  case (1 s)
  show ?case
  proof (cases s)
    case (Cons c cs)
    let ?w = "snd (decode_rune s)"
    have ne: "s \<noteq> []" using Cons by simp
    have rs: "runes s = fst (decode_rune s) # runes (drop ?w s)"
      using ne by (simp add: runes.simps)
    have rest: "no_space (drop ?w s)" using 1 ne rs by simp
    have "space_len s = 0" using 1 rs by (simp add: space_len_def)
    have "s = c # (tl (take ?w s) @ drop ?w s)"
      using decode_rune_width[OF ne] Cons append_take_drop_id[of ?w s] by (cases ?w) auto
    moreover have "no_space (tl (take ?w s) @ drop ?w s)"
      using decode_rune_conts[OF ne] rest by (intro no_space_conts) auto
    ultimately show ?thesis
      using \<open>space_len s = 0\<close> Cons by (metis no_space.simps(2))
  qed simp
qed

section \<open>Facts about trimming\<close>

lemma trim_left_spaceless: "space_len (trim_left s) = 0"
  by (induction s rule: trim_left.induct) (subst trim_left.simps, simp)

lemma trim_right_spaceless: "last_space_len (trim_right s) = 0"
  by (induction s rule: trim_right.induct) (subst trim_right.simps, simp)

lemma trim_left_id: "space_len s = 0 \<Longrightarrow> trim_left s = s"
  by (simp add: trim_left.simps)

lemma trim_right_id: "last_space_len s = 0 \<Longrightarrow> trim_right s = s"
  by (simp add: trim_right.simps)

lemma trim_right_prefix: "prefix (trim_right s) s"
proof (induction s rule: trim_right.induct)
  case (1 s)
  show ?case
  proof (cases "last_space_len s = 0")
    case False
    then have "prefix (trim_right s) (take (length s - last_space_len s) s)"
      using 1 by (subst trim_right.simps) simp
    then show ?thesis using take_is_prefix prefix_order.order_trans by blast
  qed (simp add: trim_right_id)
qed

lemma trim_left_suffix: "suffix (trim_left s) s"
proof (induction s rule: trim_left.induct)
  case (1 s)
  show ?case
  proof (cases "space_len s = 0")
    case False
    then have "suffix (trim_left s) (drop (space_len s) s)"
      using 1 by (subst trim_left.simps) simp
    then show ?thesis using suffix_drop suffix_order.order_trans by blast
  qed (simp add: trim_left_id)
qed

lemma space_len_prefix: "prefix t s \<Longrightarrow> space_len s = 0 \<Longrightarrow> space_len t = 0"
  by (metis prefix_def space_len_append)

lemma trim_space_spaceless: "space_len (trim_space s) = 0" "last_space_len (trim_space s) = 0"
  unfolding trim_space_def
  using trim_right_prefix trim_left_spaceless space_len_prefix trim_right_spaceless by blast+

lemma trim_space_id: "space_len s = 0 \<Longrightarrow> last_space_len s = 0 \<Longrightarrow> trim_space s = s"
  by (simp add: trim_space_def trim_left_id trim_right_id)

lemma trim_space_idem [simp]: "trim_space (trim_space s) = trim_space s"
  by (rule trim_space_id[OF trim_space_spaceless])

lemma trim_space_sublist: "sublist (trim_space s) s"
  unfolding trim_space_def
  by (meson prefix_imp_sublist sublist_order.order_trans suffix_imp_sublist
      trim_left_suffix trim_right_prefix)

lemma trim_space_set: "set (trim_space s) \<subseteq> set s"
  using trim_space_sublist set_mono_sublist by blast

section \<open>Facts about fields\<close>

definition space_byte :: "char \<Rightarrow> bool" where
  "space_byte c \<longleftrightarrow> ascii c \<and> is_space (byte_val c)"

lemma space_byte_len: "space_byte c \<Longrightarrow> space_len (c # cs) = 1"
  by (simp add: space_byte_def space_len_ascii)

lemma space_byte_not_cont: "space_byte c \<Longrightarrow> \<not> cont_byte c"
  by (simp add: space_byte_def ascii_not_cont)

lemma no_space_iff: "no_space s \<longleftrightarrow> (\<forall>k < length s. space_len (drop k s) = 0)"
  by (induction s) (auto simp: less_Suc_eq_0_disj)

lemma fields_from_word:
  assumes "no_space w" "space_byte c"
  shows "fields_from acc (w @ c # s) =
    (if acc = [] \<and> w = [] then [] else [rev acc @ w]) @ fields_from [] s"
  using assms(1)
proof (induction w arbitrary: acc)
  case Nil
  then show ?case
    using space_byte_len[OF assms(2)] by (subst fields_from.simps) simp
next
  case (Cons x w)
  have "space_len ((x # w) @ c # s) = 0"
    using Cons.prems space_byte_not_cont[OF assms(2)] by (subst space_len_before) simp_all
  with Cons show ?case by (subst fields_from.simps) simp
qed

lemma fields_from_end:
  "no_space w \<Longrightarrow> fields_from acc w = (if acc = [] \<and> w = [] then [] else [rev acc @ w])"
  by (induction w arbitrary: acc) (simp_all add: fields_from.simps)

text \<open>Fields of a space-joined list of fields are the list.\<close>

lemma fields_join:
  "\<forall>w \<in> set ws. w \<noteq> [] \<and> no_space w \<Longrightarrow> str_fields (join '' '' ws) = ws"
proof (induction ws)
  case Nil
  show ?case by (simp add: str_fields_def fields_from_end)
next
  case (Cons w ws)
  have "space_byte CHR '' ''" by code_simp
  with Cons show ?case
    by (cases ws) (simp_all add: str_fields_def fields_from_end fields_from_word)
qed

lemma fields_from_words:
  assumes "\<forall>k < length acc. space_len (drop k (rev acc) @ s) = 0" "w \<in> set (fields_from acc s)"
  shows "w \<noteq> [] \<and> no_space w"
  using assms
proof (induction acc s rule: fields_from.induct)
  case (1 acc s)
  have acc_ok: "no_space (rev acc)"
    using "1.prems"(1) space_len_append unfolding no_space_iff
    by (metis length_rev)
  show ?case
  proof (cases "s = []")
    case True
    then show ?thesis
      using "1.prems"(2) acc_ok by (subst (asm) fields_from.simps) (auto split: if_splits)
  next
    case s: False
    show ?thesis
    proof (cases "space_len s = 0")
      case True
      have "\<forall>k < length (hd s # acc). space_len (drop k (rev (hd s # acc)) @ tl s) = 0"
        using "1.prems"(1) s True by (auto simp: less_Suc_eq)
      then show ?thesis
        using "1.IH"(1) "1.prems"(2) s True by (subst (asm) (2) fields_from.simps) simp
    next
      case False
      then show ?thesis
        using "1.IH"(2) "1.prems"(2) s acc_ok
        by (subst (asm) (2) fields_from.simps) (auto split: if_splits)
    qed
  qed
qed

lemma str_fields_words: "w \<in> set (str_fields s) \<Longrightarrow> w \<noteq> [] \<and> no_space w"
  unfolding str_fields_def by (rule fields_from_words) auto

text \<open>\<open>strings.Join(strings.Fields(s), " ")\<close>.\<close>

definition squash :: "string \<Rightarrow> string" where
  "squash s = join '' '' (str_fields s)"

lemma fields_squash [simp]: "str_fields (squash s) = str_fields s"
  unfolding squash_def using str_fields_words by (intro fields_join) blast

lemma squash_idem [simp]: "squash (squash s) = squash s"
  by (metis fields_squash squash_def)

lemma last_space_len_word:
  assumes "w \<noteq> []" "no_space w"
  shows "last_space_len w = 0" "last_space_len (x @ CHR '' '' # w) = 0"
proof -
  have drop: "space_len (drop n w) = 0" for n
    using assms(2) unfolding no_space_iff by (cases "n < length w") simp_all
  have "\<not> ends_in_space k w" if "0 < k" for k
    using that drop[of "length w - k"] by (auto simp: ends_in_space_def)
  then show "last_space_len w = 0" by (simp add: last_space_len_def)
  have "\<not> ends_in_space k (x @ CHR '' '' # w)" if k: "0 < k" for k
  proof
    assume e: "ends_in_space k (x @ CHR '' '' # w)"
    let ?n = "length (x @ CHR '' '' # w) - k"
    have l: "space_len (drop ?n (x @ CHR '' '' # w)) = k" and le: "k \<le> length (x @ CHR '' '' # w)"
      using e by (simp_all add: ends_in_space_def)
    consider "?n < length x" | "?n = length x" | "length x < ?n" by linarith
    then show False
    proof cases
      case 1
      then have "drop ?n x \<noteq> []" by simp
      then have "space_len (drop ?n x @ CHR '' '' # w) = space_len (drop ?n x)"
        by (rule space_len_before) code_simp
      then have "k = space_len (drop ?n x)" using l 1 by simp
      then show False using space_len_le[of "drop ?n x"] le k by simp
    next
      case 2
      have "space_len (CHR '' '' # w) = 1" by (rule space_byte_len) code_simp
      then have "k = 1" using l 2 by simp
      then show False using 2 assms(1) by (cases w) simp_all
    next
      case 3
      then obtain m where m: "?n = length x + Suc m" using less_imp_Suc_add by fastforce
      have "drop ?n (x @ CHR '' '' # w) = drop m w" unfolding m by simp
      then show False using l drop k by simp
    qed
  qed
  then show "last_space_len (x @ CHR '' '' # w) = 0" by (simp add: last_space_len_def)
qed

lemma join_last: "join '' '' (ws @ [w]) = (if ws = [] then w else join '' '' ws @ CHR '' '' # w)"
proof (induction ws)
  case (Cons v ws)
  then show ?case by (cases ws) simp_all
qed simp

lemma trim_join:
  assumes "ws \<noteq> []" "\<forall>w \<in> set ws. w \<noteq> [] \<and> no_space w"
  shows "trim_space (join '' '' ws) = join '' '' ws"
proof (rule trim_space_id)
  have sp: "\<not> cont_byte CHR '' ''" by code_simp
  obtain w ws' where ws: "ws = w # ws'" using assms(1) by (cases ws) auto
  have w0: "w \<noteq> []" "space_len w = 0" using assms(2) ws by (auto elim: no_space.elims)
  show "space_len (join '' '' ws) = 0"
    using w0 space_len_before[OF w0(1) sp] by (cases ws') (simp_all add: ws)
  obtain vs v where vs: "ws = vs @ [v]" using assms(1) by (metis rev_exhaust)
  then show "last_space_len (join '' '' ws) = 0"
    using assms(2) last_space_len_word[of v] by (simp add: join_last)
qed

lemma fields_from_acc: "acc \<noteq> [] \<Longrightarrow> fields_from acc s \<noteq> []"
proof (induction acc s rule: fields_from.induct)
  case (1 acc s)
  then show ?case by (subst fields_from.simps) auto
qed

lemma fields_nonempty:
  assumes "s \<noteq> []" "space_len s = 0"
  shows "str_fields s \<noteq> []"
  unfolding str_fields_def
  using assms fields_from_acc[of "[hd s]" "tl s"] by (subst fields_from.simps) simp

lemma fields_trim_nonempty: "trim_space s \<noteq> [] \<Longrightarrow> str_fields (trim_space s) \<noteq> []"
  by (rule fields_nonempty) (simp_all add: trim_space_spaceless)

text \<open>An ASCII byte of a string is one of its runes.\<close>

lemma ascii_in_runes: "c \<in> set s \<Longrightarrow> ascii c \<Longrightarrow> byte_val c \<in> set (runes s)"
proof (induction s rule: runes.induct)
  case (1 s)
  then have ne: "s \<noteq> []" by auto
  let ?w = "snd (decode_rune s)"
  have rs: "runes s = fst (decode_rune s) # runes (drop ?w s)" using ne by (simp add: runes.simps)
  have s: "s = hd s # tl (take ?w s) @ drop ?w s"
    using decode_rune_width[OF ne] ne append_take_drop_id[of ?w s]
    by (cases s; cases ?w) auto
  consider "c = hd s" | "c \<in> set (tl (take ?w s))" | "c \<in> set (drop ?w s)"
    using "1.prems"(1) s by (metis Un_iff set_ConsD set_append)
  then show ?case
  proof cases
    case 1
    then show ?thesis using decode_rune_ascii[of c "tl s"] "1.prems"(2) ne rs by (metis fst_conv hd_Cons_tl list.set_intros(1))
  next
    case 2
    then show ?thesis using decode_rune_conts[OF ne 2] ascii_not_cont[OF "1.prems"(2)] by simp
  next
    case 3
    then show ?thesis using 1 ne rs by auto
  qed
qed

section \<open>Facts about splitting, joining and numbers\<close>

lemma split_at_nonempty [simp]: "split_at sep s \<noteq> []"
  by (induction s) (auto split: list.splits)

lemma join_Cons: "ws \<noteq> [] \<Longrightarrow> join sep (w # ws) = w @ sep @ join sep ws"
  by (cases ws) simp_all

lemma join_split: "join [sep] (split_at sep s) = s"
proof (induction s)
  case (Cons c s)
  then show ?case
    by (cases "split_at sep s"; cases "tl (split_at sep s)") (auto simp: join_Cons)
qed simp

lemma split_at_no_sep: "w \<in> set (split_at sep s) \<Longrightarrow> sep \<notin> set w"
  by (induction s arbitrary: w) (auto split: if_splits list.splits)

lemma digits_from_append:
  "digits_from v (s @ t) = (case digits_from v s of None \<Rightarrow> None | Some u \<Rightarrow> digits_from u t)"
  by (induction s arbitrary: v) (auto split: option.split)

lemma digit_value_chr: "0 \<le> d \<Longrightarrow> d < 10 \<Longrightarrow> digit_value (byte_chr (0x30 + d)) = Some d"
  by (simp add: digit_value_def byte_val_chr)

lemma digits_format: "0 \<le> n \<Longrightarrow> digits_from 0 (format_nat n) = Some n"
proof (induction n rule: format_nat.induct)
  case (1 n)
  show ?case
  proof (cases "n < 10")
    case True
    then show ?thesis using 1 by (simp add: format_nat.simps digit_value_chr)
  next
    case False
    then show ?thesis
      using 1 digit_value_chr[of "n mod 10"]
      by (subst format_nat.simps) (simp add: digits_from_append)
  qed
qed

definition digit_byte :: "char \<Rightarrow> bool" where
  "digit_byte c \<longleftrightarrow> digit_value c \<noteq> None"

lemma format_nat_digits: "0 \<le> n \<Longrightarrow> c \<in> set (format_nat n) \<Longrightarrow> digit_byte c"
proof (induction n rule: format_nat.induct)
  case (1 n)
  show ?case
  proof (cases "n < 10")
    case True
    then show ?thesis using 1 by (simp add: format_nat.simps digit_byte_def digit_value_chr)
  next
    case False
    then show ?thesis
      using 1 by (subst (asm) (2) format_nat.simps) (auto simp: digit_byte_def digit_value_chr)
  qed
qed

lemma format_nat_nonempty [simp]: "format_nat n \<noteq> []"
  by (subst format_nat.simps) simp

lemma digit_byte_ascii: "digit_byte c \<Longrightarrow> ascii c \<and> \<not> is_space (byte_val c)"
  by (auto simp: digit_byte_def digit_value_def ascii_def is_space_def Let_def split: if_splits)

lemma no_space_digits: "(\<forall>c \<in> set s. digit_byte c) \<Longrightarrow> no_space s"
  by (induction s) (auto simp: space_len_ascii dest: digit_byte_ascii)

lemma no_space_format: "0 \<le> n \<Longrightarrow> no_space (format_nat n)"
  by (rule no_space_digits) (auto dest: format_nat_digits)

lemma no_space_ascii: "\<forall>c \<in> set s. ascii c \<and> \<not> is_space (byte_val c) \<Longrightarrow> no_space s"
  by (induction s) (auto simp: space_len_ascii)

text \<open>Digits in range read the same whether or not the error is dropped.\<close>

lemma digits_from_ge: "digits_from a s = Some v \<Longrightarrow> 0 \<le> a \<Longrightarrow> a \<le> v"
proof (induction s arbitrary: a)
  case (Cons c s)
  then obtain d where d: "digit_value c = Some d" "digits_from (10 * a + d) s = Some v"
    by (auto split: option.splits)
  then have "0 \<le> d" by (auto simp: digit_value_def Let_def split: if_splits)
  with Cons.IH[OF d(2)] Cons.prems show ?case by simp
qed simp

lemma digits_clamped_eq:
  "digits_from a s = Some v \<Longrightarrow> 0 \<le> a \<Longrightarrow> v < 2 ^ 64 \<Longrightarrow> digits_clamped a s = Some v"
proof (induction s arbitrary: a)
  case (Cons c s)
  then obtain d where d: "digit_value c = Some d" "digits_from (10 * a + d) s = Some v"
    by (auto split: option.splits)
  then have "0 \<le> 10 * a + d" using Cons.prems(2) by (auto simp: digit_value_def Let_def split: if_splits)
  with digits_from_ge[OF d(2)] Cons.IH[OF d(2)] Cons.prems(3) d(1) show ?case by simp
qed simp

lemma digit_not_sign: "digit_byte c \<Longrightarrow> c \<noteq> CHR ''-'' \<and> c \<noteq> CHR ''+''"
  by (auto simp: digit_byte_def digit_value_def byte_val_def Let_def)

lemma format_nat_unsigned:
  "0 \<le> n \<Longrightarrow> \<not> prefix ''-'' (format_nat n) \<and> \<not> prefix ''+'' (format_nat n)"
  using format_nat_digits[of n] digit_not_sign by (cases "format_nat n") auto

text \<open>Parsing what was formatted gives the number back.\<close>

lemma parse_format:
  "0 \<le> n \<Longrightarrow> n < 2 ^ 64 \<Longrightarrow> parse_uint64 (format_nat n) = Some n"
  by (simp add: parse_uint64_def digits_format)

lemma parse_itoa: "- (2 ^ 63) \<le> n \<Longrightarrow> n < 2 ^ 63 \<Longrightarrow> parse_int64 (itoa n) = Some n"
  using format_nat_unsigned[of n]
  by (simp add: parse_int64_def itoa_def Let_def digits_format)

lemma atoi_value_format:
  assumes "0 \<le> n" "n < 2 ^ 63"
  shows "atoi_value (format_nat n) = n"
proof -
  have "\<not> prefix ''-'' (format_nat n)" "\<not> prefix ''+'' (format_nat n)"
    using format_nat_unsigned[OF assms(1)] by auto
  moreover have "digits_clamped 0 (format_nat n) = Some n"
    using digits_clamped_eq[OF digits_format[OF assms(1)]] assms(2) by simp
  ultimately show ?thesis using assms by (simp add: atoi_value_def Let_def)
qed

lemma itoa_nonneg: "0 \<le> n \<Longrightarrow> itoa n = format_nat n"
  by (simp add: itoa_def)

section \<open>Facts about case mapping\<close>

definition upper_byte :: "char \<Rightarrow> char" where
  "upper_byte c = (if 0x61 \<le> byte_val c \<and> byte_val c \<le> 0x7A then byte_chr (byte_val c - 0x20) else c)"

definition lower_byte :: "char \<Rightarrow> char" where
  "lower_byte c = (if 0x41 \<le> byte_val c \<and> byte_val c \<le> 0x5A then byte_chr (byte_val c + 0x20) else c)"

definition all_ascii :: "string \<Rightarrow> bool" where
  "all_ascii s \<longleftrightarrow> (\<forall>c \<in> set s. ascii c)"

lemma runes_all_ascii: "all_ascii s \<Longrightarrow> runes s = map byte_val s"
  by (induction s) (auto simp: all_ascii_def runes_ascii)

lemma map_runes_ascii:
  assumes "all_ascii s" "\<And>c. ascii c \<Longrightarrow> encode_rune (f (byte_val c)) = [g c]"
  shows "map_runes f s = map g s"
  using assms by (induction s) (auto simp: all_ascii_def map_runes_def encode_runes_def runes_ascii)

lemma to_upper_ascii: "all_ascii s \<Longrightarrow> to_upper U s = map upper_byte s"
  unfolding to_upper_def using byte_val_range
  by (intro map_runes_ascii)
    (auto simp: rune_upper_def upper_byte_def ascii_def encode_rune_ascii)

lemma to_lower_ascii: "all_ascii s \<Longrightarrow> to_lower U s = map lower_byte s"
  unfolding to_lower_def using byte_val_range
  by (intro map_runes_ascii)
    (auto simp: rune_lower_def lower_byte_def ascii_def encode_rune_ascii)

end
