(* ===== verification/GoRegexp.thy ===== *)
theory GoRegexp
  imports GoStrings
begin

text \<open>
  Go's \<open>regexp\<close> as the program uses it: leftmost-first matching with greedy repetition, the
  assertions \<open>^ $ (?m)^ (?m)$ \b\<close>, capture groups, \<open>MatchString\<close>, \<open>FindAllStringSubmatch\<close> and
  \<open>ReplaceAllString\<close>.

  The matcher works on bytes, Go's on runes. The two agree on the program's patterns: their
  literals and classes are ASCII; a negated class or a dot is always under a repetition that an
  ASCII byte or the end of the text closes, so it takes all bytes of a multi-byte rune or none;
  \<open>\b\<close> looks at ASCII word characters only. Where \<open>(?i)\<close> adds a non-ASCII rune to a letter (U+017F
  for \<open>s\<close>, U+212A for \<open>k\<close>) its UTF-8 bytes are an alternative of the letter.
\<close>

section \<open>Expressions and the matcher\<close>

datatype re =
    Cls "char \<Rightarrow> bool"  \<comment> \<open>one byte of a class\<close>
  | Eps
  | Cat re re
  | Alt re re           \<comment> \<open>the left alternative is preferred\<close>
  | Star re             \<comment> \<open>greedy\<close>
  | Bot                 \<comment> \<open>beginning of text\<close>
  | Eot                 \<comment> \<open>end of text\<close>
  | Bol                 \<comment> \<open>beginning of line, under \<open>(?m)\<close>\<close>
  | Eol                 \<comment> \<open>end of line, under \<open>(?m)\<close>\<close>
  | WordB               \<comment> \<open>word boundary\<close>
  | Grp nat re          \<comment> \<open>numbered capture group\<close>

text \<open>The byte before the position, the text from the position, the captures (latest first).\<close>

type_synonym mstate = "char option \<times> string \<times> (nat \<times> string) list"

definition word_byte :: "char \<Rightarrow> bool" where
  "word_byte c \<longleftrightarrow> (let b = byte_val c in
     (0x30 \<le> b \<and> b \<le> 0x39) \<or> (0x41 \<le> b \<and> b \<le> 0x5A) \<or> b = 0x5F \<or> (0x61 \<le> b \<and> b \<le> 0x7A))"

definition newline :: char where
  "newline = CHR 0x0A"

definition word_boundary :: "char option \<Rightarrow> string \<Rightarrow> bool" where
  "word_boundary q s \<longleftrightarrow>
    (case q of None \<Rightarrow> False | Some c \<Rightarrow> word_byte c) \<noteq> (case s of [] \<Rightarrow> False | c # _ \<Rightarrow> word_byte c)"

fun holds_at :: "re \<Rightarrow> char option \<Rightarrow> string \<Rightarrow> bool" where
  "holds_at Bot q s \<longleftrightarrow> q = None"
| "holds_at Eot q s \<longleftrightarrow> s = []"
| "holds_at Bol q s \<longleftrightarrow> q = None \<or> q = Some newline"
| "holds_at Eol q s \<longleftrightarrow> s = [] \<or> hd s = newline"
| "holds_at WordB q s \<longleftrightarrow> word_boundary q s"
| "holds_at _ q s \<longleftrightarrow> True"

definition capture :: "nat \<Rightarrow> string \<Rightarrow> mstate \<Rightarrow> mstate" where
  "capture n s m = (case m of (q, t, cs) \<Rightarrow> (q, t, (n, take (length s - length t) s) # cs))"

definition rest_of :: "mstate \<Rightarrow> string" where
  "rest_of m = fst (snd m)"

text \<open>All ways to match, in the order Go's leftmost-first matcher prefers them.\<close>

function run :: "re \<Rightarrow> mstate \<Rightarrow> mstate list" where
  "run (Cls p) (q, s, cs) = (case s of [] \<Rightarrow> [] | c # t \<Rightarrow> if p c then [(Some c, t, cs)] else [])"
| "run Eps m = [m]"
| "run (Cat a b) m = concat (map (run b) (run a m))"
| "run (Alt a b) m = run a m @ run b m"
| "run (Star a) m =
    concat (map (run (Star a)) (filter (\<lambda>m'. length (rest_of m') < length (rest_of m)) (run a m))) @ [m]"
| "run Bot (q, s, cs) = (if holds_at Bot q s then [(q, s, cs)] else [])"
| "run Eot (q, s, cs) = (if holds_at Eot q s then [(q, s, cs)] else [])"
| "run Bol (q, s, cs) = (if holds_at Bol q s then [(q, s, cs)] else [])"
| "run Eol (q, s, cs) = (if holds_at Eol q s then [(q, s, cs)] else [])"
| "run WordB (q, s, cs) = (if holds_at WordB q s then [(q, s, cs)] else [])"
| "run (Grp n a) (q, s, cs) = map (capture n s) (run a (q, s, cs))"
  by pat_completeness auto
termination
  by (relation "measures [\<lambda>(r, m). size r, \<lambda>(r, m). length (rest_of m)]") auto

declare run.simps(5) [simp del]

text \<open>The leftmost match: the text before it, and the state after it.\<close>

fun find_from :: "re \<Rightarrow> char option \<Rightarrow> string \<Rightarrow> (string \<times> mstate) option" where
  "find_from r q [] = (case run r (q, [], []) of m # _ \<Rightarrow> Some ([], m) | [] \<Rightarrow> None)"
| "find_from r q (c # t) =
    (case run r (q, c # t, []) of
       m # _ \<Rightarrow> Some ([], m)
     | [] \<Rightarrow> map_option (\<lambda>(pre, m). (c # pre, m)) (find_from r (Some c) t))"

text \<open>\<open>MatchString\<close>.\<close>

definition match_string :: "re \<Rightarrow> string \<Rightarrow> bool" where
  "match_string r s \<longleftrightarrow> find_from r None s \<noteq> None"

text \<open>
  \<open>FindAllStringSubmatch(s, -1)\<close>: the captures of the successive matches, each search
  starting where the last match ended (one byte further after an empty match).
\<close>

function find_all :: "re \<Rightarrow> char option \<Rightarrow> string \<Rightarrow> (nat \<times> string) list list" where
  "find_all r q s =
    (case find_from r q s of
       None \<Rightarrow> []
     | Some (pre, (q', t, cs)) \<Rightarrow>
         if length t < length s then cs # find_all r q' t
         else cs # (case s of [] \<Rightarrow> [] | c # s' \<Rightarrow> find_all r (Some c) s'))"
  by pat_completeness auto
termination
  by (relation "measure (\<lambda>(r, q, s). length s)") auto

declare find_all.simps [simp del]

text \<open>\<open>ReplaceAllString\<close>, the replacement being a function of the captures.\<close>

function replace_from :: "re \<Rightarrow> ((nat \<times> string) list \<Rightarrow> string) \<Rightarrow> char option \<Rightarrow> string \<Rightarrow> string" where
  "replace_from r f q s =
    (case find_from r q s of
       None \<Rightarrow> s
     | Some (pre, (q', t, cs)) \<Rightarrow>
         if length t < length s then pre @ f cs @ replace_from r f q' t
         else f cs @ (case s of [] \<Rightarrow> [] | c # s' \<Rightarrow> c # replace_from r f (Some c) s'))"
  by pat_completeness auto
termination
  by (relation "measure (\<lambda>(r, f, q, s). length s)") auto

declare replace_from.simps [simp del]

definition replace_all :: "re \<Rightarrow> ((nat \<times> string) list \<Rightarrow> string) \<Rightarrow> string \<Rightarrow> string" where
  "replace_all r f s = replace_from r f None s"

definition group :: "nat \<Rightarrow> (nat \<times> string) list \<Rightarrow> string" where
  "group n cs = (case map_of cs n of None \<Rightarrow> [] | Some w \<Rightarrow> w)"

section \<open>Building blocks of the patterns\<close>

definition Fail :: re where
  "Fail = Cls (\<lambda>_. False)"

fun seqs :: "re list \<Rightarrow> re" where
  "seqs [] = Eps"
| "seqs [r] = r"
| "seqs (r # rs) = Cat r (seqs rs)"

fun alts :: "re list \<Rightarrow> re" where
  "alts [] = Fail"
| "alts [r] = r"
| "alts (r # rs) = Alt r (alts rs)"

definition Opt :: "re \<Rightarrow> re" where
  "Opt r = Alt r Eps"

definition Plus :: "re \<Rightarrow> re" where
  "Plus r = Cat r (Star r)"

fun at_least :: "nat \<Rightarrow> re \<Rightarrow> re" where
  "at_least 0 r = Star r"
| "at_least (Suc n) r = Cat r (at_least n r)"

text \<open>\<open>r{n,n+k}\<close>, greedy.\<close>

fun up_to :: "nat \<Rightarrow> re \<Rightarrow> re" where
  "up_to 0 r = Eps"
| "up_to (Suc n) r = Opt (Cat r (up_to n r))"

fun repeat_between :: "nat \<Rightarrow> nat \<Rightarrow> re \<Rightarrow> re" where
  "repeat_between 0 k r = up_to k r"
| "repeat_between (Suc n) k r = Cat r (repeat_between n k r)"

fun lit :: "string \<Rightarrow> re" where
  "lit [] = Eps"
| "lit (c # cs) = Cat (Cls (\<lambda>d. d = c)) (lit cs)"

text \<open>A byte of the pattern under \<open>(?i)\<close>.\<close>

definition long_s :: string where "long_s = [CHR 0xC5, CHR 0xBF]"
definition kelvin :: string where "kelvin = [CHR 0xE2, CHR 0x84, CHR 0xAA]"

definition ci_chr :: "char \<Rightarrow> re" where
  "ci_chr c = (let b = Cls (\<lambda>d. lower_byte d = lower_byte c) in
     if lower_byte c = CHR ''s'' then Alt b (lit long_s)
     else if lower_byte c = CHR ''k'' then Alt b (lit kelvin) else b)"

fun ci_lit :: "string \<Rightarrow> re" where
  "ci_lit [] = Eps"
| "ci_lit (c # cs) = Cat (ci_chr c) (ci_lit cs)"

definition digit_cls :: "char \<Rightarrow> bool" where
  "digit_cls c \<longleftrightarrow> 0x30 \<le> byte_val c \<and> byte_val c \<le> 0x39"

definition alpha_cls :: "char \<Rightarrow> bool" where
  "alpha_cls c \<longleftrightarrow> (let b = byte_val c in (0x41 \<le> b \<and> b \<le> 0x5A) \<or> (0x61 \<le> b \<and> b \<le> 0x7A))"

definition alnum_cls :: "char \<Rightarrow> bool" where
  "alnum_cls c \<longleftrightarrow> alpha_cls c \<or> digit_cls c"

text \<open>\<open>\s\<close>: tab, newline, form feed, carriage return, space.\<close>

definition space_cls :: "char \<Rightarrow> bool" where
  "space_cls c \<longleftrightarrow> (let b = byte_val c in b = 9 \<or> b = 10 \<or> b = 12 \<or> b = 13 \<or> b = 32)"

abbreviation spaces :: re where "spaces \<equiv> Star (Cls space_cls)"
abbreviation spaces1 :: re where "spaces1 \<equiv> Plus (Cls space_cls)"

section \<open>What an expression matches\<close>

text \<open>
  \<open>takes r q w t\<close>: at a position preceded by \<open>q\<close>, \<open>r\<close> can match exactly \<open>w\<close> when \<open>t\<close> follows. The
  equations below characterise it by the structure of \<open>r\<close>: they are the meaning of an
  expression, independent of the matcher's order and of captures.
\<close>

definition prev_after :: "char option \<Rightarrow> string \<Rightarrow> char option" where
  "prev_after q w = (if w = [] then q else Some (last w))"

lemma prev_after_simps [simp]: "prev_after q [] = q" "prev_after q (w @ [c]) = Some c"
  "prev_after (prev_after q u) v = prev_after q (u @ v)" "prev_after q [c] = Some c"
  by (auto simp: prev_after_def)

lemma prev_after_Cons: "prev_after q (c # w) = prev_after (Some c) w"
  by (simp add: prev_after_def)

definition add_caps :: "(nat \<times> string) list \<Rightarrow> mstate \<Rightarrow> mstate" where
  "add_caps cs m = (case m of (q, t, cs') \<Rightarrow> (q, t, cs' @ cs))"

lemma rest_add_caps [simp]: "rest_of (add_caps cs m) = rest_of m"
  by (simp add: add_caps_def rest_of_def split: prod.split)

lemma add_caps_compose: "add_caps cs (add_caps ds m) = add_caps (ds @ cs) m"
  by (simp add: add_caps_def split: prod.split)

lemma run_caps: "run r (add_caps cs m) = map (add_caps cs) (run r m)"
proof (induction r m arbitrary: cs rule: run.induct)
  case (3 a b m)
  then show ?case by (simp add: map_concat comp_def cong: map_cong)
next
  case (5 a m)
  let ?P = "\<lambda>m'. length (rest_of m') < length (rest_of m)"
  have "run (Star a) (add_caps cs m) =
      concat (map (\<lambda>m'. run (Star a) (add_caps cs m')) (filter ?P (run a m))) @ [add_caps cs m]"
    by (subst run.simps(5)) (simp add: 5(1) filter_map comp_def)
  also have "map (\<lambda>m'. run (Star a) (add_caps cs m')) (filter ?P (run a m)) =
      map (\<lambda>m'. map (add_caps cs) (run (Star a) m')) (filter ?P (run a m))"
    using 5(2) by (intro map_cong) auto
  also have "concat \<dots> @ [add_caps cs m] = map (add_caps cs) (run (Star a) m)"
    by (subst run.simps(5)) (simp add: map_concat comp_def)
  finally show ?case .
next
  case (11 n a q s ds)
  have "run a (q, s, ds @ cs) = map (add_caps cs) (run a (q, s, ds))"
    using 11[of cs] by (simp add: add_caps_def)
  then show ?case by (simp add: add_caps_def capture_def split: prod.split)
qed (auto simp: add_caps_def split: list.split prod.split)

lemma run_caps_Nil: "run r (q, s, cs) = map (add_caps cs) (run r (q, s, []))"
  using run_caps[of r cs "(q, s, [])"] by (simp add: add_caps_def)

lemma run_split:
  "m' \<in> set (run r m) \<Longrightarrow> \<exists>w. rest_of m = w @ rest_of m' \<and> fst m' = prev_after (fst m) w"
proof (induction r m arbitrary: m' rule: run.induct)
  case (1 p q s cs)
  then show ?case
    by (cases s) (auto simp: rest_of_def split: if_splits intro!: exI[of _ "[_]"])
next
  case (3 a b m)
  then obtain m1 where m1: "m1 \<in> set (run a m)" "m' \<in> set (run b m1)" by auto
  obtain u where u: "rest_of m = u @ rest_of m1" "fst m1 = prev_after (fst m) u"
    using 3(1)[OF m1(1)] by blast
  obtain v where v: "rest_of m1 = v @ rest_of m'" "fst m' = prev_after (fst m1) v"
    using 3(2)[OF m1] by blast
  show ?case by (rule exI[of _ "u @ v"]) (simp add: u v)
next
  case (5 a m)
  show ?case
  proof (cases "m' = m")
    case True
    then show ?thesis by (intro exI[of _ "[]"]) simp
  next
    case False
    then obtain m1 where m1: "m1 \<in> set (run a m)" "length (rest_of m1) < length (rest_of m)"
      "m' \<in> set (run (Star a) m1)"
      using 5(3) by (subst (asm) run.simps) auto
    obtain u where u: "rest_of m = u @ rest_of m1" "fst m1 = prev_after (fst m) u"
      using 5(1)[OF m1(1)] by blast
    obtain v where v: "rest_of m1 = v @ rest_of m'" "fst m' = prev_after (fst m1) v"
      using 5(2)[OF _ m1(3)] m1 by auto
    show ?thesis by (rule exI[of _ "u @ v"]) (simp add: u v)
  qed
next
  case (11 n a q s cs)
  then obtain m1 where "m1 \<in> set (run a (q, s, cs))" "m' = capture n s m1" by auto
  with 11(1)[of m1] show ?case by (auto simp: capture_def rest_of_def split: prod.split)
qed (auto simp: rest_of_def split: if_splits)

definition takes :: "re \<Rightarrow> char option \<Rightarrow> string \<Rightarrow> string \<Rightarrow> bool" where
  "takes r q w t \<longleftrightarrow> (\<exists>cs. (prev_after q w, t, cs) \<in> set (run r (q, w @ t, [])))"

lemma run_takes: "(q', t, cs') \<in> set (run r (q, w @ t, cs)) \<Longrightarrow> takes r q w t"
proof -
  assume a: "(q', t, cs') \<in> set (run r (q, w @ t, cs))"
  have "q' = prev_after q w"
    using run_split[OF a] by (auto simp: rest_of_def)
  then show ?thesis
    using a unfolding takes_def run_caps_Nil[of r q "w @ t" cs] by (auto simp: add_caps_def)
qed

lemma takes_run: "takes r q w t \<Longrightarrow> \<exists>cs'. (prev_after q w, t, cs') \<in> set (run r (q, w @ t, cs))"
  unfolding takes_def run_caps_Nil[of r q "w @ t" cs] by (force simp: add_caps_def)

lemma run_nonempty_takes: "run r (q, s, cs) \<noteq> [] \<longleftrightarrow> (\<exists>w t. s = w @ t \<and> takes r q w t)"
proof
  assume "run r (q, s, cs) \<noteq> []"
  then obtain q' t cs' where m: "(q', t, cs') \<in> set (run r (q, s, cs))"
    by (cases "run r (q, s, cs)") auto
  then obtain w where "s = w @ t" using run_split[OF m] by (auto simp: rest_of_def)
  with m run_takes show "\<exists>w t. s = w @ t \<and> takes r q w t" by blast
next
  assume "\<exists>w t. s = w @ t \<and> takes r q w t"
  then show "run r (q, s, cs) \<noteq> []" using takes_run by (metis empty_iff empty_set)
qed

text \<open>The meaning of each constructor.\<close>

lemma append_eq_self: "w @ t = u @ t \<longleftrightarrow> w = u"
  by simp

lemma takes_Cls: "takes (Cls p) q w t \<longleftrightarrow> (\<exists>c. w = [c] \<and> p c)"
proof (cases w)
  case Nil
  then show ?thesis by (cases t) (auto simp: takes_def split: if_splits)
next
  case (Cons c v)
  then show ?thesis by (auto simp: takes_def prev_after_def split: if_splits)
qed

lemma takes_Eps: "takes Eps q w t \<longleftrightarrow> w = []"
  by (auto simp: takes_def)

lemma takes_Alt: "takes (Alt a b) q w t \<longleftrightarrow> takes a q w t \<or> takes b q w t"
  by (auto simp: takes_def)

lemma takes_assertion:
  assumes "r \<in> {Bot, Eot, Bol, Eol, WordB}"
  shows "takes r q w t \<longleftrightarrow> w = [] \<and> holds_at r q t"
  using assms by (auto simp: takes_def)

lemma takes_Cat:
  "takes (Cat a b) q w t \<longleftrightarrow>
    (\<exists>u v. w = u @ v \<and> takes a q u (v @ t) \<and> takes b (prev_after q u) v t)"
proof
  assume "takes (Cat a b) q w t"
  then obtain m1 cs where m1: "m1 \<in> set (run a (q, w @ t, []))"
    "(prev_after q w, t, cs) \<in> set (run b m1)"
    by (auto simp: takes_def)
  obtain q1 s1 c1 where m1_eq: "m1 = (q1, s1, c1)" by (cases m1)
  obtain u where u: "w @ t = u @ s1" "q1 = prev_after q u"
    using run_split[OF m1(1)] by (auto simp: m1_eq rest_of_def)
  obtain v where v: "s1 = v @ t"
    using run_split[OF m1(2)] by (auto simp: m1_eq rest_of_def)
  have "w = u @ v" using u v by simp
  moreover have "takes a q u (v @ t)"
    using m1(1) u v by (auto simp: m1_eq intro: run_takes)
  moreover have "takes b (prev_after q u) v t"
    using m1(2) u v by (auto simp: m1_eq intro: run_takes)
  ultimately show "\<exists>u v. w = u @ v \<and> takes a q u (v @ t) \<and> takes b (prev_after q u) v t" by blast
next
  assume "\<exists>u v. w = u @ v \<and> takes a q u (v @ t) \<and> takes b (prev_after q u) v t"
  then obtain u v where uv: "w = u @ v" "takes a q u (v @ t)" "takes b (prev_after q u) v t" by blast
  obtain cs where a: "(prev_after q u, v @ t, cs) \<in> set (run a (q, w @ t, []))"
    using uv(1,2) by (auto simp: takes_def)
  obtain cs' where "(prev_after q w, t, cs') \<in> set (run b (prev_after q u, v @ t, cs))"
    using takes_run[OF uv(3), of cs] uv(1) by auto
  with a show "takes (Cat a b) q w t" by (force simp: takes_def)
qed

lemma takes_Grp: "takes (Grp n a) q w t \<longleftrightarrow> takes a q w t"
  by (force simp: takes_def capture_def split: prod.splits)

lemma takes_Star:
  "takes (Star a) q w t \<longleftrightarrow> w = [] \<or>
    (\<exists>u v. u \<noteq> [] \<and> w = u @ v \<and> takes a q u (v @ t) \<and> takes (Star a) (prev_after q u) v t)"
proof
  assume l: "takes (Star a) q w t"
  show "w = [] \<or>
    (\<exists>u v. u \<noteq> [] \<and> w = u @ v \<and> takes a q u (v @ t) \<and> takes (Star a) (prev_after q u) v t)"
  proof (cases "w = []")
    case False
    then obtain m1 cs where m1: "m1 \<in> set (run a (q, w @ t, []))"
      "length (rest_of m1) < length (w @ t)" "(prev_after q w, t, cs) \<in> set (run (Star a) m1)"
      using l unfolding takes_def by (subst (asm) run.simps(5)) (auto simp: rest_of_def)
    obtain q1 s1 c1 where m1_eq: "m1 = (q1, s1, c1)" by (cases m1)
    obtain u where u: "w @ t = u @ s1" "q1 = prev_after q u"
      using run_split[OF m1(1)] by (auto simp: m1_eq rest_of_def)
    obtain v where v: "s1 = v @ t"
      using run_split[OF m1(3)] by (auto simp: m1_eq rest_of_def)
    have "w = u @ v" "u \<noteq> []" using u v m1(2) by (auto simp: m1_eq rest_of_def)
    moreover have "takes a q u (v @ t)"
      using m1(1) u v by (auto simp: m1_eq intro: run_takes)
    moreover have "takes (Star a) (prev_after q u) v t"
      using m1(3) u v by (auto simp: m1_eq intro: run_takes)
    ultimately show ?thesis by blast
  qed simp
next
  assume "w = [] \<or>
    (\<exists>u v. u \<noteq> [] \<and> w = u @ v \<and> takes a q u (v @ t) \<and> takes (Star a) (prev_after q u) v t)"
  then show "takes (Star a) q w t"
  proof (elim disjE exE conjE)
    assume "w = []"
    then show ?thesis unfolding takes_def by (subst run.simps(5)) auto
  next
    fix u v
    assume uv: "u \<noteq> []" "w = u @ v" "takes a q u (v @ t)" "takes (Star a) (prev_after q u) v t"
    obtain cs where a: "(prev_after q u, v @ t, cs) \<in> set (run a (q, w @ t, []))"
      using uv(2,3) by (auto simp: takes_def)
    obtain cs' where "(prev_after q w, t, cs') \<in> set (run (Star a) (prev_after q u, v @ t, cs))"
      using takes_run[OF uv(4), of cs] uv(2) by auto
    with a uv(1,2) show ?thesis
      unfolding takes_def by (subst run.simps(5)) (force simp: rest_of_def)
  qed
qed

text \<open>An assertion in front, and one at the end, of a sequence.\<close>

lemma takes_Cat_assertion:
  "r \<in> {Bot, Eot, Bol, Eol, WordB} \<Longrightarrow>
    takes (Cat r b) q w t \<longleftrightarrow> holds_at r q (w @ t) \<and> takes b q w t"
  unfolding takes_Cat by (subst takes_assertion) auto

lemma takes_end_assertion:
  "r \<in> {Bot, Eot, Bol, Eol, WordB} \<Longrightarrow>
    takes (Cat a r) q w t \<longleftrightarrow> takes a q w t \<and> holds_at r (prev_after q w) t"
  unfolding takes_Cat by (subst takes_assertion) auto

lemma takes_Cat_Cls:
  "takes (Cat (Cls p) b) q w t \<longleftrightarrow> (\<exists>c v. w = c # v \<and> p c \<and> takes b (Some c) v t)"
  unfolding takes_Cat takes_Cls by (metis append_Cons append_Nil prev_after_simps(4))

lemma takes_Opt: "takes (Opt r) q w t \<longleftrightarrow> w = [] \<or> takes r q w t"
  by (auto simp: Opt_def takes_Alt takes_Eps)

lemma takes_alts: "takes (alts rs) q w t \<longleftrightarrow> (\<exists>r \<in> set rs. takes r q w t)"
  by (induction rs rule: alts.induct) (auto simp: takes_Alt Fail_def takes_Cls)

lemma takes_lit: "takes (lit v) q w t \<longleftrightarrow> w = v"
  by (induction v arbitrary: q w) (auto simp: takes_Cat takes_Cls takes_Eps)

lemma takes_star_cls: "takes (Star (Cls p)) q w t \<longleftrightarrow> (\<forall>c \<in> set w. p c)"
proof (induction w arbitrary: q)
  case Nil
  show ?case by (subst takes_Star) simp
next
  case (Cons c w)
  have "takes (Star (Cls p)) q (c # w) t \<longleftrightarrow>
      (\<exists>u v. c # w = u @ v \<and> takes (Cls p) q u (v @ t) \<and> takes (Star (Cls p)) (prev_after q u) v t)"
    by (subst takes_Star) (auto simp: takes_Cls)
  also have "\<dots> \<longleftrightarrow> takes (Cat (Cls p) (Star (Cls p))) q (c # w) t"
    by (simp only: takes_Cat)
  finally show ?case by (simp add: takes_Cat_Cls Cons)
qed

lemma takes_plus_cls: "takes (Plus (Cls p)) q w t \<longleftrightarrow> w \<noteq> [] \<and> (\<forall>c \<in> set w. p c)"
  by (cases w) (auto simp: Plus_def takes_Cat_Cls takes_star_cls)

lemmas takes_simps = takes_Cls takes_Eps takes_Alt takes_Cat takes_Grp takes_Opt takes_alts
  takes_lit takes_star_cls takes_plus_cls takes_assertion

section \<open>Captures\<close>

text \<open>The numbered groups of an expression; a capture is a text its group takes.\<close>

fun groups_of :: "re \<Rightarrow> (nat \<times> re) list" where
  "groups_of (Cat a b) = groups_of a @ groups_of b"
| "groups_of (Alt a b) = groups_of a @ groups_of b"
| "groups_of (Star a) = groups_of a"
| "groups_of (Grp n a) = (n, a) # groups_of a"
| "groups_of _ = []"

definition captured :: "re \<Rightarrow> nat \<Rightarrow> string \<Rightarrow> bool" where
  "captured r n w \<longleftrightarrow> (\<exists>a q t. (n, a) \<in> set (groups_of r) \<and> takes a q w t)"

lemma captured_simps [simp]:
  "captured (Cat a b) n w \<longleftrightarrow> captured a n w \<or> captured b n w"
  "captured (Alt a b) n w \<longleftrightarrow> captured a n w \<or> captured b n w"
  "captured (Star a) n w \<longleftrightarrow> captured a n w"
  "captured (Grp k a) n w \<longleftrightarrow> (n = k \<and> (\<exists>q t. takes a q w t)) \<or> captured a n w"
  by (auto simp: captured_def)

lemma captures_run:
  "m' \<in> set (run r m) \<Longrightarrow> (n, w) \<in> set (snd (snd m')) \<Longrightarrow> (n, w) \<in> set (snd (snd m)) \<or> captured r n w"
proof (induction r m arbitrary: m' rule: run.induct)
  case (1 p q s cs)
  then show ?case by (cases s) (auto split: if_splits)
next
  case (3 a b m)
  then obtain m1 where m1: "m1 \<in> set (run a m)" "m' \<in> set (run b m1)" by auto
  show ?case using 3(1)[OF m1(1)] 3(2)[OF m1 3(4)] by auto
next
  case (5 a m)
  show ?case
  proof (cases "m' = m")
    case False
    then obtain m1 where m1: "m1 \<in> set (run a m)" "length (rest_of m1) < length (rest_of m)"
      "m' \<in> set (run (Star a) m1)"
      using 5(3) by (subst (asm) run.simps) auto
    then show ?thesis using 5(1)[OF m1(1)] 5(2)[OF _ m1(3)] 5(4) by auto
  qed (use 5 in auto)
next
  case (11 k a q s cs)
  then obtain q1 t1 c1 where m1: "(q1, t1, c1) \<in> set (run a (q, s, cs))"
    and m': "m' = capture k s (q1, t1, c1)" by (auto simp: image_iff)
  obtain u where u: "s = u @ t1" using run_split[OF m1] by (auto simp: rest_of_def)
  have t: "takes a q u t1" using m1 u run_takes[of q1 t1 c1 a q u cs] by simp
  have "n = k \<and> w = u \<or> (n, w) \<in> set c1" using 11(3) m' u by (auto simp: capture_def)
  then show ?case using t 11(1)[OF m1] by auto
qed (auto split: if_splits)

section \<open>Searching\<close>

lemma list_all_prefixes:
  "(\<forall>pre t. s = pre @ t \<longrightarrow> P (run r (prev_after q pre, t, []))) \<longleftrightarrow>
   (\<forall>t. s = t \<longrightarrow> P (run r (q, t, []))) \<and>
   (\<forall>d pre t. s = d # pre @ t \<longrightarrow> P (run r (prev_after (Some d) pre, t, [])))"
proof (intro iffI conjI allI impI)
  fix d pre t
  assume "\<forall>pre t. s = pre @ t \<longrightarrow> P (run r (prev_after q pre, t, []))" "s = d # pre @ t"
  then have "P (run r (prev_after q (d # pre), t, []))" by simp
  then show "P (run r (prev_after (Some d) pre, t, []))" by (simp add: prev_after_Cons)
next
  fix pre t
  assume "(\<forall>t. s = t \<longrightarrow> P (run r (q, t, []))) \<and>
    (\<forall>d pre t. s = d # pre @ t \<longrightarrow> P (run r (prev_after (Some d) pre, t, [])))" "s = pre @ t"
  then show "P (run r (prev_after q pre, t, []))" by (cases pre) (auto simp: prev_after_Cons)
qed (metis append_Nil prev_after_simps(1))

lemma find_from_None:
  "find_from r q s = None \<longleftrightarrow> (\<forall>pre t. s = pre @ t \<longrightarrow> run r (prev_after q pre, t, []) = [])"
proof (induction s arbitrary: q)
  case Nil
  show ?case by (simp split: list.split)
next
  case (Cons c s)
  have "(\<forall>pre t. c # s = pre @ t \<longrightarrow> run r (prev_after q pre, t, []) = []) \<longleftrightarrow>
    (\<forall>t. c # s = t \<longrightarrow> run r (q, t, []) = []) \<and>
    (\<forall>d pre t. c # s = d # pre @ t \<longrightarrow> run r (prev_after (Some d) pre, t, []) = [])"
    by (rule list_all_prefixes[where P = "\<lambda>x. x = []"])
  then show ?case by (simp add: Cons split: list.split)
qed

lemma find_from_Some:
  "find_from r q s = Some (pre, m) \<Longrightarrow>
    \<exists>t ms. s = pre @ t \<and> run r (prev_after q pre, t, []) = m # ms"
  by (induction r q s arbitrary: pre rule: find_from.induct)
    (auto simp: prev_after_Cons split: list.splits)

text \<open>\<open>MatchString\<close> is: some substring is taken where it stands.\<close>

lemma match_string_iff:
  "match_string r s \<longleftrightarrow> (\<exists>pre w t. s = pre @ w @ t \<and> takes r (prev_after None pre) w t)"
  unfolding match_string_def find_from_None by (metis run_nonempty_takes)

text \<open>A pattern between \<open>^\<close> and \<open>$\<close> takes the whole text.\<close>

definition whole :: "re \<Rightarrow> re" where
  "whole r = Cat Bot (Cat r Eot)"

lemma prev_after_None: "prev_after q w = None \<longleftrightarrow> q = None \<and> w = []"
  by (simp add: prev_after_def)

lemma match_whole: "match_string (whole r) s \<longleftrightarrow> takes r None s []"
  by (auto simp: match_string_iff whole_def takes_Cat takes_assertion prev_after_None)

lemma set_bytes_lower: "map lower_byte w = map lower_byte v \<Longrightarrow> takes (ci_lit v) q w t"
proof (induction v arbitrary: q w)
  case Nil
  then show ?case by (simp add: takes_Eps)
next
  case (Cons c v)
  then obtain d u where w: "w = d # u" "lower_byte d = lower_byte c"
    "map lower_byte u = map lower_byte v" by auto
  have "takes (ci_chr c) q [d] (u @ t)"
    using w(2) by (auto simp: ci_chr_def Let_def takes_Alt takes_Cls)
  then show ?case
    unfolding ci_lit.simps takes_Cat w(1) using Cons.IH[OF w(3)] by (intro exI[of _ "[d]"] exI) auto
qed

end
