(* ===== verification/SqlValidator.thy ===== *)
theory SqlValidator
  imports GoRegexp
begin

text \<open>
  \<open>internal/testdb/validator.go\<close>: the client-side policy for one read-only SQL statement.
  The scanner \<open>normalizeForValidation\<close> blanks quoted values and refuses comments; the patterns
  are the regular expressions of the source; \<open>ValidateReadOnlySQL\<close> runs the checks in the
  order of the code, each error being a value of \<open>sql_error\<close>.
\<close>

section \<open>Errors and constants\<close>

datatype sql_error =
    EmptyStatement
  | StatementTooLong
  | NullByte
  | MultipleStatements
  | InvalidEscape
  | UnclosedQuote
  | CommentsNotAllowed
  | EscapeOutsideString
  | DisallowedCharacter rune
  | PrefixNotAllowed
  | ForbiddenKeyword
  | SuspiciousExpression
  | LimitRequired

definition maxSQLLength :: nat where
  "maxSQLLength = 8192"

definition allowedPrefixes :: "string list" where
  "allowedPrefixes = [''SELECT'', ''SHOW'', ''DESCRIBE'', ''DESC'', ''EXPLAIN'', ''WITH'']"

text \<open>The single-word alternatives of \<open>forbiddenSQL\<close>, in the order of the pattern.\<close>

definition forbiddenWords :: "string list" where
  "forbiddenWords = [''INSERT'', ''UPDATE'', ''DELETE'', ''DROP'', ''TRUNCATE'', ''ALTER'', ''CREATE'',
     ''REPLACE'', ''RENAME'', ''GRANT'', ''REVOKE'', ''CALL'', ''LOAD'', ''LOAD_FILE'', ''LOCK'',
     ''UNLOCK'', ''SET'', ''EXEC'', ''EXECUTE'', ''PREPARE'', ''DEALLOCATE'', ''HANDLER'', ''PROCEDURE'',
     ''FUNCTION'', ''TRIGGER'', ''EVENT'', ''OUTFILE'', ''DUMPFILE'', ''INFILE'', ''INTO'']"

text \<open>A function name, white space, an opening bracket.\<close>

definition call_re :: "string \<Rightarrow> re" where
  "call_re name = seqs [ci_lit name, spaces, lit ''('']"

definition forbiddenPhrases :: "re list" where
  "forbiddenPhrases =
    [seqs [ci_lit ''FOR'', spaces1, ci_lit ''UPDATE''],
     seqs [ci_lit ''LOCK'', spaces1, ci_lit ''IN'', spaces1, ci_lit ''SHARE'', spaces1, ci_lit ''MODE''],
     call_re ''SLEEP'', call_re ''BENCHMARK'', call_re ''GET_LOCK'', call_re ''RELEASE_LOCK'']"

definition forbiddenSQL :: re where
  "forbiddenSQL =
    seqs [WordB, Grp 1 (alts (map ci_lit forbiddenWords @ forbiddenPhrases)), WordB]"

definition hex_cls :: "char \<Rightarrow> bool" where
  "hex_cls c \<longleftrightarrow> digit_cls c \<or> (let b = byte_val (lower_byte c) in 0x61 \<le> b \<and> b \<le> 0x66)"

definition suspiciousSQL :: re where
  "suspiciousSQL = Grp 1 (alts
    [seqs [ci_lit ''0x'', at_least 8 (Cls hex_cls)],
     call_re ''unhex'', call_re ''extractvalue'', call_re ''updatexml'', call_re ''sleep'',
     call_re ''benchmark''])"

definition limitClause :: re where
  "limitClause = seqs [WordB, ci_lit ''LIMIT'', spaces1, Plus (Cls digit_cls)]"

section \<open>The scanner\<close>

definition is_quote :: "char \<Rightarrow> bool" where
  "is_quote c \<longleftrightarrow> c = CHR 0x27 \<or> c = CHR 0x22 \<or> c = CHR 0x60"

definition backslash :: char where
  "backslash = CHR 0x5C"

definition backtick :: char where
  "backtick = CHR 0x60"

text \<open>The inner loop: the text after the closing quote.\<close>

fun skip_quoted :: "char \<Rightarrow> string \<Rightarrow> (sql_error, string) result" where
  "skip_quoted quote [] = Inl UnclosedQuote"
| "skip_quoted quote [c] =
    (if quote \<noteq> backtick \<and> c = backslash then Inl InvalidEscape
     else if c = quote then Inr [] else Inl UnclosedQuote)"
| "skip_quoted quote (c # d # s) =
    (if quote \<noteq> backtick \<and> c = backslash then skip_quoted quote s
     else if c = quote then Inr (d # s) else skip_quoted quote (d # s))"

lemma skip_quoted_length: "skip_quoted quote s = Inr t \<Longrightarrow> length t < length s"
  by (induction quote s rule: skip_quoted.induct) (auto split: if_splits)

text \<open>The outer loop: the text the builder holds at the end.\<close>

function scan :: "string \<Rightarrow> (sql_error, string) result" where
  "scan [] = Inr []"
| "scan (c # s) =
    (if is_quote c then
       (case skip_quoted c s of
          Inl e \<Rightarrow> Inl e
        | Inr t \<Rightarrow> (case scan t of Inl e \<Rightarrow> Inl e | Inr u \<Rightarrow> Inr (CHR '' '' # CHR '' '' # u)))
     else if c = CHR ''-'' \<and> prefix ''-'' s then Inl CommentsNotAllowed
     else if c = CHR ''#'' then Inl CommentsNotAllowed
     else if c = CHR ''/'' \<and> (prefix ''*'' s \<or> prefix ''!'' s) then Inl CommentsNotAllowed
     else if c = CHR '';'' then Inl MultipleStatements
     else if c = backslash then Inl EscapeOutsideString
     else (case scan s of Inl e \<Rightarrow> Inl e | Inr u \<Rightarrow> Inr (c # u)))"
  by pat_completeness auto
termination
  by (relation "measure length") (auto dest: skip_quoted_length)

definition normalizeForValidation :: "string \<Rightarrow> (sql_error, string) result" where
  "normalizeForValidation s = (case scan s of Inl e \<Rightarrow> Inl e | Inr u \<Rightarrow> Inr (squash u))"

section \<open>The checks\<close>

text \<open>The punctuation of the \<open>ContainsRune\<close> case.\<close>

definition allowed_punctuation :: "string" where
  "allowed_punctuation = ''_.,'' @ [CHR 0x27, CHR 0x22, CHR 0x60] @ ''()-=<>+*/%|&^~[]?:@''"

definition allowed_rune :: "unicode \<Rightarrow> rune \<Rightarrow> bool" where
  "allowed_rune U r \<longleftrightarrow> is_letter U r \<or> is_digit U r \<or> r = 0x20 \<or> r = 9 \<or> r = 10 \<or> r = 13
     \<or> r \<in> set (map byte_val allowed_punctuation)"

definition rejectDisallowedCharacters :: "unicode \<Rightarrow> string \<Rightarrow> (sql_error, unit) result" where
  "rejectDisallowedCharacters U s =
    (case find (\<lambda>r. \<not> allowed_rune U r) (runes s) of
       None \<Rightarrow> ok
     | Some r \<Rightarrow> Inl (DisallowedCharacter r))"

definition hasAllowedPrefix :: "string \<Rightarrow> bool" where
  "hasAllowedPrefix s = list_ex (\<lambda>p. s = p \<or> has_prefix s (p @ '' '')) allowedPrefixes"

definition ValidateReadOnlySQL :: "unicode \<Rightarrow> string \<Rightarrow> (sql_error, unit) result" where
  "ValidateReadOnlySQL U statement0 =
    (let statement = trim_space statement0 in
     guard_err (statement = []) EmptyStatement (
     guard_err (maxSQLLength < length statement) StatementTooLong (
     guard_err (contains statement [CHR 0x00]) NullByte (
     let trimmed = trim_suffix statement '';'' in
     guard_err (contains trimmed '';'') MultipleStatements (
     bind_err id (normalizeForValidation trimmed) (\<lambda>normalized.
     bind_err id (rejectDisallowedCharacters U normalized) (\<lambda>_.
     let upper = to_upper U (trim_space normalized) in
     guard_err (\<not> hasAllowedPrefix upper) PrefixNotAllowed (
     guard_err (match_string forbiddenSQL normalized) ForbiddenKeyword (
     guard_err (match_string suspiciousSQL normalized) SuspiciousExpression (
     guard_err ((has_prefix upper ''SELECT'' \<or> has_prefix upper ''WITH'')
                \<and> \<not> match_string limitClause normalized) LimitRequired
     ok))))))))))"

section \<open>What the scanner accepts\<close>

text \<open>
  A statement as the policy reads it: bytes outside quotes and quoted values. The quoted
  value keeps its body as written (escapes included).
\<close>

datatype seg = Plain char | Quoted char string

fun render :: "seg \<Rightarrow> string" where
  "render (Plain c) = [c]"
| "render (Quoted q b) = q # b @ [q]"

fun blank :: "seg \<Rightarrow> string" where
  "blank (Plain c) = [c]"
| "blank (Quoted q b) = ''  ''"

definition render_all :: "seg list \<Rightarrow> string" where
  "render_all segs = concat (map render segs)"

definition blank_all :: "seg list \<Rightarrow> string" where
  "blank_all segs = concat (map blank segs)"

fun body_ok :: "char \<Rightarrow> string \<Rightarrow> bool" where
  "body_ok q [] = True"
| "body_ok q [c] = (\<not> (q \<noteq> backtick \<and> c = backslash) \<and> c \<noteq> q)"
| "body_ok q (c # d # s) =
    (if q \<noteq> backtick \<and> c = backslash then body_ok q s else c \<noteq> q \<and> body_ok q (d # s))"

text \<open>No comment opens at a byte outside quotes.\<close>

definition opens_comment :: "char \<Rightarrow> string \<Rightarrow> bool" where
  "opens_comment c s \<longleftrightarrow> (c = CHR ''-'' \<and> prefix ''-'' s) \<or> c = CHR ''#''
    \<or> (c = CHR ''/'' \<and> (prefix ''*'' s \<or> prefix ''!'' s))"

fun segs_ok :: "seg list \<Rightarrow> bool" where
  "segs_ok [] = True"
| "segs_ok (Plain c # r) = (\<not> is_quote c \<and> \<not> opens_comment c (render_all r)
     \<and> c \<noteq> CHR '';'' \<and> c \<noteq> backslash \<and> segs_ok r)"
| "segs_ok (Quoted q b # r) = (is_quote q \<and> body_ok q b \<and> segs_ok r)"

lemma render_all_simps [simp]: "render_all [] = []" "render_all (g # r) = render g @ render_all r"
  "blank_all [] = []" "blank_all (g # r) = blank g @ blank_all r"
  by (simp_all add: render_all_def blank_all_def)

lemma skip_quoted_sound:
  "skip_quoted q s = Inr t \<Longrightarrow> \<exists>b. s = b @ q # t \<and> body_ok q b"
proof (induction q s rule: skip_quoted.induct)
  case (2 q c)
  then show ?case by (intro exI[of _ "[]"]) (auto split: if_splits)
next
  case (3 q c d s)
  show ?case
  proof (cases "q \<noteq> backtick \<and> c = backslash")
    case True
    then obtain b where "s = b @ q # t" "body_ok q b" using 3 by auto
    with True show ?thesis by (intro exI[of _ "c # d # b"]) simp
  next
    case False
    show ?thesis
    proof (cases "c = q")
      case True
      with False 3 show ?thesis by (intro exI[of _ "[]"]) auto
    next
      case c: False
      then obtain b where b: "d # s = b @ q # t" "body_ok q b" using 3 False by auto
      then show ?thesis
        using False c by (intro exI[of _ "c # b"]) (cases b; auto)
    qed
  qed
qed simp

lemma skip_quoted_complete: "body_ok q b \<Longrightarrow> q \<noteq> backslash \<Longrightarrow> skip_quoted q (b @ q # t) = Inr t"
  by (induction q b rule: body_ok.induct) (cases t; auto)+

lemma quote_not_backslash: "is_quote q \<Longrightarrow> q \<noteq> backslash"
  by (auto simp: is_quote_def backslash_def)

lemma scan_sound: "scan s = Inr u \<Longrightarrow> \<exists>segs. segs_ok segs \<and> render_all segs = s \<and> u = blank_all segs"
proof (induction s arbitrary: u rule: scan.induct)
  case 1
  then show ?case by (intro exI[of _ "[]"]) simp
next
  case (2 c s)
  show ?case
  proof (cases "is_quote c")
    case True
    then obtain t v where t: "skip_quoted c s = Inr t" "scan t = Inr v" "u = CHR '' '' # CHR '' '' # v"
      using 2(3) by (auto split: sum.splits)
    obtain b where b: "s = b @ c # t" "body_ok c b" using skip_quoted_sound[OF t(1)] by blast
    obtain segs where "segs_ok segs" "render_all segs = t" "v = blank_all segs"
      using 2(1)[OF True t(1) t(2)] by blast
    with True b t(3) show ?thesis by (intro exI[of _ "Quoted c b # segs"]) simp
  next
    case False
    then have c: "\<not> opens_comment c s" "c \<noteq> CHR '';''" "c \<noteq> backslash"
      using 2(3) by (auto simp: opens_comment_def split: if_splits)
    then obtain v where v: "scan s = Inr v" "u = c # v"
      using 2(3) False by (auto simp: opens_comment_def split: if_splits sum.splits)
    obtain segs where "segs_ok segs" "render_all segs = s" "v = blank_all segs"
      using 2(2)[OF False _ _ _ c(2,3) v(1)] c(1) by (auto simp: opens_comment_def)
    with False c v(2) show ?thesis by (intro exI[of _ "Plain c # segs"]) simp
  qed
qed

lemma scan_complete: "segs_ok segs \<Longrightarrow> scan (render_all segs) = Inr (blank_all segs)"
proof (induction segs rule: segs_ok.induct)
  case (2 c r)
  then show ?case by (auto simp: opens_comment_def)
next
  case (3 q b r)
  then show ?case by (simp add: skip_quoted_complete quote_not_backslash)
qed simp

lemma scan_iff:
  "scan s = Inr u \<longleftrightarrow> (\<exists>segs. segs_ok segs \<and> render_all segs = s \<and> u = blank_all segs)"
  using scan_sound scan_complete by blast

lemma normalize_iff:
  "normalizeForValidation s = Inr n \<longleftrightarrow>
    (\<exists>segs. segs_ok segs \<and> render_all segs = s \<and> n = squash (blank_all segs))"
  unfolding normalizeForValidation_def
  by (cases "scan s") (auto dest: scan_sound simp: scan_complete)

section \<open>The decision, decomposed\<close>

definition core :: "string \<Rightarrow> string" where
  "core s = trim_suffix (trim_space s) '';''"

text \<open>The checks on the raw text, and those on the normalised text.\<close>

definition raw_ok :: "string \<Rightarrow> bool" where
  "raw_ok s \<longleftrightarrow> trim_space s \<noteq> [] \<and> length (trim_space s) \<le> maxSQLLength
    \<and> CHR 0x00 \<notin> set (trim_space s) \<and> CHR '';'' \<notin> set (core s)"

definition upper_of :: "unicode \<Rightarrow> string \<Rightarrow> string" where
  "upper_of U n = to_upper U (trim_space n)"

definition policy :: "unicode \<Rightarrow> string \<Rightarrow> bool" where
  "policy U n \<longleftrightarrow> rejectDisallowedCharacters U n = ok \<and> hasAllowedPrefix (upper_of U n)
    \<and> \<not> match_string forbiddenSQL n \<and> \<not> match_string suspiciousSQL n
    \<and> (has_prefix (upper_of U n) ''SELECT'' \<or> has_prefix (upper_of U n) ''WITH'' \<longrightarrow>
       match_string limitClause n)"

lemma validate_ok_iff:
  "ValidateReadOnlySQL U s = ok \<longleftrightarrow>
    raw_ok s \<and> (\<exists>n. normalizeForValidation (core s) = Inr n \<and> policy U n)"
  by (auto simp: ValidateReadOnlySQL_def Let_def raw_ok_def core_def policy_def upper_of_def
      contains_char_iff not_less)

lemma validate_ok_segs:
  "ValidateReadOnlySQL U s = ok \<longleftrightarrow>
    raw_ok s \<and> (\<exists>segs. segs_ok segs \<and> render_all segs = core s \<and> policy U (squash (blank_all segs)))"
  unfolding validate_ok_iff normalize_iff by blast

lemma validate_trim: "ValidateReadOnlySQL U (trim_space s) = ValidateReadOnlySQL U s"
  by (simp add: ValidateReadOnlySQL_def)

section \<open>Keywords\<close>

definition edge_before :: "string \<Rightarrow> bool" where
  "edge_before a \<longleftrightarrow> a = [] \<or> \<not> word_byte (last a)"

definition edge_after :: "string \<Rightarrow> bool" where
  "edge_after b \<longleftrightarrow> b = [] \<or> \<not> word_byte (hd b)"

text \<open>\<open>w\<close> stands in \<open>n\<close> as a word of its own.\<close>

definition word_in :: "string \<Rightarrow> string \<Rightarrow> bool" where
  "word_in w n \<longleftrightarrow> (\<exists>a b. n = a @ w @ b \<and> edge_before a \<and> edge_after b)"

lemma byte_chr_less: "0 \<le> b \<Longrightarrow> b < 256 \<Longrightarrow> byte_val (byte_chr b) = b"
  by (rule byte_val_chr)

lemma word_byte_lower: "word_byte (lower_byte c) = word_byte c"
  using byte_val_range[of c]
  by (auto simp: word_byte_def lower_byte_def Let_def byte_val_chr)

lemma forbiddenWords_word_bytes: "\<forall>k \<in> set forbiddenWords. k \<noteq> [] \<and> (\<forall>c \<in> set k. word_byte c)"
  by code_simp

lemma word_like_kw:
  assumes "k \<in> set forbiddenWords" "map lower_byte w = map lower_byte k"
  shows "w \<noteq> []" "word_byte (hd w)" "word_byte (last w)"
proof -
  have k: "k \<noteq> []" "\<forall>c \<in> set k. word_byte c" using forbiddenWords_word_bytes assms(1) by auto
  show ne: "w \<noteq> []" using assms(2) k(1) by auto
  have "word_byte c" if "c \<in> set w" for c
  proof -
    have "lower_byte c \<in> set (map lower_byte k)" using that assms(2) by (metis image_eqI set_map)
    then obtain d where "d \<in> set k" "lower_byte c = lower_byte d" by auto
    then show ?thesis using k(2) word_byte_lower by metis
  qed
  then show "word_byte (hd w)" "word_byte (last w)" using ne by simp_all
qed

lemma boundary_before:
  "edge_before a \<Longrightarrow> w \<noteq> [] \<Longrightarrow> word_byte (hd w) \<Longrightarrow> word_boundary (prev_after None a) (w @ t)"
  by (cases w) (auto simp: edge_before_def word_boundary_def prev_after_def)

lemma boundary_after:
  "edge_after b \<Longrightarrow> w \<noteq> [] \<Longrightarrow> word_byte (last w) \<Longrightarrow> word_boundary (prev_after q w) b"
  by (cases b) (auto simp: edge_after_def word_boundary_def prev_after_def)

text \<open>A forbidden word standing alone, in any case, is a match of the pattern.\<close>

lemma forbidden_word_match:
  assumes "k \<in> set forbiddenWords" "map lower_byte w = map lower_byte k" "word_in w n"
  shows "match_string forbiddenSQL n"
proof -
  obtain a b where n: "n = a @ w @ b" "edge_before a" "edge_after b"
    using assms(3) by (auto simp: word_in_def)
  note w = word_like_kw[OF assms(1,2)]
  have "takes (alts (map ci_lit forbiddenWords @ forbiddenPhrases)) q w t" for q t
    using assms(1) set_bytes_lower[OF assms(2)] by (auto simp: takes_alts)
  then have "takes forbiddenSQL (prev_after None a) w b"
    using boundary_before[OF n(2) w(1,2), of b] boundary_after[OF n(3) w(1,3), of "prev_after None a"]
    by (simp add: forbiddenSQL_def takes_Cat_assertion takes_end_assertion takes_Grp)
  then show ?thesis using n(1) by (auto simp: match_string_iff)
qed

section \<open>The limit\<close>

text \<open>\<open>LIMIT\<close>, white space and digits, at a word boundary.\<close>

definition limit_at :: "string \<Rightarrow> string \<Rightarrow> string \<Rightarrow> string \<Rightarrow> bool" where
  "limit_at a kw sp ds \<longleftrightarrow> map lower_byte kw = ''limit''
    \<and> sp \<noteq> [] \<and> (\<forall>c \<in> set sp. space_cls c) \<and> ds \<noteq> [] \<and> (\<forall>c \<in> set ds. digit_cls c)
    \<and> word_boundary (prev_after None a) kw"

lemma takes_ci_plain:
  "lower_byte c \<noteq> CHR ''s'' \<Longrightarrow> lower_byte c \<noteq> CHR ''k'' \<Longrightarrow>
    takes (Cat (ci_chr c) r) q w t \<longleftrightarrow>
    (\<exists>d v. w = d # v \<and> lower_byte d = lower_byte c \<and> takes r (Some d) v t)"
  by (simp add: ci_chr_def takes_Cat_Cls)

lemma lower_LIMIT: "lower_byte CHR ''L'' = CHR ''l''" "lower_byte CHR ''I'' = CHR ''i''"
  "lower_byte CHR ''M'' = CHR ''m''" "lower_byte CHR ''T'' = CHR ''t''"
  by code_simp+

lemma takes_ci_LIMIT: "takes (ci_lit ''LIMIT'') q w t \<longleftrightarrow> map lower_byte w = ''limit''"
  by (auto simp: takes_ci_plain lower_LIMIT takes_Eps map_eq_Cons_conv)

lemma limitClause_iff:
  "match_string limitClause n \<longleftrightarrow> (\<exists>a kw sp ds b. n = a @ kw @ sp @ ds @ b \<and> limit_at a kw sp ds)"
proof
  assume "match_string limitClause n"
  then obtain a w b where n: "n = a @ w @ b" "takes limitClause (prev_after None a) w b"
    by (auto simp: match_string_iff)
  then obtain kw v where kw: "w = kw @ v" "map lower_byte kw = ''limit''"
      "word_boundary (prev_after None a) (kw @ v @ b)"
      "takes (Cat spaces1 (Plus (Cls digit_cls))) (prev_after (prev_after None a) kw) v b"
    unfolding limitClause_def seqs.simps takes_Cat_assertion[of WordB, simplified]
      takes_Cat[of "ci_lit _"] takes_ci_LIMIT holds_at.simps append_assoc
    by (elim conjE exE) (rule that, assumption+, simp)
  obtain sp ds where "v = sp @ ds" "sp \<noteq> []" "\<forall>c \<in> set sp. space_cls c" "ds \<noteq> []"
      "\<forall>c \<in> set ds. digit_cls c"
    using kw(4) by (auto simp: takes_Cat takes_plus_cls)
  moreover have "word_boundary (prev_after None a) kw"
    using kw(2,3) by (cases kw) (auto simp: word_boundary_def)
  ultimately show "\<exists>a kw sp ds b. n = a @ kw @ sp @ ds @ b \<and> limit_at a kw sp ds"
    using n kw(1,2) by (intro exI[of _ a] exI[of _ kw] exI[of _ sp] exI[of _ ds] exI[of _ b])
      (simp add: limit_at_def)
next
  assume "\<exists>a kw sp ds b. n = a @ kw @ sp @ ds @ b \<and> limit_at a kw sp ds"
  then obtain a kw sp ds b where n: "n = a @ kw @ sp @ ds @ b" "limit_at a kw sp ds" by blast
  then have "word_boundary (prev_after None a) (kw @ sp @ ds @ b)"
    by (cases kw) (auto simp: limit_at_def word_boundary_def)
  moreover have "takes (ci_lit ''LIMIT'') (prev_after None a) kw ((sp @ ds) @ b)"
    using n(2) unfolding takes_ci_LIMIT limit_at_def by blast
  moreover have "takes (Cat spaces1 (Plus (Cls digit_cls))) (prev_after (prev_after None a) kw) (sp @ ds) b"
    using n(2) unfolding takes_Cat takes_plus_cls limit_at_def by blast
  ultimately have "takes limitClause (prev_after None a) (kw @ sp @ ds) b"
    unfolding limitClause_def seqs.simps takes_Cat_assertion[of WordB, simplified] holds_at.simps
      takes_Cat[of "ci_lit _"]
    by (intro conjI exI[of _ kw] exI[of _ "sp @ ds"]) (simp_all only: append_assoc)
  then show "match_string limitClause n"
    unfolding match_string_iff n(1)
    by (intro exI[of _ a] exI[of _ "kw @ sp @ ds"] exI[of _ b]) simp
qed

section \<open>Dangerous calls\<close>

definition suspiciousCalls :: "string list" where
  "suspiciousCalls = [''unhex'', ''extractvalue'', ''updatexml'', ''sleep'', ''benchmark'']"

lemma takes_call:
  assumes "map lower_byte w = map lower_byte name" "\<forall>c \<in> set sp. space_cls c"
  shows "takes (call_re name) q (w @ sp @ ''('') t"
proof -
  have "takes (ci_lit name) q w ((sp @ ''('') @ t)" using assms(1) by (rule set_bytes_lower)
  moreover have "takes (Cat spaces (lit ''('')) (prev_after q w) (sp @ ''('') t"
    unfolding takes_Cat takes_star_cls takes_lit using assms(2) by blast
  ultimately show ?thesis unfolding call_re_def seqs.simps takes_Cat[of "ci_lit name"] by blast
qed

lemma suspicious_call_match:
  assumes "name \<in> set suspiciousCalls" "map lower_byte w = map lower_byte name"
    "\<forall>c \<in> set sp. space_cls c" "n = a @ w @ sp @ ''('' @ b"
  shows "match_string suspiciousSQL n"
proof -
  have "takes suspiciousSQL (prev_after None a) (w @ sp @ ''('') b"
    using assms(1) takes_call[OF assms(2,3)]
    by (auto simp: suspiciousSQL_def takes_Grp takes_Alt suspiciousCalls_def)
  then show ?thesis
    unfolding match_string_iff assms(4)
    by (intro exI[of _ a] exI[of _ "w @ sp @ ''(''"] exI[of _ b]) simp
qed

lemma accepted_normal:
  assumes "ValidateReadOnlySQL U s = ok" "segs_ok segs" "render_all segs = core s"
  shows "policy U (squash (blank_all segs))"
proof -
  have "normalizeForValidation (core s) = Inr (squash (blank_all segs))"
    using assms(2,3) unfolding normalize_iff by metis
  with assms(1) show ?thesis unfolding validate_ok_iff by auto
qed

section \<open>Properties\<close>

text \<open>C5: The scanner of the validator accepts exactly the statements that read as a sequence of
  plain bytes and well-formed quoted values with no comment, semicolon or backslash outside the
  quotes, and returns that text with every quoted value blanked and white space squeezed.\<close>

theorem sql_scanner_spec:
  "normalizeForValidation s = Inr n \<longleftrightarrow>
    (\<exists>segs. segs_ok segs \<and> render_all segs = s \<and> n = squash (blank_all segs))"
  by (rule normalize_iff)

text \<open>C6: In an accepted statement no word of the forbidden list, in whatever case, stands as a
  word of its own outside the quoted values.\<close>

theorem sql_accepted_no_forbidden_word:
  assumes "ValidateReadOnlySQL U s = ok" "segs_ok segs" "render_all segs = core s"
    and "k \<in> set forbiddenWords" "map lower_byte w = map lower_byte k"
  shows "\<not> word_in w (squash (blank_all segs))"
  using accepted_normal[OF assms(1-3)] forbidden_word_match[OF assms(4,5)]
  by (auto simp: policy_def)

theorem sql_accepted_no_forbidden_word_witness:
  "\<not> word_in ''delete'' (squash (blank_all (map Plain ''SELECT '' @ [Quoted CHR 0x27 ''delete'']
      @ map Plain '' LIMIT 1'')))"
proof (rule sql_accepted_no_forbidden_word[where U = sample_unicode and k = "''DELETE''"])
  show "ValidateReadOnlySQL sample_unicode
      (''SELECT '' @ [CHR 0x27] @ ''delete'' @ [CHR 0x27] @ '' LIMIT 1'') = ok"
    by code_simp
qed code_simp+

text \<open>C27: An accepted statement that starts with SELECT or WITH has, outside its quoted values, the
  word LIMIT followed by white space and digits.\<close>

theorem sql_accepted_limit:
  assumes "ValidateReadOnlySQL U s = ok" "segs_ok segs" "render_all segs = core s"
    and "has_prefix (upper_of U (squash (blank_all segs))) kw" "kw = ''SELECT'' \<or> kw = ''WITH''"
  shows "\<exists>a lim sp ds b. squash (blank_all segs) = a @ lim @ sp @ ds @ b \<and> limit_at a lim sp ds"
  using accepted_normal[OF assms(1-3)] assms(4,5) limitClause_iff
  by (auto simp: policy_def)

theorem sql_accepted_limit_witness:
  "\<exists>a lim sp ds b. squash (blank_all (map Plain ''SELECT uid FROM t LIMIT 5'')) = a @ lim @ sp @ ds @ b
    \<and> limit_at a lim sp ds"
proof (rule sql_accepted_limit[where U = sample_unicode and kw = "''SELECT''"])
  show "ValidateReadOnlySQL sample_unicode ''SELECT uid FROM t LIMIT 5;'' = ok" by code_simp
qed (code_simp | simp)+

text \<open>C26: The verdict never depends on what the quoted values hold: two statements that pass the
  checks on the raw text (length, NUL, semicolon) and differ only inside quotes get the same
  answer, error included.\<close>

theorem sql_verdict_ignores_literals:
  assumes "raw_ok s" "raw_ok s'" "segs_ok segs" "segs_ok segs'"
    and "render_all segs = core s" "render_all segs' = core s'" "map blank segs = map blank segs'"
  shows "ValidateReadOnlySQL U s = ValidateReadOnlySQL U s'"
proof -
  have "normalizeForValidation (core s) = Inr (squash (blank_all segs))"
    "normalizeForValidation (core s') = Inr (squash (blank_all segs))"
    using assms(3-7) by (auto simp: normalize_iff blank_all_def)
  then show ?thesis
    using assms(1,2)
    by (simp add: ValidateReadOnlySQL_def raw_ok_def core_def Let_def contains_char_iff)
qed

theorem sql_verdict_ignores_literals_witness:
  "ValidateReadOnlySQL sample_unicode (''SELECT '' @ [CHR 0x27] @ ''drop'' @ [CHR 0x27] @ '' LIMIT 1'')
   = ValidateReadOnlySQL sample_unicode (''SELECT '' @ [CHR 0x27] @ ''x'' @ [CHR 0x27] @ '' LIMIT 1'')"
  by (rule sql_verdict_ignores_literals[where
        segs = "map Plain ''SELECT '' @ [Quoted CHR 0x27 ''drop''] @ map Plain '' LIMIT 1''" and
        segs' = "map Plain ''SELECT '' @ [Quoted CHR 0x27 ''x''] @ map Plain '' LIMIT 1''"])
    code_simp+

text \<open>A call of sleep, benchmark, unhex, extractvalue or updatexml outside quotes, in any case
  and with any white space before the bracket, is refused.\<close>

theorem sql_rejects_dangerous_call:
  assumes "name \<in> set suspiciousCalls" "map lower_byte w = map lower_byte name"
    "\<forall>c \<in> set sp. space_cls c" "normalizeForValidation (core s) = Inr (a @ w @ sp @ ''('' @ b)"
  shows "\<not> is_ok (ValidateReadOnlySQL U s)"
proof -
  have "match_string suspiciousSQL (a @ w @ sp @ ''('' @ b)"
    using suspicious_call_match[OF assms(1-3)] by simp
  then show ?thesis using assms(4) by (auto simp: validate_ok_iff policy_def)
qed

theorem sql_rejects_dangerous_call_witness:
  "\<not> is_ok (ValidateReadOnlySQL sample_unicode ''SELECT Sleep ( 10) LIMIT 1'')"
  by (rule sql_rejects_dangerous_call[where name = "''sleep''" and w = "''Sleep''"
        and sp = "'' ''" and a = "''SELECT ''" and b = "'' 10) LIMIT 1''"]) code_simp+

text \<open>The word boundary that closes the forbidden pattern also follows the bracket of
  \<open>GET_LOCK(\<close>: a named lock, whose argument is a quoted string and so blanked, is accepted
  although the pattern lists it, while a call with an unquoted argument is refused.\<close>

theorem sql_get_lock_accepted:
  "ValidateReadOnlySQL sample_unicode
     (''SELECT GET_LOCK('' @ [CHR 0x27] @ ''a'' @ [CHR 0x27] @ '', 10) LIMIT 1'') = ok \<and>
   ValidateReadOnlySQL sample_unicode ''SELECT GET_LOCK(a, 10) LIMIT 1'' = Inl ForbiddenKeyword"
proof
  show "ValidateReadOnlySQL sample_unicode
     (''SELECT GET_LOCK('' @ [CHR 0x27] @ ''a'' @ [CHR 0x27] @ '', 10) LIMIT 1'') = ok"
    by code_simp
  show "ValidateReadOnlySQL sample_unicode ''SELECT GET_LOCK(a, 10) LIMIT 1'' = Inl ForbiddenKeyword"
    by code_simp
qed

end
