(* ===== verification/MySQLClient.thy ===== *)
theory MySQLClient
  imports SqlValidator
begin

text \<open>
  \<open>internal/testdb/types.go\<close> and \<open>internal/testdb/mysql_client.go\<close>: opening the two direct pools,
  the database scope check and the read-only query. The MySQL driver and \<open>database/sql\<close> are
  the parameters \<open>driver\<close> and \<open>dialer\<close>; what the code asks of them is recorded as a list of
  operations, in the order in which the code (its deferred calls included) performs them.
\<close>

section \<open>Types\<close>

definition EngineXianshiSQL :: int where "EngineXianshiSQL = 1"
definition EngineRedis :: int where "EngineRedis = 2"
definition EngineConfigSQL :: int where "EngineConfigSQL = 3"

record QueryInput =
  Statement :: string
  Engine :: int

record QueryOutput =
  OutEngine :: int
  ResultJSON :: string
  RowCount :: int
  ElapsedMS :: int

definition defaultMaxRows :: int where "defaultMaxRows = 500"
definition defaultMaxResultBody :: int where "defaultMaxResultBody = 2097152"

text \<open>Durations are nanoseconds, as \<open>time.Duration\<close>.\<close>

definition second :: int where "second = 1000000000"

record MySQLConfig =
  Host :: string
  Port :: int
  User :: string
  Password :: string
  XianshiDatabase :: string
  ConfigDatabase :: string
  ConnectTimeout :: int
  QueryTimeout :: int
  MaxRows :: int
  MaxResultBody :: int

record 'db MySQLClient =
  xianshi_db :: 'db
  config_db :: 'db
  queryTimeout :: int
  maxRows :: int
  maxBody :: int

section \<open>Configuration\<close>

datatype config_error =
    HostInvalid | PortInvalid | CredentialsRequired | DatabaseNameInvalid string | LimitsNegative

definition safeDatabaseName :: re where
  "safeDatabaseName = whole (Plus (Cls (\<lambda>c. alnum_cls c \<or> c = CHR ''_'')))"

text \<open>
  The loop over the two database names ranges over a Go map: when both names are invalid the
  code reports one of them, the model the first.
\<close>

definition validateMySQLConfig :: "MySQLConfig \<Rightarrow> (config_error, unit) result" where
  "validateMySQLConfig config =
    guard_err (trim_space (Host config) = []
      \<or> contains_any (Host config) [CHR 0x00, CHR 0x0D, CHR 0x0A, CHR 0x2F, CHR 0x5C]) HostInvalid (
    guard_err (Port config < 1 \<or> 65535 < Port config) PortInvalid (
    guard_err (User config = [] \<or> Password config = []) CredentialsRequired (
    guard_err (\<not> match_string safeDatabaseName (XianshiDatabase config)) (DatabaseNameInvalid ''xianshi'') (
    guard_err (\<not> match_string safeDatabaseName (ConfigDatabase config)) (DatabaseNameInvalid ''config'') (
    guard_err (ConnectTimeout config < 0 \<or> QueryTimeout config < 0 \<or> MaxRows config < 0
      \<or> MaxResultBody config < 0) LimitsNegative
    ok)))))"

definition with_defaults :: "MySQLConfig \<Rightarrow> MySQLConfig" where
  "with_defaults c = c\<lparr>
     ConnectTimeout := (if ConnectTimeout c = 0 then 5 * second else ConnectTimeout c),
     QueryTimeout := (if QueryTimeout c = 0 then 10 * second else QueryTimeout c),
     MaxRows := (if MaxRows c = 0 then defaultMaxRows else MaxRows c),
     MaxResultBody := (if MaxResultBody c = 0 then defaultMaxResultBody else MaxResultBody c)\<rparr>"

section \<open>Opening the pools\<close>

text \<open>What the code sets on \<open>mysql.Config\<close> for one database.\<close>

record driver_config =
  dc_user :: string
  dc_passwd :: string
  dc_net :: string
  dc_addr :: string
  dc_dbname :: string
  dc_parse_time :: bool
  dc_timeout :: int
  dc_read_timeout :: int
  dc_write_timeout :: int
  dc_charset :: string

text \<open>\<open>net.JoinHostPort\<close>: brackets around a host with a colon or a percent sign.\<close>

definition join_host_port :: "string \<Rightarrow> string \<Rightarrow> string" where
  "join_host_port host port =
    (if contains_any host '':%'' then ''['' @ host @ '']:'' @ port else host @ '':'' @ port)"

definition driver_config_for :: "MySQLConfig \<Rightarrow> string \<Rightarrow> driver_config" where
  "driver_config_for config database = \<lparr>
     dc_user = User config, dc_passwd = Password config, dc_net = ''tcp'',
     dc_addr = join_host_port (Host config) (itoa (Port config)), dc_dbname = database,
     dc_parse_time = True, dc_timeout = ConnectTimeout config,
     dc_read_timeout = QueryTimeout config, dc_write_timeout = ConnectTimeout config,
     dc_charset = ''utf8mb4''\<rparr>"

text \<open>\<open>sql.Open\<close> and \<open>PingContext\<close>.\<close>

record 'db dialer =
  sql_open :: "driver_config \<Rightarrow> (string, 'db) result"
  ping :: "'db \<Rightarrow> string option"

datatype 'db pool_op = OpenPool 'db | LimitPool 'db int int int | ClosePool 'db

type_synonym ('db, 'a) opened = "(string, 'a) result \<times> 'db pool_op list"

text \<open>The local function \<open>open\<close>.\<close>

definition open_pool :: "'db dialer \<Rightarrow> MySQLConfig \<Rightarrow> string \<Rightarrow> ('db, 'db) opened" where
  "open_pool d config database =
    (case sql_open d (driver_config_for config database) of
       Inl e \<Rightarrow> (Inl e, [])
     | Inr db \<Rightarrow> (case ping d db of
         Some e \<Rightarrow> (Inl e, [OpenPool db, LimitPool db 4 2 (300 * second), ClosePool db])
       | None \<Rightarrow> (Inr db, [OpenPool db, LimitPool db 4 2 (300 * second)])))"

datatype open_error = BadConfig config_error | ConnectXianshi string | ConnectConfig string

definition newMySQLClient :: "'db \<Rightarrow> 'db \<Rightarrow> int \<Rightarrow> int \<Rightarrow> int \<Rightarrow> 'db MySQLClient" where
  "newMySQLClient x c timeout rows body =
    \<lparr>xianshi_db = x, config_db = c, queryTimeout = timeout, maxRows = rows, maxBody = body\<rparr>"

definition OpenMySQLClient ::
  "'db dialer \<Rightarrow> MySQLConfig \<Rightarrow> (open_error, 'db MySQLClient) result \<times> 'db pool_op list" where
  "OpenMySQLClient d config0 =
    (case validateMySQLConfig config0 of
       Inl e \<Rightarrow> (Inl (BadConfig e), [])
     | Inr _ \<Rightarrow>
       (let config = with_defaults config0 in
        case open_pool d config (XianshiDatabase config) of
          (Inl e, ops) \<Rightarrow> (Inl (ConnectXianshi e), ops)
        | (Inr x, ops) \<Rightarrow>
          (case open_pool d config (ConfigDatabase config) of
             (Inl e, ops') \<Rightarrow> (Inl (ConnectConfig e), ops @ ops' @ [ClosePool x])
           | (Inr c, ops') \<Rightarrow>
             (Inr (newMySQLClient x c (QueryTimeout config) (MaxRows config) (MaxResultBody config)),
              ops @ ops'))))"

definition Close_MySQLClient :: "'db MySQLClient \<Rightarrow> 'db pool_op list" where
  "Close_MySQLClient c = [ClosePool (xianshi_db c), ClosePool (config_db c)]"

section \<open>The database scope of a statement\<close>

datatype scope_error = DoubleQuotedSQL | LiteralUnclosed | QualifiedName | ShowNotTableScoped

text \<open>The inner loop of \<open>stripStringLiterals\<close>: the text after the literal, \<open>None\<close> if unclosed.\<close>

fun strip_literal :: "char \<Rightarrow> string \<Rightarrow> string option" where
  "strip_literal quote [] = None"
| "strip_literal quote [c] = (if c = backslash then None else if c = quote then Some [] else None)"
| "strip_literal quote (c # d # s) =
    (if c = backslash then strip_literal quote s
     else if c = quote then (if d = quote then strip_literal quote s else Some (d # s))
     else strip_literal quote (d # s))"

lemma strip_literal_length: "strip_literal quote s = Some t \<Longrightarrow> length t < length s"
  by (induction quote s rule: strip_literal.induct) (auto split: if_splits)

function stripStringLiterals :: "string \<Rightarrow> (scope_error, string) result" where
  "stripStringLiterals [] = Inr []"
| "stripStringLiterals (c # s) =
    (if c = CHR 0x27 \<or> c = CHR 0x22 then
       (case strip_literal c s of
          None \<Rightarrow> Inl LiteralUnclosed
        | Some t \<Rightarrow> (case stripStringLiterals t of
            Inl e \<Rightarrow> Inl e | Inr u \<Rightarrow> Inr (CHR '' '' # CHR '' '' # u)))
     else (case stripStringLiterals s of Inl e \<Rightarrow> Inl e | Inr u \<Rightarrow> Inr (c # u)))"
  by pat_completeness auto
termination
  by (relation "measure length") (auto dest: strip_literal_length)

text \<open>An identifier: in backticks, or a bare word under \<open>(?i)\<close>.\<close>

definition fold_extra :: re where
  "fold_extra = Alt (lit long_s) (lit kelvin)"

definition bare_identifier :: re where
  "bare_identifier = Cat (Alt (Cls (\<lambda>c. alpha_cls c \<or> c = CHR ''_'')) fold_extra)
     (Star (Alt (Cls (\<lambda>c. alnum_cls c \<or> c = CHR ''_'' \<or> c = CHR ''$'')) fold_extra))"

definition sql_identifier :: re where
  "sql_identifier = Alt (seqs [lit [backtick], Plus (Cls (\<lambda>c. c \<noteq> backtick)), lit [backtick]]) bare_identifier"

definition qualifiedIdentifier :: re where
  "qualifiedIdentifier = seqs [sql_identifier, spaces, lit ''.'', spaces, sql_identifier]"

text \<open>The five SHOW forms.\<close>

definition rest_of_line :: re where
  "rest_of_line = Star (Cls (\<lambda>c. c \<noteq> newline))"

definition like_where :: "string list \<Rightarrow> re" where
  "like_where kws = Opt (seqs [spaces1, alts (map ci_lit kws), WordB, rest_of_line])"

definition table_name :: re where
  "table_name = seqs [Opt (lit [backtick]),
     Plus (Alt (Cls (\<lambda>c. alnum_cls c \<or> c = CHR ''_'' \<or> c = CHR ''$'')) fold_extra),
     Opt (lit [backtick])]"

definition opt_full :: re where
  "opt_full = Opt (seqs [ci_lit ''FULL'', spaces1])"

definition allowedDirectShow :: "re list" where
  "allowedDirectShow = map whole
    [seqs [ci_lit ''SHOW'', spaces1, opt_full, ci_lit ''TABLES'', like_where [''LIKE'', ''WHERE'']],
     seqs [ci_lit ''SHOW'', spaces1, opt_full, alts [ci_lit ''COLUMNS'', ci_lit ''FIELDS''], spaces1,
       ci_lit ''FROM'', spaces1, table_name, like_where [''LIKE'', ''WHERE'']],
     seqs [ci_lit ''SHOW'', spaces1, alts [ci_lit ''INDEX'', ci_lit ''INDEXES'', ci_lit ''KEYS''], spaces1,
       ci_lit ''FROM'', spaces1, table_name, like_where [''WHERE'']],
     seqs [ci_lit ''SHOW'', spaces1, ci_lit ''CREATE'', spaces1, ci_lit ''TABLE'', spaces1, table_name],
     seqs [ci_lit ''SHOW'', spaces1, ci_lit ''TABLE'', spaces1, ci_lit ''STATUS'',
       like_where [''LIKE'', ''WHERE'']]]"

definition validateDirectDatabaseScope :: "unicode \<Rightarrow> string \<Rightarrow> (scope_error, unit) result" where
  "validateDirectDatabaseScope U statement =
    guard_err (contains statement [CHR 0x22]) DoubleQuotedSQL (
    bind_err id (stripStringLiterals statement) (\<lambda>withoutLiterals.
    guard_err (match_string qualifiedIdentifier withoutLiterals) QualifiedName (
    let normalized = squash (trim_suffix withoutLiterals '';'') in
    if has_prefix (to_upper U normalized) ''SHOW '' then
      (if list_ex (\<lambda>r. match_string r normalized) allowedDirectShow then ok
       else Inl ShowNotTableScoped)
    else ok)))"

section \<open>The query\<close>

text \<open>A value a row scans into: the driver's byte slices become strings, others stay.\<close>

datatype 'v sqlval = VBytes string | VString string | VOther 'v

fun bytes_to_string :: "'v sqlval \<Rightarrow> 'v sqlval" where
  "bytes_to_string (VBytes raw) = VString raw"
| "bytes_to_string v = v"

text \<open>
  What \<open>database/sql\<close> answers: the columns, for each row the scanned values or the error of
  \<open>Scan\<close>, and \<open>rows.Err()\<close> after the last.
\<close>

record 'v rows =
  r_columns :: "(string, string list) result"
  r_rows :: "(string, 'v sqlval list) result list"
  r_err :: "string option"

record ('db, 'v) driver =
  begin_tx :: "'db \<Rightarrow> bool \<Rightarrow> int option \<Rightarrow> string option"
  query_context :: "'db \<Rightarrow> string \<Rightarrow> (string, 'v rows) result"
  marshal_result :: "string list \<Rightarrow> 'v sqlval list list \<Rightarrow> (string, string) result"
  elapsed_ms :: int

datatype 'db tx_op = BeginTx 'db bool "int option" | QueryContext string | CloseRows | Rollback

datatype query_error =
    ValidateDirect sql_error
  | ScopeRefused scope_error
  | EngineInvalid int
  | BeginFailed string
  | ExecuteFailed string
  | ColumnsFailed string
  | TooManyRows int
  | ScanFailed string
  | IterateFailed string
  | EncodeFailed string
  | ResultTooLarge int

definition database :: "'db MySQLClient \<Rightarrow> int \<Rightarrow> (query_error, 'db) result" where
  "database c engine =
    (if engine = EngineXianshiSQL then Inr (xianshi_db c)
     else if engine = EngineConfigSQL then Inr (config_db c)
     else Inl (EngineInvalid engine))"

text \<open>\<open>for rows.Next()\<close>: the rows read so far are the accumulator.\<close>

fun scan_rows :: "int \<Rightarrow> 'v sqlval list list \<Rightarrow> (string, 'v sqlval list) result list
    \<Rightarrow> (query_error, 'v sqlval list list) result" where
  "scan_rows limit acc [] = Inr acc"
| "scan_rows limit acc (r # rs) =
    (if limit \<le> int (length acc) then Inl (TooManyRows limit)
     else (case r of
         Inl e \<Rightarrow> Inl (ScanFailed e)
       | Inr values \<Rightarrow> scan_rows limit (acc @ [map bytes_to_string values]) rs))"

text \<open>From the open rows to the output.\<close>

definition read_rows ::
  "'db MySQLClient \<Rightarrow> ('db, 'v) driver \<Rightarrow> int \<Rightarrow> 'v rows \<Rightarrow> (query_error, QueryOutput) result" where
  "read_rows c d engine rows =
    bind_err ColumnsFailed (r_columns rows) (\<lambda>columns.
    bind_err id (scan_rows (maxRows c) [] (r_rows rows)) (\<lambda>result.
    (case r_err rows of
       Some e \<Rightarrow> Inl (IterateFailed e)
     | None \<Rightarrow>
       bind_err EncodeFailed (marshal_result d columns result) (\<lambda>encoded.
       guard_err (maxBody c < int (length encoded)) (ResultTooLarge (maxBody c)) (
       Inr \<lparr>OutEngine = engine, ResultJSON = encoded, RowCount = int (length result),
             ElapsedMS = elapsed_ms d\<rparr>)))))"

text \<open>The deadline of the context the transaction begins under, from now.\<close>

definition query_deadline :: "'db MySQLClient \<Rightarrow> int option" where
  "query_deadline c = (if 0 < queryTimeout c then Some (queryTimeout c) else None)"

text \<open>The deferred \<open>rows.Close\<close> runs before the deferred \<open>tx.Rollback\<close>.\<close>

definition MySQL_Query :: "unicode \<Rightarrow> 'db MySQLClient \<Rightarrow> ('db, 'v) driver \<Rightarrow> QueryInput
    \<Rightarrow> (query_error, QueryOutput) result \<times> 'db tx_op list" where
  "MySQL_Query U c d input =
    (case ValidateReadOnlySQL U (Statement input) of
       Inl e \<Rightarrow> (Inl (ValidateDirect e), [])
     | Inr _ \<Rightarrow>
    (case validateDirectDatabaseScope U (Statement input) of
       Inl e \<Rightarrow> (Inl (ScopeRefused e), [])
     | Inr _ \<Rightarrow>
    (case database c (Engine input) of
       Inl e \<Rightarrow> (Inl e, [])
     | Inr db \<Rightarrow>
    (case begin_tx d db True (query_deadline c) of
       Some e \<Rightarrow> (Inl (BeginFailed e), [BeginTx db True (query_deadline c)])
     | None \<Rightarrow>
    (case query_context d db (Statement input) of
       Inl e \<Rightarrow> (Inl (ExecuteFailed e),
                 [BeginTx db True (query_deadline c), QueryContext (Statement input), Rollback])
     | Inr rows \<Rightarrow> (read_rows c d (Engine input) rows,
                 [BeginTx db True (query_deadline c), QueryContext (Statement input), CloseRows, Rollback]))))))"

section \<open>Facts\<close>

lemma scan_rows_values:
  "scan_rows limit acc rs = Inr result \<Longrightarrow> \<exists>vs. rs = map Inr vs \<and> result = acc @ map (map bytes_to_string) vs"
proof (induction limit acc rs rule: scan_rows.induct)
  case (2 limit acc r rs)
  then obtain v where r: "r = Inr v" by (auto split: if_splits sum.splits)
  then obtain vs where "rs = map Inr vs" "result = (acc @ [map bytes_to_string v]) @ map (map bytes_to_string) vs"
    using 2 by (auto split: if_splits)
  then show ?case using r by (intro exI[of _ "v # vs"]) simp
qed simp

lemma scan_rows_bound:
  "scan_rows limit acc rs = Inr out \<Longrightarrow> int (length acc) \<le> max limit 0 \<Longrightarrow>
    int (length out) \<le> max limit 0 \<and> length out = length acc + length rs"
  by (induction limit acc rs rule: scan_rows.induct) (auto split: if_splits sum.splits)

lemma scan_rows_complete:
  assumes "int (length acc + length rs) \<le> limit"
  shows "scan_rows limit acc (map Inr rs) = Inr (acc @ map (map bytes_to_string) rs)"
  using assms by (induction rs arbitrary: acc) auto

lemma validate_config_ok:
  "validateMySQLConfig c = ok \<Longrightarrow> 1 \<le> Port c \<and> Port c \<le> 65535 \<and> User c \<noteq> [] \<and> Password c \<noteq> []
    \<and> 0 \<le> ConnectTimeout c \<and> 0 \<le> QueryTimeout c \<and> 0 \<le> MaxRows c \<and> 0 \<le> MaxResultBody c"
  by (auto simp: validateMySQLConfig_def not_less)

definition db_name_char :: "char \<Rightarrow> bool" where
  "db_name_char c \<longleftrightarrow> alnum_cls c \<or> c = CHR ''_''"

lemma safe_name_iff: "match_string safeDatabaseName s \<longleftrightarrow> s \<noteq> [] \<and> (\<forall>c \<in> set s. db_name_char c)"
  by (simp add: safeDatabaseName_def match_whole takes_plus_cls db_name_char_def)

lemma open_pool_ops:
  assumes "open_pool d c n = (r, ops)"
  shows "(\<exists>e. r = Inl e \<and> (ops = [] \<or>
      (\<exists>db. ops = [OpenPool db, LimitPool db 4 2 (300 * second), ClosePool db]))) \<or>
    (\<exists>db. r = Inr db \<and> ops = [OpenPool db, LimitPool db 4 2 (300 * second)])"
proof (cases "sql_open d (driver_config_for c n)")
  case (Inl e)
  then have "r = Inl e" "ops = []" using assms by (simp_all add: open_pool_def)
  then show ?thesis by simp
next
  case (Inr db)
  then show ?thesis using assms by (auto simp: open_pool_def split: option.splits)
qed

text \<open>Pools opened and not closed again.\<close>

definition still_open :: "'db pool_op list \<Rightarrow> 'db list" where
  "still_open ops = fold (\<lambda>op l. case op of OpenPool db \<Rightarrow> l @ [db] | LimitPool _ _ _ _ \<Rightarrow> l
     | ClosePool db \<Rightarrow> remove1 db l) ops []"

text \<open>The pools of an opening.\<close>

lemma OpenMySQLClient_pools:
  "case OpenMySQLClient d config of
     (Inl _, ops) \<Rightarrow> still_open ops = []
   | (Inr c, ops) \<Rightarrow> still_open ops = [xianshi_db c, config_db c] \<and> 0 < maxRows c \<and> 0 < maxBody c
       \<and> 0 < queryTimeout c \<and> validateMySQLConfig config = ok"
proof (cases "validateMySQLConfig config")
  case (Inl e)
  then show ?thesis by (simp add: OpenMySQLClient_def still_open_def)
next
  case (Inr u)
  let ?c = "with_defaults config"
  obtain r1 ops1 where p1: "open_pool d ?c (XianshiDatabase ?c) = (r1, ops1)" by fastforce
  obtain r2 ops2 where p2: "open_pool d ?c (ConfigDatabase ?c) = (r2, ops2)" by fastforce
  have v: "validateMySQLConfig config = ok" using Inr by simp
  have d: "0 < maxRows (newMySQLClient x y (QueryTimeout ?c) (MaxRows ?c) (MaxResultBody ?c))
      \<and> 0 < maxBody (newMySQLClient x y (QueryTimeout ?c) (MaxRows ?c) (MaxResultBody ?c))
      \<and> 0 < queryTimeout (newMySQLClient x y (QueryTimeout ?c) (MaxRows ?c) (MaxResultBody ?c))" for x y
    using validate_config_ok[OF v]
    by (simp add: with_defaults_def newMySQLClient_def second_def defaultMaxRows_def
        defaultMaxResultBody_def)
  show ?thesis
  proof (cases r1)
    case (Inl e)
    then show ?thesis
      using open_pool_ops[OF p1] by (auto simp: OpenMySQLClient_def v p1 still_open_def)
  next
    case r1: (Inr x)
    have o1: "ops1 = [OpenPool x, LimitPool x 4 2 (300 * second)]" using open_pool_ops[OF p1] r1 by auto
    show ?thesis
    proof (cases r2)
      case (Inl e)
      then show ?thesis
        using open_pool_ops[OF p2] r1 o1 by (auto simp: OpenMySQLClient_def v p1 p2 still_open_def)
    next
      case (Inr y)
      then have "ops2 = [OpenPool y, LimitPool y 4 2 (300 * second)]" using open_pool_ops[OF p2] by auto
      then show ?thesis
        using Inr r1 o1 d[of x y]
        by (simp add: OpenMySQLClient_def v p1 p2 still_open_def newMySQLClient_def Let_def)
    qed
  qed
qed

section \<open>Properties\<close>

text \<open>C7: A direct query reaches the database only for a statement both validators accept, always
  inside one transaction opened read-only, runs exactly the caller's statement once, and
  closes its rows and rolls the transaction back on every path; it never commits.\<close>

theorem mysql_query_operations:
  "case MySQL_Query U c d input of (r, ops) \<Rightarrow>
    ops = [] \<and> \<not> is_ok r \<or>
    (ValidateReadOnlySQL U (Statement input) = ok \<and> validateDirectDatabaseScope U (Statement input) = ok
     \<and> (\<exists>db. database c (Engine input) = Inr db \<and>
         (ops = [BeginTx db True (query_deadline c)] \<and> \<not> is_ok r \<or>
          ops = [BeginTx db True (query_deadline c), QueryContext (Statement input), Rollback] \<and> \<not> is_ok r \<or>
          ops = [BeginTx db True (query_deadline c), QueryContext (Statement input), CloseRows, Rollback])))"
  by (auto simp: MySQL_Query_def split: sum.splits option.splits)

text \<open>C30: A successful direct query answers with the JSON of the columns and of all rows the driver delivered, in
  their order and with byte values as strings; there are at most \<open>maxRows\<close> of them, none failed to scan and
  the iteration ended without an error; the body has at most \<open>maxBody\<close> bytes.\<close>

theorem mysql_query_bounds:
  assumes "fst (MySQL_Query U c d input) = Inr out" "0 \<le> maxRows c"
  shows "RowCount out \<le> maxRows c \<and> int (length (ResultJSON out)) \<le> maxBody c
    \<and> OutEngine out = Engine input
    \<and> (\<exists>db rows columns delivered. database c (Engine input) = Inr db \<and> query_context d db (Statement input) = Inr rows
        \<and> r_columns rows = Inr columns \<and> r_rows rows = map Inr delivered \<and> r_err rows = None
        \<and> marshal_result d columns (map (map bytes_to_string) delivered) = Inr (ResultJSON out)
        \<and> RowCount out = int (length delivered))"
proof -
  obtain db rows where q: "database c (Engine input) = Inr db" "query_context d db (Statement input) = Inr rows"
    and r: "read_rows c d (Engine input) rows = Inr out"
    using assms(1) by (auto simp: MySQL_Query_def split: sum.splits option.splits)
  obtain columns result encoded where m: "r_columns rows = Inr columns" "r_err rows = None" "marshal_result d columns result = Inr encoded"
    and scan: "scan_rows (maxRows c) [] (r_rows rows) = Inr result"
    and out: "out = \<lparr>OutEngine = Engine input, ResultJSON = encoded, RowCount = int (length result),
             ElapsedMS = elapsed_ms d\<rparr>" "int (length encoded) \<le> maxBody c"
    using r by (auto simp: read_rows_def split: option.splits)
  obtain delivered where d: "r_rows rows = map Inr delivered" "result = map (map bytes_to_string) delivered"
    using scan_rows_values[OF scan] by auto
  have "int (length result) \<le> maxRows c"
    using scan_rows_bound[of "maxRows c" "[]" "r_rows rows" result] scan assms(2) by auto
  with q out m d show ?thesis by auto
qed

definition sample_client :: "nat MySQLClient" where
  "sample_client = newMySQLClient 0 1 second 500 2048"

definition sample_driver :: "(nat, int) driver" where
  "sample_driver = \<lparr>begin_tx = (\<lambda>_ _ _. None),
     query_context = (\<lambda>_ _. Inr \<lparr>r_columns = Inr [''id''], r_rows = [Inr [VOther 1], Inr [VBytes ''x'']],
       r_err = None\<rparr>),
     marshal_result = (\<lambda>_ rows. Inr (replicate (length rows) CHR ''x'')), elapsed_ms = 3\<rparr>"

theorem mysql_query_bounds_witness:
  "case fst (MySQL_Query sample_unicode sample_client sample_driver
      \<lparr>Statement = ''SHOW TABLES'', Engine = 1\<rparr>) of
     Inl _ \<Rightarrow> False
   | Inr out \<Rightarrow> RowCount out = 2 \<and> marshal_result sample_driver [''id''] [[VOther 1], [VString ''x'']] = Inr (ResultJSON out)"
proof -
  have run: "fst (MySQL_Query sample_unicode sample_client sample_driver
      \<lparr>Statement = ''SHOW TABLES'', Engine = 1\<rparr>) =
      Inr \<lparr>OutEngine = 1, ResultJSON = ''xx'', RowCount = 2, ElapsedMS = 3\<rparr>"
    by code_simp
  have lim: "maxRows sample_client = 500" by code_simp
  have rows: "query_context sample_driver db st = Inr \<lparr>r_columns = Inr [''id''], r_rows = [Inr [VOther 1], Inr [VBytes ''x'']],
       r_err = None\<rparr>" for db st by (simp add: sample_driver_def)
  show ?thesis using mysql_query_bounds[OF run] by (auto simp: run lim rows)
qed

definition backtick_bypass :: "string" where
  "backtick_bypass = ''SELECT 1 AS `'' @ [CHR 0x27] @ ''`, user FROM mysql.user ORDER BY `''
     @ [CHR 0x27] @ ''` LIMIT 1''"


text \<open>Opening the direct client leaks no pool: after an error every pool that was opened has been
  closed, after success exactly the client's two pools are open, with a valid configuration
  and positive limits.\<close>

theorem open_client_no_leak:
  "case OpenMySQLClient d config of
     (Inl _, ops) \<Rightarrow> still_open ops = []
   | (Inr c, ops) \<Rightarrow> still_open ops = [xianshi_db c, config_db c] \<and> 0 < maxRows c \<and> 0 < maxBody c
       \<and> 0 < queryTimeout c \<and> validateMySQLConfig config = ok"
  by (rule OpenMySQLClient_pools)

end
