(* ===== verification/SqlSelect.thy ===== *)
theory SqlSelect
  imports MySQLClient
begin

text \<open>
  When a SELECT built from ASCII words with single blanks between them passes the policy of
  \<open>internal/testdb/validator.go\<close> and the scope check of \<open>internal/testdb/mysql_client.go\<close>: the
  condition is on each word alone, so that it can be evaluated for the fixed words of a statement
  and proved for its numbers.
\<close>

section \<open>The words of a text\<close>

fun word_runs :: "string \<Rightarrow> string \<Rightarrow> string list" where
  "word_runs cur [] = [cur]"
| "word_runs cur (c # s) = (if word_byte c then word_runs (cur @ [c]) s else cur # word_runs [] s)"

lemma word_runs_here: "\<forall>c \<in> set w. word_byte c \<Longrightarrow> edge_after b \<Longrightarrow> cur @ w \<in> set (word_runs cur (w @ b))"
proof (induction w arbitrary: cur)
  case Nil
  then show ?case by (cases b) (auto simp: edge_after_def)
next
  case (Cons c w)
  then show ?case using Cons.IH[of "cur @ [c]"] by simp
qed

lemma word_runs_later:
  "a \<noteq> [] \<Longrightarrow> edge_before a \<Longrightarrow> \<forall>c \<in> set w. word_byte c \<Longrightarrow> edge_after b \<Longrightarrow> w \<in> set (word_runs cur (a @ w @ b))"
proof (induction a arbitrary: cur)
  case (Cons c a)
  show ?case
  proof (cases "a = []")
    case True
    then show ?thesis using Cons.prems word_runs_here[of w b "[]"] by (simp add: edge_before_def)
  next
    case False
    then show ?thesis using Cons by (simp add: edge_before_def)
  qed
qed simp

lemma word_in_runs: "word_in w s \<Longrightarrow> \<forall>c \<in> set w. word_byte c \<Longrightarrow> w \<in> set (word_runs [] s)"
proof -
  assume "word_in w s" and w: "\<forall>c \<in> set w. word_byte c"
  then obtain a b where s: "s = a @ w @ b" "edge_before a" "edge_after b" by (auto simp: word_in_def)
  show ?thesis
  proof (cases "a = []")
    case True
    then show ?thesis using word_runs_here[OF w s(3), of "[]"] s(1) by simp
  next
    case False
    then show ?thesis using word_runs_later[OF False s(2) w s(3)] s(1) by simp
  qed
qed

text \<open>A word without blanks stands in one of the joined parts.\<close>

lemma edge_after_append: "edge_after (x @ y) \<longleftrightarrow> (if x = [] then edge_after y else edge_after x)"
  by (simp add: edge_after_def)

lemma edge_before_append: "edge_before (x @ y) \<longleftrightarrow> (if y = [] then edge_before x else edge_before y)"
  by (simp add: edge_before_def)

lemma word_in_blank:
  assumes "word_in w (u @ CHR '' '' # v)" "CHR '' '' \<notin> set w"
  shows "word_in w u \<or> word_in w v"
proof -
  obtain a b where s: "u @ CHR '' '' # v = a @ w @ b" "edge_before a" "edge_after b"
    using assms(1) by (auto simp: word_in_def)
  have sp: "\<not> word_byte CHR '' ''" by code_simp
  from s(1) consider (left) r where "u = (a @ w) @ r" "r @ CHR '' '' # v = b" | (right) r where "u @ r = a @ w" "r \<noteq> []" "CHR '' '' # v = r @ b"
    by (fastforce simp: append_eq_append_conv2 Cons_eq_append_conv)
  then show ?thesis
  proof cases
    case left
    have "edge_after r" using s(3) left(2) by (cases r) (auto simp: edge_after_def)
    then show ?thesis using left(1) s(2) by (auto simp: word_in_def)
  next
    case right
    then obtain r' where r: "r = CHR '' '' # r'" "v = r' @ b" by (cases r) auto
    have "\<exists>x. a = u @ CHR '' '' # x"
    proof (rule ccontr)
      assume n: "\<nexists>x. a = u @ CHR '' '' # x"
      have "u @ CHR '' '' # r' = a @ w" using right(1) r(1) by simp
      then obtain y where "(u = a @ y \<and> y @ CHR '' '' # r' = w) \<or> (u @ y = a \<and> CHR '' '' # r' = y @ w)"
        by (auto simp: append_eq_append_conv2)
      then show False using n assms(2) by (cases y) auto
    qed
    then obtain x where x: "a = u @ CHR '' '' # x" ..
    then have "r' = x @ w" using right(1) r(1) by simp
    moreover have "edge_before x" using s(2) x by (cases "x = []") (auto simp: edge_before_def)
    ultimately show ?thesis using r(2) s(3) by (auto simp: word_in_def)
  qed
qed

lemma word_in_join:
  "ws \<noteq> [] \<Longrightarrow> word_in w (join '' '' ws) \<Longrightarrow> CHR '' '' \<notin> set w \<Longrightarrow> \<exists>t \<in> set ws. word_in w t"
proof (induction ws)
  case (Cons t ws)
  show ?case
  proof (cases "ws = []")
    case True
    then show ?thesis using Cons.prems by simp
  next
    case False
    then have "join '' '' (t # ws) = t @ CHR '' '' # join '' '' ws" by (simp add: join_Cons)
    then have "word_in w t \<or> word_in w (join '' '' ws)" using Cons.prems(2,3) word_in_blank by metis
    then show ?thesis using Cons.IH[OF False] Cons.prems(3) by auto
  qed
qed simp

section \<open>What the two patterns need\<close>

definition keyword_starts :: "string list" where
  "keyword_starts = ''FOR'' # forbiddenWords"

text \<open>The same in lower case.\<close>

definition keyword_lower :: "string list" where
  "keyword_lower =
    [''for'', ''insert'', ''update'', ''delete'', ''drop'', ''truncate'', ''alter'', ''create'',
     ''replace'', ''rename'', ''grant'', ''revoke'', ''call'', ''load'', ''load_file'', ''lock'',
     ''unlock'', ''set'', ''exec'', ''execute'', ''prepare'', ''deallocate'', ''handler'',
     ''procedure'', ''function'', ''trigger'', ''event'', ''outfile'', ''dumpfile'', ''infile'',
     ''into'']"

lemma keyword_lower: "keyword_lower = map (map lower_byte) keyword_starts"
  by code_simp

lemma takes_ci_chr:
  assumes "takes (ci_chr c) q u t" "all_ascii u"
  shows "\<exists>d. u = [d] \<and> lower_byte d = lower_byte c"
proof -
  have "\<not> all_ascii long_s" "\<not> all_ascii kelvin" by code_simp+
  then have "u \<noteq> long_s" "u \<noteq> kelvin" using assms(2) by blast+
  then show ?thesis using assms(1)
    by (simp only: ci_chr_def Let_def takes_Alt takes_Cls takes_lit split: if_splits) blast+
qed

lemma takes_ci_ascii: "takes (ci_lit k) q w t \<Longrightarrow> all_ascii w \<Longrightarrow> map lower_byte w = map lower_byte k"
proof (induction k arbitrary: q w)
  case Nil
  then show ?case by (simp add: takes_Eps)
next
  case (Cons c k)
  obtain u v where w: "w = u @ v" "takes (ci_chr c) q u (v @ t)" "takes (ci_lit k) (prev_after q u) v t"
    using Cons.prems(1) by (auto simp: takes_Cat)
  have asc: "all_ascii u" "all_ascii v" using Cons.prems(2) w(1) by (auto simp: all_ascii_def)
  show ?case using takes_ci_chr[OF w(2) asc(1)] Cons.IH[OF w(3) asc(2)] w(1) by auto
qed

lemma boundary_before_iff:
  "w \<noteq> [] \<Longrightarrow> word_byte (hd w) \<Longrightarrow> word_boundary (prev_after None a) (w @ b) \<longleftrightarrow> edge_before a"
  by (cases w) (auto simp: edge_before_def word_boundary_def prev_after_def)

lemma boundary_after_iff:
  "w \<noteq> [] \<Longrightarrow> word_byte (last w) \<Longrightarrow> word_boundary (prev_after q w) b \<longleftrightarrow> edge_after b"
  by (cases b) (auto simp: edge_after_def word_boundary_def prev_after_def)

lemma keyword_bytes:
  assumes "k \<in> set keyword_starts" "map lower_byte w = map lower_byte k"
  shows "w \<noteq> []" "\<forall>c \<in> set w. word_byte c"
proof -
  have "\<forall>k \<in> set keyword_starts. k \<noteq> [] \<and> (\<forall>c \<in> set k. word_byte c)" by code_simp
  then have k: "k \<noteq> []" "\<forall>c \<in> set k. word_byte c" using assms(1) by auto
  show "w \<noteq> []" using assms(2) k(1) by auto
  show "\<forall>c \<in> set w. word_byte c"
  proof
    fix c assume "c \<in> set w"
    then have "lower_byte c \<in> set (map lower_byte k)" using assms(2) by (metis image_eqI set_map)
    then obtain d where "d \<in> set k" "lower_byte c = lower_byte d" by auto
    then show "word_byte c" using k(2) word_byte_lower by metis
  qed
qed

lemma space_not_word: "space_cls c \<Longrightarrow> \<not> word_byte c"
  by (auto simp: space_cls_def word_byte_def Let_def)

lemma call_has_bracket: "takes (call_re name) q w t \<Longrightarrow> CHR ''('' \<in> set w"
  unfolding call_re_def seqs.simps by (auto simp: takes_Cat takes_lit simp del: lit.simps)

text \<open>A first word of a pattern, white space, and more.\<close>

lemma phrase_starts:
  assumes "takes (Cat (ci_lit k) (Cat spaces1 r)) q w t" "all_ascii w"
  obtains u v where "w = u @ v" "map lower_byte u = map lower_byte k" "edge_after (v @ t)"
proof -
  obtain u v where w: "w = u @ v" "takes (ci_lit k) q u (v @ t)" "takes (Cat spaces1 r) (prev_after q u) v t"
    using assms(1) by (auto simp: takes_Cat)
  have u: "map lower_byte u = map lower_byte k" using w assms(2) by (intro takes_ci_ascii) (auto simp: all_ascii_def)
  obtain sp v' where sp: "v = sp @ v'" "sp \<noteq> []" "\<forall>c \<in> set sp. space_cls c"
    using w(3) by (auto simp: takes_Cat takes_plus_cls)
  then have "edge_after (v @ t)" using space_not_word by (cases sp) (auto simp: edge_after_def)
  with that w(1) u show ?thesis by blast
qed

lemma forbidden_needs_word:
  assumes "match_string forbiddenSQL n" "all_ascii n" "CHR ''('' \<notin> set n"
  shows "\<exists>k w. k \<in> set keyword_starts \<and> map lower_byte w = map lower_byte k \<and> word_in w n"
proof -
  obtain a w b where n: "n = a @ w @ b" "takes forbiddenSQL (prev_after None a) w b"
    using assms(1) by (auto simp: match_string_iff)
  then have wb: "word_boundary (prev_after None a) (w @ b)" "word_boundary (prev_after (prev_after None a) w) b"
    and alt: "takes (alts (map ci_lit forbiddenWords @ forbiddenPhrases)) (prev_after None a) w b"
    by (auto simp: forbiddenSQL_def takes_Cat_assertion takes_end_assertion takes_Grp)
  have asc: "all_ascii w" using assms(2) n(1) by (simp add: all_ascii_def)
  from alt obtain r where r: "r \<in> set (map ci_lit forbiddenWords @ forbiddenPhrases)" "takes r (prev_after None a) w b"
    unfolding takes_alts by blast
  have whole: ?thesis if k: "k \<in> set keyword_starts" and u: "w = u @ v" "map lower_byte u = map lower_byte k" "edge_after (v @ b)" for k u v
  proof -
    have "u \<noteq> []" "word_byte (hd u)" using keyword_bytes[OF k u(2)] by auto
    then have "edge_before a" using wb(1) boundary_before_iff[of u a "v @ b"] u(1) by simp
    then have "word_in u n" using u(3) unfolding word_in_def n(1) u(1) by auto
    then show ?thesis using k u(2) by blast
  qed
  from r(1) consider (word) k where "k \<in> set forbiddenWords" "r = ci_lit k"
    | (fore) r' where "r = Cat (ci_lit ''FOR'') (Cat spaces1 r')"
    | (lock) r' where "r = Cat (ci_lit ''LOCK'') (Cat spaces1 r')"
    | (call) f where "r = call_re f"
    unfolding forbiddenPhrases_def by auto
  then show ?thesis
  proof cases
    case word
    have k: "k \<in> set keyword_starts" using word(1) by (simp add: keyword_starts_def)
    have low: "map lower_byte w = map lower_byte k" using r(2) asc unfolding word(2) by (rule takes_ci_ascii)
    have "w \<noteq> []" "word_byte (last w)" using keyword_bytes[OF k low] by auto
    then have "edge_after b" using wb(2) boundary_after_iff by blast
    then show ?thesis using whole[OF k, of w "[]"] low by simp
  next
    case fore
    obtain u v where "w = u @ v" "map lower_byte u = map lower_byte ''FOR''" "edge_after (v @ b)"
      using phrase_starts r(2) asc unfolding fore by blast
    then show ?thesis using whole[of "''FOR''"] by (simp add: keyword_starts_def)
  next
    case lock
    obtain u v where "w = u @ v" "map lower_byte u = map lower_byte ''LOCK''" "edge_after (v @ b)"
      using phrase_starts r(2) asc unfolding lock by blast
    moreover have "''LOCK'' \<in> set keyword_starts" by code_simp
    ultimately show ?thesis using whole by blast
  next
    case call
    then have "CHR ''('' \<in> set w" using r(2) call_has_bracket by blast
    then show ?thesis using assms(3) n(1) by simp
  qed
qed

text \<open>A zero followed by the letter x, in either case.\<close>

definition no_hex :: "string \<Rightarrow> bool" where
  "no_hex s \<longleftrightarrow> successively (\<lambda>c d. \<not> (c = CHR ''0'' \<and> lower_byte d = CHR ''x'')) s"

lemma suspicious_needs:
  assumes "match_string suspiciousSQL n" "all_ascii n" "CHR ''('' \<notin> set n"
  shows "\<not> no_hex n"
proof -
  obtain a w b where n: "n = a @ w @ b" "takes suspiciousSQL (prev_after None a) w b"
    using assms(1) by (auto simp: match_string_iff)
  have asc: "all_ascii w" using assms(2) n(1) by (simp add: all_ascii_def)
  obtain r where r: "r \<in> set [seqs [ci_lit ''0x'', at_least 8 (Cls hex_cls)], call_re ''unhex'', call_re ''extractvalue'',
      call_re ''updatexml'', call_re ''sleep'', call_re ''benchmark'']" "takes r (prev_after None a) w b"
    using n(2) unfolding suspiciousSQL_def takes_Grp takes_alts by blast
  have "r \<noteq> call_re f" for f using r(2) call_has_bracket assms(3) n(1) by auto
  then have "takes (Cat (ci_lit ''0x'') (at_least 8 (Cls hex_cls))) (prev_after None a) w b"
    using r by auto
  then obtain u v where u: "w = u @ v" "takes (ci_lit ''0x'') (prev_after None a) u (v @ b)"
    unfolding takes_Cat[of "ci_lit ''0x''"] by blast
  then have "map lower_byte u = map lower_byte ''0x''" using asc by (intro takes_ci_ascii) (auto simp: all_ascii_def)
  then obtain c d where cd: "u = [c, d]" "lower_byte c = lower_byte CHR ''0''" "lower_byte d = lower_byte CHR ''x''"
    by (auto simp: map_eq_Cons_conv)
  have low: "lower_byte CHR ''0'' = CHR ''0''" "lower_byte CHR ''x'' = CHR ''x''" by code_simp+
  have "lower_byte c = CHR ''0'' \<Longrightarrow> c = CHR ''0''"
  proof -
    assume c: "lower_byte c = CHR ''0''"
    have "byte_val CHR ''0'' = 0x30" by code_simp
    then have "byte_val (lower_byte c) = 0x30" using c by simp
    then have "lower_byte c = c" by (auto simp: lower_byte_def byte_val_chr split: if_splits)
    with c show ?thesis by simp
  qed
  then have "n = a @ CHR ''0'' # d # v @ b" "lower_byte d = CHR ''x''" using cd low n(1) u(1) by auto
  then show ?thesis by (auto simp: no_hex_def successively_append_iff)
qed

section \<open>Statements of plain words\<close>

definition plain_byte :: "char \<Rightarrow> bool" where
  "plain_byte c \<longleftrightarrow> word_byte c \<or> c = CHR '','' \<or> c = CHR ''=''"

definition keyword_free :: "string \<Rightarrow> bool" where
  "keyword_free t \<longleftrightarrow> list_all (\<lambda>w. map lower_byte w \<notin> set keyword_lower) (word_runs [] t)"

definition plain_word :: "string \<Rightarrow> bool" where
  "plain_word t \<longleftrightarrow> t \<noteq> [] \<and> list_all plain_byte t \<and> no_hex t \<and> keyword_free t"

lemma plain_byte_facts:
  assumes "plain_byte c"
  shows "ascii c" "\<not> is_space (byte_val c)" "\<not> is_quote c" "\<not> opens_comment c s" "c \<noteq> CHR '';''" "c \<noteq> backslash"
    "c \<noteq> CHR ''(''" "c \<noteq> CHR 0x00" "allowed_rune U (byte_val c)"
proof -
  have v: "byte_val c \<in> {0x30..0x39} \<union> {0x41..0x5A} \<union> {0x5F} \<union> {0x61..0x7A} \<union> {0x2C, 0x3D}"
  proof -
    have "byte_val CHR '','' = 0x2C" "byte_val CHR ''='' = 0x3D" by code_simp+
    then show ?thesis using assms by (auto simp: plain_byte_def word_byte_def Let_def)
  qed
  then show "ascii c" "\<not> is_space (byte_val c)" by (auto simp: ascii_def is_space_def)
  have "byte_val CHR 0x27 = 0x27" "byte_val CHR 0x22 = 0x22" "byte_val CHR 0x60 = 0x60" "byte_val CHR ''-'' = 0x2D"
    "byte_val CHR ''#'' = 0x23" "byte_val CHR ''/'' = 0x2F" "byte_val CHR '';'' = 0x3B" "byte_val CHR 0x5C = 0x5C"
    "byte_val CHR ''('' = 0x28" "byte_val CHR 0x00 = 0"
    by code_simp+
  then show "\<not> is_quote c" "\<not> opens_comment c s" "c \<noteq> CHR '';''" "c \<noteq> backslash" "c \<noteq> CHR ''(''" "c \<noteq> CHR 0x00"
    using v by (auto simp: is_quote_def opens_comment_def backslash_def)
  have "{0x5F, 0x2C, 0x3D} \<subseteq> set (map byte_val allowed_punctuation)" by code_simp
  then show "allowed_rune U (byte_val c)"
    using v unfolding allowed_rune_def is_letter_def is_digit_def by (elim UnE) auto
qed

lemma digit_facts:
  assumes "digit_cls c"
  shows "word_byte c" "lower_byte c = c" "plain_byte c" "c \<noteq> CHR ''x''"
proof -
  have "byte_val CHR ''x'' = 0x78" by code_simp
  then show "word_byte c" "lower_byte c = c" "plain_byte c" "c \<noteq> CHR ''x''"
    using assms by (auto simp: digit_cls_def word_byte_def lower_byte_def plain_byte_def)
qed

lemma digits_plain:
  assumes "ds \<noteq> []" "\<forall>c \<in> set ds. digit_cls c"
  shows "plain_word ds"
proof -
  have runs: "word_runs cur ds = [cur @ ds]" for cur
    using assms(2) by (induction ds arbitrary: cur) (auto simp: digit_facts)
  have "\<forall>k \<in> set keyword_starts. k \<noteq> [] \<and> \<not> digit_cls (lower_byte (hd k))" by code_simp
  moreover have "lower_byte (hd ds) = hd ds" "digit_cls (hd ds)" using assms digit_facts(2) by auto
  ultimately have "map lower_byte ds \<noteq> map lower_byte k" if "k \<in> set keyword_starts" for k
    using that assms(1) by (metis list.map_sel(1) map_is_Nil_conv)
  then have "keyword_free ds" by (auto simp: keyword_free_def runs keyword_lower)
  moreover have "no_hex ds"
    using assms(2) unfolding no_hex_def by (induction ds rule: induct_list012) (auto simp: digit_facts)
  ultimately show ?thesis using assms digit_facts(3) by (auto simp: plain_word_def list_all_iff)
qed

text \<open>The joined words.\<close>

lemma set_join_blank: "set (join '' '' ws) \<subseteq> insert CHR '' '' (\<Union> (set ` set ws))"
  by (induction "'' ''" ws rule: join.induct) auto

lemma join_append: "xs \<noteq> [] \<Longrightarrow> ys \<noteq> [] \<Longrightarrow> join '' '' (xs @ ys) = join '' '' xs @ '' '' @ join '' '' ys"
proof (induction xs)
  case (Cons x xs)
  then show ?case by (cases "xs = []") (simp_all add: join_Cons)
qed simp

lemma no_hex_join: "list_all no_hex ws \<Longrightarrow> no_hex (join '' '' ws)"
proof (induction "'' ''" ws rule: join.induct)
  case (3 w v ws)
  have "lower_byte CHR '' '' \<noteq> CHR ''x''" by code_simp
  then show ?case using 3 by (auto simp: no_hex_def successively_append_iff successively_Cons)
qed (auto simp: no_hex_def)

lemma segs_plain: "list_all (\<lambda>c. plain_byte c \<or> c = CHR '' '') s \<Longrightarrow> segs_ok (map Plain s) \<and> render_all (map Plain s) = s
    \<and> blank_all (map Plain s) = s"
proof (induction s)
  case (Cons c s)
  have "\<not> is_quote CHR '' ''" "CHR '' '' \<noteq> backslash" by code_simp+
  moreover have "\<not> opens_comment CHR '' '' s" by (simp add: opens_comment_def)
  moreover have "plain_byte c \<Longrightarrow> c \<noteq> backslash" using plain_byte_facts(6) by blast
  ultimately show ?case using Cons plain_byte_facts(3-5) by auto
qed simp

lemma plain_policy:
  assumes "list_all plain_word ws" "ws = ''SELECT'' # vs @ [''LIMIT'', ds]" "ds \<noteq> []" "\<forall>c \<in> set ds. digit_cls c"
  shows "policy U (join '' '' ws)"
  unfolding policy_def
proof (intro conjI impI)
  let ?n = "join '' '' ws"
  have bytes: "c \<in> set ?n \<Longrightarrow> plain_byte c \<or> c = CHR '' ''" for c
    using set_join_blank[of ws] assms(1) by (fastforce simp: list_all_iff plain_word_def)
  have blank: "ascii CHR '' ''" "byte_val CHR '' '' = 0x20" by code_simp+
  have asc: "all_ascii ?n" using bytes plain_byte_facts(1) blank(1) by (auto simp: all_ascii_def)
  have allowed: "allowed_rune U (byte_val c)" if "c \<in> set ?n" for c
    using bytes[OF that] plain_byte_facts(9) blank(2) by (auto simp: allowed_rune_def)
  then show "rejectDisallowedCharacters U ?n = ok"
    by (auto simp: rejectDisallowedCharacters_def runes_all_ascii[OF asc] find_None_iff split: option.split)
  have bracket: "CHR ''('' \<notin> set ?n" using bytes plain_byte_facts(7) by fastforce
  show "\<not> match_string forbiddenSQL ?n"
  proof
    assume "match_string forbiddenSQL ?n"
    then obtain k w where k: "k \<in> set keyword_starts" "map lower_byte w = map lower_byte k" "word_in w ?n"
      using forbidden_needs_word[OF _ asc bracket] by blast
    have w: "\<forall>c \<in> set w. word_byte c" using keyword_bytes(2)[OF k(1,2)] .
    have "\<not> word_byte CHR '' ''" by code_simp
    then have "CHR '' '' \<notin> set w" using w by blast
    then obtain t where t: "t \<in> set ws" "word_in w t" using word_in_join[OF _ k(3)] assms(2) by auto
    then have "w \<in> set (word_runs [] t)" using word_in_runs w by blast
    then show False using t(1) k(1,2) assms(1) by (auto simp: list_all_iff plain_word_def keyword_free_def keyword_lower)
  qed
  have "list_all no_hex ws" using assms(1) by (auto simp: list_all_iff plain_word_def)
  then show "\<not> match_string suspiciousSQL ?n" using suspicious_needs[OF _ asc bracket] no_hex_join by blast
  have sp: "\<forall>w \<in> set ws. w \<noteq> [] \<and> no_space w"
    using assms(1) plain_byte_facts(1,2) by (auto simp: list_all_iff plain_word_def intro!: no_space_ascii)
  have trim: "trim_space ?n = ?n" using sp assms(2) by (intro trim_join) auto
  have up: "upper_of U ?n = map upper_byte ?n" by (simp add: upper_of_def trim to_upper_ascii[OF asc])
  have n: "?n = ''SELECT '' @ join '' '' (vs @ [''LIMIT'', ds])" using assms(2) by (cases vs) simp_all
  have "map upper_byte ''SELECT '' = ''SELECT ''" by code_simp
  then have "upper_of U ?n = ''SELECT '' @ map upper_byte (join '' '' (vs @ [''LIMIT'', ds]))"
    using up unfolding n map_append by (simp only:)
  then show "hasAllowedPrefix (upper_of U ?n)" by (simp add: hasAllowedPrefix_def allowedPrefixes_def)
  show "match_string limitClause ?n"
  proof -
    have "?n = (join '' '' (''SELECT'' # vs) @ '' '') @ ''LIMIT'' @ '' '' @ ds @ []"
      unfolding assms(2) using join_append[of "''SELECT'' # vs" "[''LIMIT'', ds]"] by simp
    moreover have "limit_at (join '' '' (''SELECT'' # vs) @ '' '') ''LIMIT'' '' '' ds"
    proof -
      have "map lower_byte ''LIMIT'' = ''limit''" "space_cls CHR '' ''" "\<not> word_byte CHR '' ''" "word_byte CHR ''L''"
        by code_simp+
      then show ?thesis using assms(3,4) by (simp add: limit_at_def word_boundary_def)
    qed
    ultimately show ?thesis unfolding limitClause_iff by blast
  qed
qed

lemma select_accepted:
  assumes "list_all plain_word ws" "ws = ''SELECT'' # vs @ [''LIMIT'', ds]" "ds \<noteq> []" "\<forall>c \<in> set ds. digit_cls c"
    and "length (join '' '' ws) \<le> maxSQLLength"
  shows "ValidateReadOnlySQL U (join '' '' ws) = ok \<and> trim_space (join '' '' ws) = join '' '' ws"
proof -
  let ?n = "join '' '' ws"
  have bytes: "c \<in> set ?n \<Longrightarrow> plain_byte c \<or> c = CHR '' ''" for c
    using set_join_blank[of ws] assms(1) by (fastforce simp: list_all_iff plain_word_def)
  have sp: "\<forall>w \<in> set ws. w \<noteq> [] \<and> no_space w"
    using assms(1) plain_byte_facts(1,2) by (auto simp: list_all_iff plain_word_def intro!: no_space_ascii)
  have trim: "trim_space ?n = ?n" using sp assms(2) by (intro trim_join) auto
  have semi: "CHR '';'' \<notin> set ?n" "CHR 0x00 \<notin> set ?n" using bytes plain_byte_facts(5,8) by fastforce+
  then have core: "core ?n = ?n" by (auto simp: core_def trim trim_suffix_def suffix_def)
  have "squash ?n = ?n" unfolding squash_def using fields_join[OF sp] by simp
  moreover have "list_all (\<lambda>c. plain_byte c \<or> c = CHR '' '') ?n" using bytes by (auto simp: list_all_iff)
  ultimately have norm: "normalizeForValidation (core ?n) = Inr ?n"
    unfolding normalize_iff core using segs_plain by metis
  have "?n \<noteq> []" using assms(2) by (cases vs) simp_all
  then have "raw_ok ?n" using semi assms(5) by (simp add: raw_ok_def trim core)
  then show ?thesis using norm plain_policy[OF assms(1-4)] trim by (auto simp: validate_ok_iff)
qed

text \<open>The scope check: no quotes and no dot, and not a SHOW.\<close>

lemma strip_plain: "CHR 0x27 \<notin> set s \<Longrightarrow> CHR 0x22 \<notin> set s \<Longrightarrow> stripStringLiterals s = Inr s"
  by (induction s) auto

lemma qualified_needs_dot: "takes qualifiedIdentifier q w t \<Longrightarrow> CHR ''.'' \<in> set w"
  by (auto simp: qualifiedIdentifier_def takes_Cat takes_lit simp del: lit.simps)

lemma plain_not_dot: "plain_byte c \<Longrightarrow> c \<noteq> CHR ''.'' \<and> c \<noteq> CHR 0x27 \<and> c \<noteq> CHR 0x22"
proof -
  have "\<not> plain_byte CHR ''.''" "\<not> plain_byte CHR 0x27" "\<not> plain_byte CHR 0x22" by code_simp+
  then show "plain_byte c \<Longrightarrow> c \<noteq> CHR ''.'' \<and> c \<noteq> CHR 0x27 \<and> c \<noteq> CHR 0x22" by blast
qed

lemma select_in_scope:
  assumes "list_all plain_word ws" "ws = ''SELECT'' # vs" "vs \<noteq> []"
  shows "validateDirectDatabaseScope U (join '' '' ws) = ok"
proof -
  let ?n = "join '' '' ws"
  have bytes: "c \<in> set ?n \<Longrightarrow> plain_byte c \<or> c = CHR '' ''" for c
    using set_join_blank[of ws] assms(1) by (fastforce simp: list_all_iff plain_word_def)
  have not_in: "CHR ''.'' \<notin> set ?n" "CHR 0x27 \<notin> set ?n" "CHR 0x22 \<notin> set ?n" "CHR '';'' \<notin> set ?n"
    using bytes plain_not_dot plain_byte_facts(5) by fastforce+
  have "ascii CHR '' ''" by code_simp
  then have asc: "all_ascii ?n" using bytes plain_byte_facts(1) unfolding all_ascii_def by blast
  have sp: "\<forall>w \<in> set ws. w \<noteq> [] \<and> no_space w"
    using assms(1) plain_byte_facts(1,2) by (auto simp: list_all_iff plain_word_def intro!: no_space_ascii)
  have suffix: "trim_suffix ?n '';'' = ?n" using not_in(4) by (auto simp: trim_suffix_def suffix_def)
  have squash: "squash ?n = ?n" unfolding squash_def using fields_join[OF sp] by simp
  have n: "?n = ''SELECT '' @ join '' '' vs" using assms(2,3) by (cases vs) simp_all
  have sel: "map upper_byte ''SELECT '' = ''SELECT ''" by code_simp
  have "to_upper U ?n = map upper_byte (''SELECT '' @ join '' '' vs)" using to_upper_ascii[OF asc] n by simp
  then have "to_upper U ?n = ''SELECT '' @ map upper_byte (join '' '' vs)" unfolding map_append sel .
  then have "\<not> has_prefix (to_upper U ?n) ''SHOW ''" by simp
  moreover have "\<not> match_string qualifiedIdentifier ?n"
    using not_in(1) qualified_needs_dot by (fastforce simp: match_string_iff)
  ultimately show ?thesis
    using not_in(2,3) by (simp add: validateDirectDatabaseScope_def contains_char_iff strip_plain suffix squash)
qed

end
