(* ===== verification/GoJson.thy ===== *)
theory GoJson
  imports GoStrings
begin

text \<open>
  What the program uses of \<open>encoding/json\<close>: the scanner and parser of \<open>Unmarshal\<close>, \<open>Valid\<close> and
  \<open>Decoder.Decode\<close>, decoding into the Go types that occur (\<open>any\<close>, strings, integers, booleans,
  slices, string maps, structs with their case-insensitive field names) and \<open>Marshal\<close>.

  A number inside \<open>any\<close> keeps its literal: the conversion to \<open>float64\<close> is modelled as far as its
  range error goes.
\<close>

section \<open>Values\<close>

text \<open>JSON text, parsed: strings as the bytes between their quotes, members in their order.\<close>

datatype json =
    JNull
  | JBool bool
  | JNum string
  | JStr string
  | JArr "json list"
  | JObj "(string \<times> json) list"

section \<open>Tokens\<close>

datatype token =
    TWord json
  | TStr string
  | TOpenArr | TCloseArr | TOpenObj | TCloseObj | TComma | TColon

definition json_space :: "char \<Rightarrow> bool" where
  "json_space c \<longleftrightarrow> c = CHR '' '' \<or> c = CHR 0x09 \<or> c = CHR 0x0A \<or> c = CHR 0x0D"

definition hex_value :: "char \<Rightarrow> int option" where
  "hex_value c = (let v = byte_val c in
     if 0x30 \<le> v \<and> v \<le> 0x39 then Some (v - 0x30)
     else if 0x41 \<le> v \<and> v \<le> 0x46 then Some (v - 0x37)
     else if 0x61 \<le> v \<and> v \<le> 0x66 then Some (v - 0x57) else None)"

text \<open>\<open>getu4\<close>: the code unit of \<open>uXXXX\<close> (the backslash is already read).\<close>

fun get_u4 :: "string \<Rightarrow> (int \<times> string) option" where
  "get_u4 (u # a # b # c # d # r) =
    (case (hex_value a, hex_value b, hex_value c, hex_value d) of
       (Some w, Some x, Some y, Some z) \<Rightarrow>
         if u = CHR ''u'' then Some (((w * 16 + x) * 16 + y) * 16 + z, r) else None
     | _ \<Rightarrow> None)"
| "get_u4 _ = None"

lemma get_u4_length: "get_u4 s = Some (u, r) \<Longrightarrow> length r < length s"
  by (induction s rule: get_u4.induct) (auto split: option.splits if_splits)

text \<open>The byte a one-letter escape stands for.\<close>

definition simple_escape :: "char \<Rightarrow> char option" where
  "simple_escape c = map_of
    [(CHR 0x22, CHR 0x22), (CHR 0x5C, CHR 0x5C), (CHR ''/'', CHR ''/''), (CHR ''b'', CHR 0x08),
     (CHR ''f'', CHR 0x0C), (CHR ''n'', CHR 0x0A), (CHR ''r'', CHR 0x0D), (CHR ''t'', CHR 0x09)] c"

text \<open>
  The rune of an escape that begins with the code unit \<open>u\<close>, and what follows: a surrogate
  pairs with a \<open>\u\<close> escape right after it, otherwise it becomes the replacement rune.
\<close>

definition escaped_rune :: "int \<Rightarrow> string \<Rightarrow> rune \<times> string" where
  "escaped_rune u r =
    (if 0xD800 \<le> u \<and> u < 0xE000 then
       (case r of
          c # r' \<Rightarrow>
            (if c = CHR 0x5C then
               (case get_u4 r' of
                  Some (v, r'') \<Rightarrow>
                    (if u < 0xDC00 \<and> 0xDC00 \<le> v \<and> v < 0xE000
                     then (0x10000 + (u - 0xD800) * 0x400 + (v - 0xDC00), r'')
                     else (rune_error, r))
                | None \<Rightarrow> (rune_error, r))
             else (rune_error, r))
        | [] \<Rightarrow> (rune_error, r))
     else (u, r))"

lemma escaped_rune_length: "escaped_rune u r = (x, t) \<Longrightarrow> length t \<le> length r"
  by (auto simp: escaped_rune_def split: if_splits list.splits option.splits dest!: get_u4_length)

text \<open>
  The rest of a string after its opening quote: the bytes of the string as they stand in the
  text, escapes checked but not decoded, and what follows the closing quote.
\<close>

function lex_string :: "string \<Rightarrow> (string \<times> string) option" where
  "lex_string [] = None"
| "lex_string (c # r) =
    (if c = CHR 0x22 then Some ([], r)
     else if c = CHR 0x5C then
       (case r of
          [] \<Rightarrow> None
        | e # r' \<Rightarrow>
          (if simple_escape e \<noteq> None then map_option (\<lambda>(t, q). (c # e # t, q)) (lex_string r')
           else (case get_u4 r of
                   None \<Rightarrow> None
                 | Some (u, q) \<Rightarrow> map_option (\<lambda>(t, q'). (take 6 (c # r) @ t, q')) (lex_string q))))
     else if byte_val c < 0x20 then None
     else map_option (\<lambda>(t, q). (c # t, q)) (lex_string r))"
  by pat_completeness auto
termination
  by (relation "measure length") (auto dest: get_u4_length)

lemma lex_string_length: "lex_string s = Some (t, r) \<Longrightarrow> length r < length s"
proof (induction s arbitrary: t r rule: lex_string.induct)
  case (2 c w)
  then show ?case
    by (fastforce split: if_splits list.splits option.splits dest: get_u4_length)
qed simp

text \<open>\<open>unquote\<close>: the text such bytes stand for; invalid UTF-8 becomes the replacement rune.\<close>

function unquote :: "string \<Rightarrow> string" where
  "unquote [] = []"
| "unquote (c # r) =
    (if c = CHR 0x5C then
       (case r of
          [] \<Rightarrow> []
        | e # r' \<Rightarrow>
          (case simple_escape e of
             Some b \<Rightarrow> b # unquote r'
           | None \<Rightarrow>
             (case get_u4 r of
                None \<Rightarrow> []
              | Some (u, q) \<Rightarrow> encode_rune (fst (escaped_rune u q)) @ unquote (snd (escaped_rune u q)))))
     else encode_rune (fst (decode_rune (c # r))) @ unquote (drop (snd (decode_rune (c # r))) (c # r)))"
  by pat_completeness auto
termination
proof (relation "measure length", goal_cases)
  case (2 c r e r' p u q)
  then have u: "get_u4 r = Some (u, q)" by auto
  show ?case
    using get_u4_length[OF u] escaped_rune_length[of u q "fst (escaped_rune u q)" "snd (escaped_rune u q)"]
    by simp
next
  case (4 c r)
  then show ?case using decode_rune_width[of "c # r"] by simp
qed auto

text \<open>A number: the literal and what follows it.\<close>

definition digits1 :: "string \<Rightarrow> (string \<times> string) option" where
  "digits1 s = (let d = takeWhile (\<lambda>c. digit_value c \<noteq> None) s in
     if d = [] then None else Some (d, dropWhile (\<lambda>c. digit_value c \<noteq> None) s))"

definition lex_fraction :: "string \<Rightarrow> (string \<times> string) option" where
  "lex_fraction s = (case s of
     c # r \<Rightarrow> if c = CHR ''.'' then map_option (\<lambda>(d, q). (c # d, q)) (digits1 r) else Some ([], s)
   | [] \<Rightarrow> Some ([], s))"

definition lex_exponent :: "string \<Rightarrow> (string \<times> string) option" where
  "lex_exponent s = (case s of
     c # r \<Rightarrow>
       if c = CHR ''e'' \<or> c = CHR ''E'' then
         (case r of
            g # r' \<Rightarrow>
              if g = CHR ''+'' \<or> g = CHR ''-'' then map_option (\<lambda>(d, q). (c # g # d, q)) (digits1 r')
              else map_option (\<lambda>(d, q). (c # d, q)) (digits1 r)
          | [] \<Rightarrow> None)
       else Some ([], s)
   | [] \<Rightarrow> Some ([], s))"

definition lex_integer :: "string \<Rightarrow> (string \<times> string) option" where
  "lex_integer s = (case s of
     c # r \<Rightarrow> if c = CHR ''0'' then Some ([c], r) else digits1 s
   | [] \<Rightarrow> None)"

definition lex_number :: "string \<Rightarrow> (string \<times> string) option" where
  "lex_number s =
    (let sign = (if has_prefix s ''-'' then ''-'' else []) in
     case lex_integer (drop (length sign) s) of
       None \<Rightarrow> None
     | Some (i, r) \<Rightarrow>
    (case lex_fraction r of
       None \<Rightarrow> None
     | Some (f, r') \<Rightarrow>
     map_option (\<lambda>(e, q). (sign @ i @ f @ e, q)) (lex_exponent r')))"

lemma digits1_length: "digits1 s = Some (d, r) \<Longrightarrow> length r < length s"
  by (induction s) (auto simp: digits1_def Let_def le_imp_less_Suc length_dropWhile_le split: if_splits)

lemma lex_integer_length: "lex_integer s = Some (d, r) \<Longrightarrow> length r < length s"
  by (auto simp: lex_integer_def split: list.splits if_splits dest: digits1_length)

lemma lex_fraction_length: "lex_fraction s = Some (d, r) \<Longrightarrow> length r \<le> length s"
  by (auto simp: lex_fraction_def split: list.splits if_splits dest: digits1_length)

lemma lex_exponent_length: "lex_exponent s = Some (d, r) \<Longrightarrow> length r \<le> length s"
  by (auto simp: lex_exponent_def split: list.splits if_splits dest: digits1_length)

lemma lex_number_length: "lex_number s = Some (d, r) \<Longrightarrow> length r < length s"
proof -
  assume "lex_number s = Some (d, r)"
  then obtain i r1 f r2 e where
    "lex_integer (drop (length (if has_prefix s ''-'' then ''-'' else [])) s) = Some (i, r1)"
    "lex_fraction r1 = Some (f, r2)" "lex_exponent r2 = Some (e, r)"
    unfolding lex_number_def Let_def by (auto split: option.splits)
  then show "length r < length s"
    using lex_integer_length lex_fraction_length lex_exponent_length by fastforce
qed

definition lex_token :: "string \<Rightarrow> (token \<times> string) option" where
  "lex_token s0 =
    (let s = dropWhile json_space s0 in
     case s of
       [] \<Rightarrow> None
     | c # r \<Rightarrow>
       if c = CHR ''['' then Some (TOpenArr, r)
       else if c = CHR '']'' then Some (TCloseArr, r)
       else if c = CHR 0x7B then Some (TOpenObj, r)
       else if c = CHR 0x7D then Some (TCloseObj, r)
       else if c = CHR '','' then Some (TComma, r)
       else if c = CHR '':'' then Some (TColon, r)
       else if c = CHR 0x22 then map_option (\<lambda>(t, q). (TStr t, q)) (lex_string r)
       else if has_prefix s ''null'' then Some (TWord JNull, drop 4 s)
       else if has_prefix s ''true'' then Some (TWord (JBool True), drop 4 s)
       else if has_prefix s ''false'' then Some (TWord (JBool False), drop 5 s)
       else map_option (\<lambda>(n, q). (TWord (JNum n), q)) (lex_number s))"

lemma lex_token_length:
  assumes "lex_token s = Some (t, r)"
  shows "length r < length s"
proof -
  have le: "length (dropWhile json_space s) \<le> length s" by (rule length_dropWhile_le)
  show ?thesis
  proof (cases "dropWhile json_space s")
    case Nil
    then show ?thesis using assms unfolding lex_token_def Let_def Nil by simp
  next
    case (Cons c w)
    have "length r < Suc (length w)"
      using assms unfolding lex_token_def Let_def Cons list.case
      by (simp split: if_splits; force dest: lex_string_length lex_number_length)
    with le show ?thesis by (simp add: Cons)
  qed
qed

section \<open>The parser\<close>

text \<open>The containers that are open, innermost first, and what the scanner expects next.\<close>

datatype frame = InArr "json list" | InObj "(string \<times> json) list" string

datatype mode =
    Value
  | ValueOrClose
  | KeyOrClose "(string \<times> json) list"
  | Key "(string \<times> json) list"
  | Colon "(string \<times> json) list" string
  | After json

datatype outcome = Done json | More "frame list" mode | Fail

definition maxNestingDepth :: nat where "maxNestingDepth = 10000"

definition completed :: "frame list \<Rightarrow> json \<Rightarrow> outcome" where
  "completed fs v = (if fs = [] then Done v else More fs (After v))"

definition opened_container :: "frame list \<Rightarrow> mode \<Rightarrow> frame \<Rightarrow> outcome" where
  "opened_container fs m f = (if length fs < maxNestingDepth then More (f # fs) m else Fail)"

fun begin_value :: "frame list \<Rightarrow> token \<Rightarrow> outcome" where
  "begin_value fs (TWord v) = completed fs v"
| "begin_value fs (TStr s) = completed fs (JStr s)"
| "begin_value fs TOpenArr = opened_container fs ValueOrClose (InArr [])"
| "begin_value fs TOpenObj = opened_container fs (KeyOrClose []) (InObj [] [])"
| "begin_value fs _ = Fail"

text \<open>Object members stay in the order of the text, repeated keys included.\<close>

fun advance :: "frame list \<Rightarrow> mode \<Rightarrow> token \<Rightarrow> outcome" where
  "advance fs Value t = begin_value fs t"
| "advance (InArr vs # fs) ValueOrClose TCloseArr = completed fs (JArr [])"
| "advance fs ValueOrClose t = begin_value fs t"
| "advance (f # fs) (KeyOrClose ms) TCloseObj = completed fs (JObj ms)"
| "advance fs (KeyOrClose ms) (TStr k) = More fs (Colon ms k)"
| "advance fs (Key ms) (TStr k) = More fs (Colon ms k)"
| "advance (f # fs) (Colon ms k) TColon = More (InObj ms k # fs) Value"
| "advance (InArr vs # fs) (After v) TComma = More (InArr (vs @ [v]) # fs) Value"
| "advance (InArr vs # fs) (After v) TCloseArr = completed fs (JArr (vs @ [v]))"
| "advance (InObj ms k # fs) (After v) TComma = More (InObj ms k # fs) (Key (ms @ [(k, v)]))"
| "advance (InObj ms k # fs) (After v) TCloseObj = completed fs (JObj (ms @ [(k, v)]))"
| "advance fs m t = Fail"

text \<open>The first value of the text and what follows it.\<close>

function parse_from :: "frame list \<Rightarrow> mode \<Rightarrow> string \<Rightarrow> (json \<times> string) option" where
  "parse_from fs m s =
    (case lex_token s of
       None \<Rightarrow> None
     | Some (t, r) \<Rightarrow>
       (case advance fs m t of
          Done v \<Rightarrow> Some (v, r)
        | More fs' m' \<Rightarrow> parse_from fs' m' r
        | Fail \<Rightarrow> None))"
  by pat_completeness auto
termination
  by (relation "measure (\<lambda>(fs, m, s). length s)") (auto dest: lex_token_length)

declare parse_from.simps [simp del]

text \<open>\<open>Decoder.Decode\<close> stops after the first value; \<open>Unmarshal\<close> and \<open>Valid\<close> read all the text.\<close>

definition parse_first :: "string \<Rightarrow> json option" where
  "parse_first s = map_option fst (parse_from [] Value s)"

definition parse_json :: "string \<Rightarrow> json option" where
  "parse_json s = (case parse_from [] Value s of
     Some (v, r) \<Rightarrow> if list_all json_space r then Some v else None
   | None \<Rightarrow> None)"

definition json_valid :: "string \<Rightarrow> bool" where
  "json_valid s \<longleftrightarrow> parse_json s \<noteq> None"
section \<open>Decoding into Go types\<close>

text \<open>A Go value of type \<open>any\<close>. A map is a list of its entries, each key once.\<close>

datatype goany =
    ANil
  | ABool bool
  | ANum string
  | AStr string
  | ASlice "goany list"
  | AMap "(string \<times> goany) list"

text \<open>
  A literal out of the range of \<open>float64\<close>: from half-way above the largest finite value, on.
\<close>

definition number_parts :: "string \<Rightarrow> int \<times> int" where
  "number_parts lit =
    (let s = (if has_prefix lit ''-'' then tl lit else lit);
         m = takeWhile (\<lambda>c. c \<noteq> CHR ''e'' \<and> c \<noteq> CHR ''E'') s;
         e = drop (Suc (length m)) s;
         i = takeWhile (\<lambda>c. c \<noteq> CHR ''.'') m;
         f = drop (Suc (length i)) m;
         x = (case digits_from 0 (if has_prefix e ''-'' \<or> has_prefix e ''+'' then tl e else e) of
                Some n \<Rightarrow> if has_prefix e ''-'' then - n else n | None \<Rightarrow> 0)
     in (case digits_from 0 (i @ f) of Some n \<Rightarrow> n | None \<Rightarrow> 0, x - int (length f)))"

definition float_overflow :: "string \<Rightarrow> bool" where
  "float_overflow lit =
    (case number_parts lit of (m, x) \<Rightarrow>
       if 0 \<le> x then m \<noteq> 0 \<and> (309 < x \<or> 2 ^ 1024 - 2 ^ 970 \<le> m * 10 ^ nat x)
       else (2 ^ 1024 - 2 ^ 970) * 10 ^ nat (- x) \<le> m)"

text \<open>\<open>Unmarshal\<close> into a variable of type \<open>any\<close>; a repeated key keeps its last value. A number keeps its text,
  which stands for the \<open>float64\<close> it is read as: that two texts round to one float is not seen here.\<close>

fun decode_any :: "json \<Rightarrow> goany option" and
    decode_anys :: "json list \<Rightarrow> goany list option" and
    decode_members :: "(string \<times> json) list \<Rightarrow> (string \<times> goany) list \<Rightarrow> (string \<times> goany) list option"
where
  "decode_any JNull = Some ANil"
| "decode_any (JBool b) = Some (ABool b)"
| "decode_any (JNum n) = (if float_overflow n then None else Some (ANum n))"
| "decode_any (JStr s) = Some (AStr (unquote s))"
| "decode_any (JArr vs) = map_option ASlice (decode_anys vs)"
| "decode_any (JObj ms) = map_option AMap (decode_members ms [])"
| "decode_anys [] = Some []"
| "decode_anys (v # vs) =
    (case decode_any v of None \<Rightarrow> None | Some a \<Rightarrow> map_option ((#) a) (decode_anys vs))"
| "decode_members [] m = Some m"
| "decode_members ((k, v) # ms) m =
    (case decode_any v of None \<Rightarrow> None | Some a \<Rightarrow> decode_members ms (AList.update (unquote k) a m))"

text \<open>
  Decoders take the value the target holds before; \<open>null\<close> leaves it. \<open>None\<close> is a decoding error,
  after which the program discards what was decoded.
\<close>

type_synonym 'a decoder = "json \<Rightarrow> 'a \<Rightarrow> 'a option"

fun decode_string :: "string decoder" where
  "decode_string (JStr s) _ = Some (unquote s)"
| "decode_string JNull old = Some old"
| "decode_string _ _ = None"

fun decode_bool :: "bool decoder" where
  "decode_bool (JBool b) _ = Some b"
| "decode_bool JNull old = Some old"
| "decode_bool _ _ = None"

text \<open>An integer type with the values \<open>lo\<close> to \<open>hi\<close>.\<close>

fun decode_int :: "int \<Rightarrow> int \<Rightarrow> int decoder" where
  "decode_int lo hi (JNum n) _ =
    (case (if has_prefix n ''-'' then map_option uminus (digits_from 0 (tl n)) else digits_from 0 n) of
       Some i \<Rightarrow> if lo \<le> i \<and> i \<le> hi then Some i else None
     | None \<Rightarrow> None)"
| "decode_int lo hi JNull old = Some old"
| "decode_int lo hi _ _ = None"

definition decode_int64 :: "int decoder" where
  "decode_int64 = decode_int (- (2 ^ 63)) (2 ^ 63 - 1)"

definition decode_any_at :: "goany decoder" where
  "decode_any_at v _ = decode_any v"

fun decode_elements :: "'a decoder \<Rightarrow> 'a \<Rightarrow> json list \<Rightarrow> 'a list option" where
  "decode_elements d z [] = Some []"
| "decode_elements d z (v # vs) =
    (case d v z of None \<Rightarrow> None | Some a \<Rightarrow> map_option ((#) a) (decode_elements d z vs))"

text \<open>A slice whose elements start as \<open>z\<close>; \<open>null\<close> makes it nil.\<close>

fun decode_slice :: "'a decoder \<Rightarrow> 'a \<Rightarrow> 'a list decoder" where
  "decode_slice d z (JArr vs) _ = decode_elements d z vs"
| "decode_slice d z JNull _ = Some []"
| "decode_slice d z _ _ = None"

fun decode_entries :: "'a decoder \<Rightarrow> 'a \<Rightarrow> (string \<times> json) list \<Rightarrow> (string \<times> 'a) list \<Rightarrow> (string \<times> 'a) list option"
where
  "decode_entries d z [] m = Some m"
| "decode_entries d z ((k, v) # ms) m =
    (case d v z of None \<Rightarrow> None | Some a \<Rightarrow> decode_entries d z ms (AList.update (unquote k) a m))"

fun decode_map :: "'a decoder \<Rightarrow> 'a \<Rightarrow> (string \<times> 'a) list decoder" where
  "decode_map d z (JObj ms) m = decode_entries d z ms m"
| "decode_map d z JNull _ = Some []"
| "decode_map d z _ _ = None"

text \<open>
  A struct: the fields by name. A member goes to the field of exactly its name, else to the
  first field equal to it under case folding, in which U+017F folds to S and U+212A to K.
\<close>

definition fold_name :: "string \<Rightarrow> rune list" where
  "fold_name s = map (\<lambda>r. if 0x61 \<le> r \<and> r \<le> 0x7A then r - 0x20 else if r = 0x17F then 0x53
     else if r = 0x212A then 0x4B else r) (runes s)"

definition find_field :: "(string \<times> 'f) list \<Rightarrow> string \<Rightarrow> 'f option" where
  "find_field fs k = (case map_of fs k of
     Some f \<Rightarrow> Some f
   | None \<Rightarrow> map_option snd (find (\<lambda>(n, _). fold_name n = fold_name k) fs))"

fun decode_fields :: "bool \<Rightarrow> (string \<times> 'a decoder) list \<Rightarrow> (string \<times> json) list \<Rightarrow> 'a \<Rightarrow> 'a option" where
  "decode_fields strict fs [] s = Some s"
| "decode_fields strict fs ((k, v) # ms) s =
    (case find_field fs (unquote k) of
       None \<Rightarrow> if strict then None else decode_fields strict fs ms s
     | Some d \<Rightarrow> (case d v s of None \<Rightarrow> None | Some s' \<Rightarrow> decode_fields strict fs ms s'))"

fun decode_struct :: "bool \<Rightarrow> (string \<times> 'a decoder) list \<Rightarrow> 'a decoder" where
  "decode_struct strict fs (JObj ms) s = decode_fields strict fs ms s"
| "decode_struct strict fs JNull s = Some s"
| "decode_struct strict fs _ _ = None"

text \<open>The decoder of a struct field from the decoder of its type.\<close>

definition at_field :: "('s \<Rightarrow> 'a) \<Rightarrow> ('a \<Rightarrow> 's \<Rightarrow> 's) \<Rightarrow> 'a decoder \<Rightarrow> 's decoder" where
  "at_field get put d v s = map_option (\<lambda>a. put a s) (d v (get s))"

definition unmarshal :: "'a decoder \<Rightarrow> string \<Rightarrow> 'a \<Rightarrow> 'a option" where
  "unmarshal d s old = (case parse_json s of None \<Rightarrow> None | Some v \<Rightarrow> d v old)"

definition unmarshal_any :: "string \<Rightarrow> goany option" where
  "unmarshal_any s = unmarshal decode_any_at s ANil"

section \<open>Encoding\<close>

definition hex_digit :: "int \<Rightarrow> char" where
  "hex_digit d = byte_chr (if d < 10 then 0x30 + d else 0x57 + d)"

lemma hex_digit_value: "0 \<le> d \<Longrightarrow> d < 16 \<Longrightarrow> hex_value (hex_digit d) = Some d"
  by (auto simp: hex_value_def hex_digit_def byte_val_chr Let_def)

text \<open>\<open>hex.EncodeToString\<close>, which can be read back.\<close>

definition hex_encode :: "string \<Rightarrow> string" where
  "hex_encode s = concat (map (\<lambda>c. [hex_digit (byte_val c div 16), hex_digit (byte_val c mod 16)]) s)"

fun hex_decode :: "string \<Rightarrow> string option" where
  "hex_decode [] = Some []"
| "hex_decode [c] = None"
| "hex_decode (c # d # s) = (case (hex_value c, hex_value d, hex_decode s) of
     (Some a, Some b, Some r) \<Rightarrow> Some (byte_chr (16 * a + b) # r) | _ \<Rightarrow> None)"

lemma hex_roundtrip: "hex_decode (hex_encode s) = Some s"
proof (induction s)
  case (Cons c s)
  have c: "0 \<le> byte_val c div 16" "byte_val c div 16 < 16" "0 \<le> byte_val c mod 16" "byte_val c mod 16 < 16"
    using byte_val_range[of c] by (auto intro: div_int_pos_iff[THEN iffD2])
  then show ?case using Cons.IH by (simp add: hex_encode_def hex_digit_value)
qed (simp add: hex_encode_def)

lemma hex_encode_inject: "hex_encode s = hex_encode t \<longleftrightarrow> s = t"
  by (metis hex_roundtrip option.inject)

lemma length_hex_encode: "length (hex_encode s) = 2 * length s"
  by (induction s) (simp_all add: hex_encode_def)

definition u_escape :: "int \<Rightarrow> string" where
  "u_escape r = CHR 0x5C # CHR ''u'' #
     map hex_digit [r div 4096 mod 16, r div 256 mod 16, r div 16 mod 16, r mod 16]"

text \<open>\<open>appendString\<close> with HTML escaping, rune by rune.\<close>

definition escape_rune :: "rune \<Rightarrow> string" where
  "escape_rune r =
    (if r = 0x22 \<or> r = 0x5C then [CHR 0x5C, byte_chr r]
     else if r = 8 then [CHR 0x5C, CHR ''b''] else if r = 9 then [CHR 0x5C, CHR ''t'']
     else if r = 10 then [CHR 0x5C, CHR ''n''] else if r = 12 then [CHR 0x5C, CHR ''f'']
     else if r = 13 then [CHR 0x5C, CHR ''r'']
     else if r < 0x20 \<or> r = 0x3C \<or> r = 0x3E \<or> r = 0x26 \<or> r = 0x2028 \<or> r = 0x2029 then u_escape r
     else encode_rune r)"

text \<open>Invalid UTF-8 is written as the escape of the replacement rune.\<close>

function escape_string :: "string \<Rightarrow> string" where
  "escape_string s =
    (if s = [] then []
     else (if fst (decode_rune s) = rune_error \<and> snd (decode_rune s) = 1 then u_escape rune_error
           else escape_rune (fst (decode_rune s))) @ escape_string (drop (snd (decode_rune s)) s))"
  by pat_completeness auto
termination
proof (relation "measure length", goal_cases)
  case (2 s)
  then show ?case using decode_rune_width[of s] by simp
qed simp

declare escape_string.simps [simp del]

definition quote :: "string \<Rightarrow> string" where
  "quote s = [CHR 0x22] @ escape_string s @ [CHR 0x22]"

text \<open>Maps are written with their keys in byte order.\<close>

fun bytes_less_eq :: "string \<Rightarrow> string \<Rightarrow> bool" where
  "bytes_less_eq [] _ = True"
| "bytes_less_eq (_ # _) [] = False"
| "bytes_less_eq (c # cs) (d # ds) =
    (byte_val c < byte_val d \<or> (c = d \<and> bytes_less_eq cs ds))"

fun insert_key :: "string \<times> 'a \<Rightarrow> (string \<times> 'a) list \<Rightarrow> (string \<times> 'a) list" where
  "insert_key p [] = [p]"
| "insert_key p (q # qs) = (if bytes_less_eq (fst p) (fst q) then p # q # qs else q # insert_key p qs)"

definition sort_keys :: "(string \<times> 'a) list \<Rightarrow> (string \<times> 'a) list" where
  "sort_keys m = foldr insert_key m []"

fun marshal :: "goany \<Rightarrow> string" where
  "marshal ANil = ''null''"
| "marshal (ABool b) = (if b then ''true'' else ''false'')"
| "marshal (ANum n) = n"
| "marshal (AStr s) = quote s"
| "marshal (ASlice vs) = ''['' @ join '','' (map marshal vs) @ '']''"
| "marshal (AMap m) = [CHR 0x7B] @ join '','' (map (\<lambda>(k, t). quote k @ '':'' @ t)
     (sort_keys (map (\<lambda>(k, v). (k, marshal v)) m))) @ [CHR 0x7D]"

end
