(* ===== verification/GoHttp.thy ===== *)
theory GoHttp
  imports GoJson
begin

text \<open>
  What the program uses of \<open>net/http\<close>, \<open>net/url\<close> and \<open>io\<close>: requests and responses as records, the
  limited read of a body, query strings. The network is a remote (Prelude) that answers a
  request with a response or a transport error; \<open>url.Parse\<close> and \<open>URL.String\<close> are parameters.
\<close>

section \<open>Requests and responses\<close>

text \<open>
  Headers as \<open>Header.Set\<close> leaves them: one value for each canonical name.
\<close>

type_synonym headers = "(string \<times> string) list"

record http_request =
  Method :: string
  URL :: string
  ReqHeaders :: headers
  ReqBody :: string

text \<open>A body is the bytes it delivers and the error, if any, that comes after them.\<close>

record http_response =
  StatusCode :: int
  ContentTypeHeader :: string
  BodyBytes :: string
  BodyError :: "string option"

definition header_word_start :: "string \<Rightarrow> bool" where
  "header_word_start before = (before = [] \<or> last before = CHR ''-'')"

text \<open>
  \<open>textproto.CanonicalMIMEHeaderKey\<close>: unchanged unless every byte is a token byte; then the
  first letter of each part in upper case, the others in lower case.
\<close>

definition header_token_byte :: "char \<Rightarrow> bool" where
  "header_token_byte c =
    (let v = byte_val c in (0x30 \<le> v \<and> v \<le> 0x39) \<or> (0x41 \<le> v \<and> v \<le> 0x5A) \<or> (0x61 \<le> v \<and> v \<le> 0x7A)
      \<or> c \<in> set ([CHR ''!'', CHR ''#'', CHR ''$'', CHR ''%'', CHR ''&'', CHR 0x27, CHR ''*'', CHR ''+'',
        CHR ''-'', CHR ''.'', CHR ''^'', CHR ''_'', CHR 0x60, CHR ''|'', CHR 0x7E]))"

fun canonical_from :: "bool \<Rightarrow> string \<Rightarrow> string" where
  "canonical_from up [] = []"
| "canonical_from up (c # cs) =
    (if up then upper_byte c else lower_byte c) # canonical_from (c = CHR ''-'') cs"

definition canonical_header :: "string \<Rightarrow> string" where
  "canonical_header name = (if list_all header_token_byte name then canonical_from True name else name)"

definition set_header :: "string \<Rightarrow> string \<Rightarrow> headers \<Rightarrow> headers" where
  "set_header name value h = AList.update (canonical_header name) value h"

definition get_header :: "string \<Rightarrow> headers \<Rightarrow> string" where
  "get_header name h = (case map_of h (canonical_header name) of Some v \<Rightarrow> v | None \<Rightarrow> [])"

lemma get_set_header:
  "get_header n (set_header n' v h) = (if canonical_header n = canonical_header n' then v else get_header n h)"
  by (simp add: get_header_def set_header_def map_of_update_at)

text \<open>\<open>io.ReadAll(io.LimitReader(body, limit))\<close>: an error behind the limit is not seen.\<close>

definition read_limited :: "int \<Rightarrow> http_response \<Rightarrow> (string, string) result" where
  "read_limited limit resp =
    (if limit \<le> int (length (BodyBytes resp)) then Inr (take (nat limit) (BodyBytes resp))
     else (case BodyError resp of Some e \<Rightarrow> Inl e | None \<Rightarrow> Inr (BodyBytes resp)))"

lemma read_limited_length: "read_limited n resp = Inr d \<Longrightarrow> 0 \<le> n \<Longrightarrow> int (length d) \<le> n"
  by (auto simp: read_limited_def split: if_splits option.splits)

section \<open>Query strings\<close>

definition unreserved :: "char \<Rightarrow> bool" where
  "unreserved c =
    (let v = byte_val c in (0x30 \<le> v \<and> v \<le> 0x39) \<or> (0x41 \<le> v \<and> v \<le> 0x5A) \<or> (0x61 \<le> v \<and> v \<le> 0x7A)
      \<or> c = CHR ''-'' \<or> c = CHR ''_'' \<or> c = CHR ''.'' \<or> c = CHR 0x7E)"

definition upper_hex :: "int \<Rightarrow> char" where
  "upper_hex d = byte_chr (if d < 10 then 0x30 + d else 0x37 + d)"

definition escape_byte :: "char \<Rightarrow> string" where
  "escape_byte c =
    (if c = CHR '' '' then ''+'' else if unreserved c then [c]
     else [CHR ''%'', upper_hex (byte_val c div 16), upper_hex (byte_val c mod 16)])"

definition query_escape :: "string \<Rightarrow> string" where
  "query_escape s = concat (map escape_byte s)"

text \<open>\<open>url.Values\<close> with one value for each key, and its \<open>Encode\<close>: keys in byte order.\<close>

type_synonym url_values = "(string \<times> string) list"

definition encode_values :: "url_values \<Rightarrow> string" where
  "encode_values m = join ''&'' (map (\<lambda>(k, v). query_escape k @ ''='' @ query_escape v) (sort_keys m))"

text \<open>What the code reads of a parsed URL, and the two functions of the package.\<close>

record url =
  u_scheme :: string
  u_host :: string
  u_has_user :: bool
  u_path :: string
  u_raw_query :: string
  u_fragment :: string

record urls =
  url_parse :: "string \<Rightarrow> url option"
  url_string :: "url \<Rightarrow> string"

end
