(* ===== verification/Redaction.thy ===== *)
theory Redaction
  imports GoHttp
begin

text \<open>
  What the two HTTP callers, \<open>internal/testapi\<close> and \<open>internal/testbot\<close>, share: the allowlist check of
  the keys of a map, the length check of query values, and the contract of the function that
  redacts a decoded JSON response, as a locale that both interpret.
\<close>

section \<open>Allowlists\<close>

text \<open>
  \<open>validateKeys\<close>: the loop over a Go map stops at the first key that is not allowed; the list
  gives the order in which the map is visited.
\<close>

definition disallowed_key :: "string list \<Rightarrow> (string \<times> 'a) list \<Rightarrow> string option" where
  "disallowed_key allowed m = find (\<lambda>k. k \<notin> set allowed) (map fst m)"

lemma disallowed_key_None: "disallowed_key allowed m = None \<longleftrightarrow> fst ` set m \<subseteq> set allowed"
  by (auto simp: disallowed_key_def find_None_iff)

definition maxQueryValue :: nat where "maxQueryValue = 2048"

text \<open>
  The loop that sets the query values: it stops at the first value that is too long.
\<close>

fun set_values :: "(string \<times> string) list \<Rightarrow> url_values \<Rightarrow> (string, url_values) result" where
  "set_values [] vs = Inr vs"
| "set_values ((key, v) # rest) vs =
    (if maxQueryValue < length v then Inl key else set_values rest (AList.update key v vs))"

lemma set_values_keys:
  "set_values q vs = Inr vs' \<Longrightarrow> fst ` set vs' = fst ` set vs \<union> fst ` set q
    \<and> (distinct (map fst vs) \<longrightarrow> distinct (map fst vs'))"
proof (induction q arbitrary: vs)
  case (Cons e q)
  obtain k v where e: "e = (k, v)" by force
  then have "set_values q (AList.update k v vs) = Inr vs'" using Cons.prems by (simp split: if_splits)
  from Cons.IH[OF this] show ?case by (auto simp: e dom_update distinct_update)
qed simp

lemma set_values_at:
  "set_values q vs = Inr vs' \<Longrightarrow> distinct (map fst q) \<Longrightarrow>
    map_of vs' k = (case map_of q k of Some v \<Rightarrow> Some v | None \<Rightarrow> map_of vs k)"
proof (induction q arbitrary: vs)
  case (Cons e q)
  obtain a v where e: "e = (a, v)" by force
  then have "set_values q (AList.update a v vs) = Inr vs'" using Cons.prems by (simp split: if_splits)
  note IH = Cons.IH[OF this]
  have "map_of q a = None" using Cons.prems(2) by (simp add: e map_of_eq_None_iff)
  then show ?case using IH Cons.prems(2) by (auto simp: e map_of_update_at split: option.split)
qed simp

text \<open>The query of a URL: the one of \<open>URL.Query\<close>, empty for an empty raw query.\<close>

definition url_query :: "(string \<Rightarrow> url_values) \<Rightarrow> url \<Rightarrow> url_values" where
  "url_query parse_query u = (if u_raw_query u = [] then [] else parse_query (u_raw_query u))"

section \<open>Redaction of JSON\<close>

definition redacted :: string where "redacted = ''[REDACTED]''"

text \<open>\<open>strings.Contains(strings.ToLower(key), marker)\<close> for one of the markers.\<close>

definition secret_key :: "unicode \<Rightarrow> string list \<Rightarrow> string \<Rightarrow> bool" where
  "secret_key U markers key \<longleftrightarrow> list_ex (\<lambda>marker. contains (to_lower U key) marker) markers"

text \<open>No value stands under a secret key, at any depth.\<close>

fun clean :: "(string \<Rightarrow> bool) \<Rightarrow> goany \<Rightarrow> bool" where
  "clean secret (AMap m) \<longleftrightarrow>
     list_all (\<lambda>p. if secret (fst p) then snd p = AStr redacted else clean secret (snd p)) m"
| "clean secret (ASlice vs) \<longleftrightarrow> list_all (clean secret) vs"
| "clean secret _ \<longleftrightarrow> True"

text \<open>Two values that differ at most in what stands under secret keys.\<close>

inductive similar :: "(string \<Rightarrow> bool) \<Rightarrow> goany \<Rightarrow> goany \<Rightarrow> bool" for secret :: "string \<Rightarrow> bool" where
  same: "similar secret v v"
| slices: "list_all2 (similar secret) vs ws \<Longrightarrow> similar secret (ASlice vs) (ASlice ws)"
| maps: "list_all2 (\<lambda>p q. fst p = fst q \<and> (secret (fst p) \<or> similar secret (snd p) (snd q))) m n
    \<Longrightarrow> similar secret (AMap m) (AMap n)"

locale redactor =
  fixes secret :: "string \<Rightarrow> bool" and redact :: "goany \<Rightarrow> goany"
  assumes redact_map: "redact (AMap m) = AMap (map (\<lambda>(k, v). (k, if secret k then AStr redacted else redact v)) m)"
    and redact_slice: "redact (ASlice vs) = ASlice (map redact vs)"
    and redact_atom: "(\<forall>m. v \<noteq> AMap m) \<Longrightarrow> (\<forall>vs. v \<noteq> ASlice vs) \<Longrightarrow> redact v = v"
begin

lemma redact_clean: "clean secret (redact v)"
proof (induction v)
  case (AMap m)
  have "if secret k then redact' = AStr redacted else clean secret redact'"
    if "(k, v) \<in> set m" "redact' = (if secret k then AStr redacted else redact v)" for k v redact'
    using AMap[OF that(1), of v] that(2) by simp
  then show ?case by (auto simp: redact_map list_all_iff)
qed (auto simp: redact_atom redact_slice list_all_iff)

lemma clean_fixed: "clean secret v \<Longrightarrow> redact v = v"
proof (induction v)
  case (AMap m)
  have "(\<lambda>(k, v). (k, if secret k then AStr redacted else redact v)) p = p" if "p \<in> set m" for p
    using AMap.prems AMap.IH[of p "snd p"] that by (cases p) (auto simp: list_all_iff split: if_splits)
  then show ?case by (simp add: redact_map map_idI)
qed (auto simp: redact_atom redact_slice list_all_iff map_idI)

lemma redact_idem: "redact (redact v) = redact v"
  using redact_clean by (rule clean_fixed)

lemma redact_hides: "similar secret v w \<Longrightarrow> redact v = redact w"
proof (induction rule: similar.induct)
  case (slices vs ws)
  then have "map redact vs = map redact ws" by (induction rule: list_all2_induct) auto
  then show ?case by (simp add: redact_slice)
next
  case (maps m n)
  then have "map (\<lambda>(k, v). (k, if secret k then AStr redacted else redact v)) m
      = map (\<lambda>(k, v). (k, if secret k then AStr redacted else redact v)) n"
    by (induction rule: list_all2_induct) auto
  then show ?case by (simp add: redact_map)
qed simp

end

end
