(* ===== verification/TestBot.thy ===== *)
theory TestBot
  imports Redaction GoRegexp
begin

text \<open>
  \<open>internal/testbot\<close>: the configuration of the bot's endpoints, its login and the cached token,
  the calls with their signature and the retry after a refused token, and the redaction of what
  comes back. The state of the service is its token, its last signature timestamp and the
  session of requests and log lines.
\<close>

section \<open>Configuration\<close>

record BotEndpoint =
  be_Name :: string
  be_Path :: string
  be_Method :: string
  be_Encoding :: string
  be_Signed :: bool
  be_QueryKeys :: "string list"
  be_BodyFields :: "string list"
  be_Headers :: "(string \<times> string) list"
  be_SideEffect :: bool

record BotConfig =
  bc_BaseURL :: string
  bc_LoginPath :: string
  bc_LoginQuery :: "(string \<times> string) list"
  bc_Headers :: "(string \<times> string) list"
  bc_Endpoints :: "BotEndpoint list"
  bc_MaxResponseBytes :: int

definition zero_bot_endpoint :: BotEndpoint where
  "zero_bot_endpoint = \<lparr>be_Name = [], be_Path = [], be_Method = [], be_Encoding = [], be_Signed = False,
     be_QueryKeys = [], be_BodyFields = [], be_Headers = [], be_SideEffect = False\<rparr>"

definition zero_bot_config :: BotConfig where
  "zero_bot_config = \<lparr>bc_BaseURL = [], bc_LoginPath = [], bc_LoginQuery = [], bc_Headers = [], bc_Endpoints = [],
     bc_MaxResponseBytes = 0\<rparr>"

definition bot_endpoint_fields :: "(string \<times> BotEndpoint decoder) list" where
  "bot_endpoint_fields =
    [(''name'', at_field be_Name (\<lambda>v r. r\<lparr>be_Name := v\<rparr>) decode_string),
     (''path'', at_field be_Path (\<lambda>v r. r\<lparr>be_Path := v\<rparr>) decode_string),
     (''method'', at_field be_Method (\<lambda>v r. r\<lparr>be_Method := v\<rparr>) decode_string),
     (''encoding'', at_field be_Encoding (\<lambda>v r. r\<lparr>be_Encoding := v\<rparr>) decode_string),
     (''legacy_firewall_signing'', at_field be_Signed (\<lambda>v r. r\<lparr>be_Signed := v\<rparr>) decode_bool),
     (''allowed_query_keys'', at_field be_QueryKeys (\<lambda>v r. r\<lparr>be_QueryKeys := v\<rparr>) (decode_slice decode_string [])),
     (''allowed_body_fields'', at_field be_BodyFields (\<lambda>v r. r\<lparr>be_BodyFields := v\<rparr>) (decode_slice decode_string [])),
     (''headers'', at_field be_Headers (\<lambda>v r. r\<lparr>be_Headers := v\<rparr>) (decode_map decode_string [])),
     (''side_effect'', at_field be_SideEffect (\<lambda>v r. r\<lparr>be_SideEffect := v\<rparr>) decode_bool)]"

definition bot_config_fields :: "(string \<times> BotConfig decoder) list" where
  "bot_config_fields =
    [(''base_url'', at_field bc_BaseURL (\<lambda>v r. r\<lparr>bc_BaseURL := v\<rparr>) decode_string),
     (''login_path'', at_field bc_LoginPath (\<lambda>v r. r\<lparr>bc_LoginPath := v\<rparr>) decode_string),
     (''login_query'', at_field bc_LoginQuery (\<lambda>v r. r\<lparr>bc_LoginQuery := v\<rparr>) (decode_map decode_string [])),
     (''headers'', at_field bc_Headers (\<lambda>v r. r\<lparr>bc_Headers := v\<rparr>) (decode_map decode_string [])),
     (''endpoints'', at_field bc_Endpoints (\<lambda>v r. r\<lparr>bc_Endpoints := v\<rparr>)
       (decode_slice (decode_struct True bot_endpoint_fields) zero_bot_endpoint)),
     (''max_response_bytes'', at_field bc_MaxResponseBytes (\<lambda>v r. r\<lparr>bc_MaxResponseBytes := v\<rparr>) decode_int64)]"

definition decode_bot_config :: "string \<Rightarrow> BotConfig option" where
  "decode_bot_config data = (case parse_first data of
     None \<Rightarrow> None | Some v \<Rightarrow> decode_struct True bot_config_fields v zero_bot_config)"

datatype bot_config_error =
    BotConfigNotRead string
  | BotConfigNotDecoded
  | BaseURLInvalid
  | PathNotAbsolute string
  | PathInvalid string
  | BotMaxResponseRange
  | NoBotEndpoint
  | BotEndpointName string
  | BotEndpointDuplicate string
  | BotEndpointBody string string
  | BotEndpointMethod string
  | BotEndpointEncoding string
  | HeaderNewline string
  | HeaderForbidden string
  | InEndpoint string bot_config_error

definition base_url_bad :: "url option \<Rightarrow> bool" where
  "base_url_bad parsed = (case parsed of
     None \<Rightarrow> True
   | Some p \<Rightarrow> (u_scheme p \<noteq> ''http'' \<and> u_scheme p \<noteq> ''https'') \<or> u_host p = [] \<or> u_has_user p
       \<or> u_raw_query p \<noteq> [] \<or> u_fragment p \<noteq> [])"

definition validatePath :: "urls \<Rightarrow> string \<Rightarrow> string \<Rightarrow> (bot_config_error, unit) result" where
  "validatePath W path field =
    guard_err (path = [] \<or> \<not> has_prefix path ''/'' \<or> has_prefix path ''//'') (PathNotAbsolute field) (
    guard_err (case url_parse W path of
        None \<Rightarrow> True
      | Some p \<Rightarrow> u_scheme p \<noteq> [] \<or> u_host p \<noteq> [] \<or> u_raw_query p \<noteq> [] \<or> u_fragment p \<noteq> []) (PathInvalid field)
    ok)"

definition managed_headers :: "string list" where
  "managed_headers = [''user-token'', ''authorization'', ''cookie'', ''host'', ''content-length'']"

definition line_breaks :: string where "line_breaks = [CHR 0x0D, CHR 0x0A]"

fun validateHeaders :: "unicode \<Rightarrow> (string \<times> string) list \<Rightarrow> (bot_config_error, unit) result" where
  "validateHeaders U [] = ok"
| "validateHeaders U ((name, v) # rest) =
    guard_err (contains_any name line_breaks \<or> contains_any v line_breaks) (HeaderNewline name) (
    guard_err (to_lower U (trim_space name) \<in> set managed_headers) (HeaderForbidden name) (
    validateHeaders U rest))"

definition normalize_bot_endpoint :: "unicode \<Rightarrow> BotEndpoint \<Rightarrow> BotEndpoint" where
  "normalize_bot_endpoint U ep =
    (let encoding = to_lower U (trim_space (be_Encoding ep)) in
     ep\<lparr>be_Name := trim_space (be_Name ep), be_Method := to_upper U (trim_space (be_Method ep)),
        be_Encoding := (if encoding = [] then ''json'' else encoding)\<rparr>)"

definition check_bot_method :: "BotEndpoint \<Rightarrow> (bot_config_error, unit) result" where
  "check_bot_method ep =
    (if be_Method ep = ''GET'' \<or> be_Method ep = ''HEAD'' then
       guard_err (be_BodyFields ep \<noteq> []) (BotEndpointBody (be_Name ep) (be_Method ep)) ok
     else guard_err (be_Method ep \<noteq> ''POST'') (BotEndpointMethod (be_Name ep)) ok)"

definition check_bot_endpoint :: "unicode \<Rightarrow> urls \<Rightarrow> string list \<Rightarrow> BotEndpoint \<Rightarrow> (bot_config_error, unit) result" where
  "check_bot_endpoint U W seen ep =
    guard_err (be_Name ep = [] \<or> contains_any (be_Name ep) ('' /'' @ [CHR 0x5C])) (BotEndpointName (be_Name ep)) (
    guard_err (be_Name ep \<in> set seen) (BotEndpointDuplicate (be_Name ep)) (
    bind_err (InEndpoint (be_Name ep)) (validatePath W (be_Path ep) ''endpoint path'') (\<lambda>_.
    bind_err id (check_bot_method ep) (\<lambda>_.
    guard_err (be_Encoding ep \<noteq> ''json'' \<and> be_Encoding ep \<noteq> ''form'') (BotEndpointEncoding (be_Name ep)) (
    bind_err (InEndpoint (be_Name ep)) (validateHeaders U (be_Headers ep)) (\<lambda>_. ok))))))"

fun check_bot_endpoints :: "unicode \<Rightarrow> urls \<Rightarrow> string list \<Rightarrow> BotEndpoint list
    \<Rightarrow> (bot_config_error, BotEndpoint list) result" where
  "check_bot_endpoints U W seen [] = Inr []"
| "check_bot_endpoints U W seen (ep0 # rest) =
    (let ep = normalize_bot_endpoint U ep0 in
     bind_err id (check_bot_endpoint U W seen ep) (\<lambda>_.
     bind_err id (check_bot_endpoints U W (be_Name ep # seen) rest) (\<lambda>eps. Inr (ep # eps))))"

text \<open>\<open>strings.TrimRight(s, "/")\<close>.\<close>

definition trim_right_slashes :: "string \<Rightarrow> string" where
  "trim_right_slashes s = rev (dropWhile (\<lambda>c. c = CHR ''/'') (rev s))"

definition bot_default_max :: "BotConfig \<Rightarrow> BotConfig" where
  "bot_default_max config =
    (if bc_MaxResponseBytes config = 0 then config\<lparr>bc_MaxResponseBytes := 524288\<rparr> else config)"

definition LoadBotConfig :: "unicode \<Rightarrow> urls \<Rightarrow> (string, string) result \<Rightarrow> (bot_config_error, BotConfig) result" where
  "LoadBotConfig U W file =
    bind_err BotConfigNotRead file (\<lambda>data.
    (case decode_bot_config data of
       None \<Rightarrow> Inl BotConfigNotDecoded
     | Some config0 \<Rightarrow>
       (let config1 = config0\<lparr>bc_BaseURL := trim_right_slashes (trim_space (bc_BaseURL config0))\<rparr> in
        guard_err (base_url_bad (url_parse W (bc_BaseURL config1))) BaseURLInvalid (
        bind_err id (validatePath W (bc_LoginPath config1) ''login_path'') (\<lambda>_.
        let config = bot_default_max config1 in
        guard_err (bc_MaxResponseBytes config < 1024 \<or> 2097152 < bc_MaxResponseBytes config) BotMaxResponseRange (
        guard_err (bc_Endpoints config = []) NoBotEndpoint (
        bind_err id (check_bot_endpoints U W [] (bc_Endpoints config)) (\<lambda>eps.
        bind_err id (validateHeaders U (bc_Headers config)) (\<lambda>_.
        Inr (config\<lparr>bc_Endpoints := eps\<rparr>))))))))))"

section \<open>The service\<close>

record Credentials =
  Area :: string
  Mobile :: string
  BotPassword :: string

record BotService =
  bs_config :: BotConfig
  bs_logger :: bool
  bs_endpoints :: "(string \<times> BotEndpoint) list"
  bs_creds :: Credentials

datatype new_bot_error = BotClientRequired | CredentialsRequired

definition NewBotService :: "BotConfig \<Rightarrow> Credentials \<Rightarrow> bool \<Rightarrow> bool \<Rightarrow> (new_bot_error, BotService) result" where
  "NewBotService config creds0 client logger =
    guard_err (\<not> client) BotClientRequired (
    let creds = creds0\<lparr>Area := trim_space (Area creds0), Mobile := trim_space (Mobile creds0)\<rparr> in
    guard_err (Area creds = [] \<or> Mobile creds = [] \<or> BotPassword creds = []) CredentialsRequired (
    Inr \<lparr>bs_config = config, bs_logger = logger,
         bs_endpoints = fold (\<lambda>ep. AList.update (be_Name ep) ep) (bc_Endpoints config) [], bs_creds = creds\<rparr>))"

record EndpointInfo =
  ei_Name :: string
  ei_Method :: string
  ei_SideEffect :: bool

text \<open>\<open>List\<close>: sorted by name; the names are the keys of a map, so no two are equal.\<close>

definition Bot_List :: "BotService \<Rightarrow> EndpointInfo list" where
  "Bot_List s = map snd (sort_keys (map (\<lambda>(n, ep).
     (be_Name ep, \<lparr>ei_Name = be_Name ep, ei_Method = be_Method ep, ei_SideEffect = be_SideEffect ep\<rparr>)) (bs_endpoints s)))"

record BotCallInput =
  bi_Endpoint :: string
  bi_Query :: "(string \<times> string) list"
  bi_Body :: "(string \<times> string) list option"
  bi_Confirm :: bool

record BotCallOutput =
  bo_Endpoint :: string
  bo_RequestID :: string
  bo_StatusCode :: int
  bo_ContentType :: string
  bo_Body :: goany
  bo_ElapsedMS :: int
  bo_Truncated :: bool

datatype bot_log =
    LoginLog int string int
  | CallLog string string bool int string string nat bool int

text \<open>\<open>readLimited\<close> fails on a body above the limit, \<open>readLimitedWithTruncation\<close> cuts it.\<close>

definition readLimitedWithTruncation :: "http_response \<Rightarrow> int \<Rightarrow> (string, string \<times> bool) result" where
  "readLimitedWithTruncation resp limit =
    bind_err id (read_limited (limit + 1) resp) (\<lambda>data.
    let truncated = limit < int (length data)
    in Inr (if truncated then take (nat limit) data else data, truncated))"

datatype read_error = BodyNotRead string | BodyTooLarge

definition readLimited :: "http_response \<Rightarrow> int \<Rightarrow> (read_error, string) result" where
  "readLimited resp limit =
    bind_err BodyNotRead (readLimitedWithTruncation resp limit) (\<lambda>(data, truncated).
    guard_err truncated BodyTooLarge (Inr data))"

datatype bot_error =
    UnknownBotEndpoint string
  | SideEffectNotConfirmed string
  | BotQueryNotAllowed string
  | BotBodyNotAllowed string
  | URLNotBuilt
  | BotQueryTooLong string
  | LoginNotCreated
  | LoginCallFailed string
  | LoginNotRead read_error
  | LoginNotDecoded
  | LoginRefused int
  | BotBodyNotAccepted string
  | BotBodyTooLarge
  | BotRequestNotCreated
  | BotCallFailed string
  | BotNotRead string

text \<open>
  What the service takes from outside: the tables, the URL package, the digests
  \<open>sha1\<close>, \<open>md5\<close> and \<open>sha256\<close>, and, for the n-th request, the clock's seconds and nanoseconds, eight random bytes
  (or none) and the measured duration.
\<close>

record bot_world =
  bw_unicode :: unicode
  bw_urls :: urls
  bw_query :: "string \<Rightarrow> url_values"
  bw_sha1 :: "string \<Rightarrow> string"
  bw_md5 :: "string \<Rightarrow> string"
  bw_sha256 :: "string \<Rightarrow> string"
  bw_now :: "nat \<Rightarrow> int"
  bw_random :: "nat \<Rightarrow> string option"
  bw_nanos :: "nat \<Rightarrow> int"
  bw_elapsed :: "nat \<Rightarrow> int"

definition sha1Hex :: "bot_world \<Rightarrow> string \<Rightarrow> string" where
  "sha1Hex W v = hex_encode (bw_sha1 W v)"

definition tokenFingerprint :: "bot_world \<Rightarrow> string \<Rightarrow> string" where
  "tokenFingerprint W token = hex_encode (take 4 (bw_sha256 W token))"

definition newRequestID :: "bot_world \<Rightarrow> nat \<Rightarrow> string" where
  "newRequestID W n = ''tb-'' @ hex_encode (case bw_random W n of
     Some raw \<Rightarrow> raw | None \<Rightarrow> take 8 (bw_sha256 W (itoa (bw_nanos W n))))"

record bot_state =
  b_token :: string
  b_lastSign :: int
  b_session :: "(http_request, bot_log) session"

type_synonym net = "(http_request, string, http_response) remote"

definition bot_maxRequestBody :: nat where "bot_maxRequestBody = 65536"

definition buildURL :: "bot_world \<Rightarrow> BotConfig \<Rightarrow> string \<Rightarrow> (string \<times> string) list \<Rightarrow> (bot_error, string) result" where
  "buildURL W config path query =
    (case url_parse (bw_urls W) (bc_BaseURL config @ path) of
       None \<Rightarrow> Inl URLNotBuilt
     | Some parsed \<Rightarrow>
       bind_err BotQueryTooLong (set_values query (url_query (bw_query W) parsed)) (\<lambda>vs.
       Inr (url_string (bw_urls W) (parsed\<lparr>u_raw_query := encode_values vs\<rparr>))))"

definition applyHeaders :: "(string \<times> string) list \<Rightarrow> headers \<Rightarrow> headers" where
  "applyHeaders hs h = fold (\<lambda>(name, v). set_header name v) hs h"

text \<open>The body and its content type (empty: no header).\<close>

definition encodeBody :: "BotEndpoint \<Rightarrow> (string \<times> string) list option \<Rightarrow> (bot_error, string \<times> string) result" where
  "encodeBody ep body =
    (if be_Method ep \<noteq> ''POST'' then
       guard_err (body \<noteq> None \<and> body \<noteq> Some []) (BotBodyNotAccepted (be_Name ep)) (Inr ([], []))
     else if be_Encoding ep = ''form'' then
       (let encoded = encode_values (case body of None \<Rightarrow> [] | Some m \<Rightarrow> m) in
        guard_err (bot_maxRequestBody < length encoded) BotBodyTooLarge
          (Inr (encoded, ''application/x-www-form-urlencoded'')))
     else
       (let encoded = (case body of None \<Rightarrow> marshal ANil | Some m \<Rightarrow> marshal (AMap (map (\<lambda>(k, v). (k, AStr v)) m))) in
        guard_err (bot_maxRequestBody < length encoded) BotBodyTooLarge (Inr (encoded, ''application/json''))))"

section \<open>The login\<close>

record login_payload =
  lp_Success :: bool
  lp_Token :: string
  lp_UID :: int

definition login_data_fields :: "(string \<times> login_payload decoder) list" where
  "login_data_fields =
    [(''token'', at_field lp_Token (\<lambda>v r. r\<lparr>lp_Token := v\<rparr>) decode_string),
     (''uid'', at_field lp_UID (\<lambda>v r. r\<lparr>lp_UID := v\<rparr>) (decode_int 0 (2 ^ 32 - 1)))]"

definition login_fields :: "(string \<times> login_payload decoder) list" where
  "login_fields =
    [(''success'', at_field lp_Success (\<lambda>v r. r\<lparr>lp_Success := v\<rparr>) decode_bool),
     (''data'', decode_struct False login_data_fields)]"

definition login_form :: "bot_world \<Rightarrow> Credentials \<Rightarrow> string" where
  "login_form W c = encode_values
    [(''area'', Area c), (''mobile'', Mobile c), (''password'', sha1Hex W (BotPassword c))]"

definition login_request :: "bot_world \<Rightarrow> BotService \<Rightarrow> (bot_error, http_request) result" where
  "login_request W s =
    bind_err id (buildURL W (bs_config s) (bc_LoginPath (bs_config s)) (bc_LoginQuery (bs_config s))) (\<lambda>loginURL.
    guard_err (url_parse (bw_urls W) loginURL = None) LoginNotCreated (
    Inr \<lparr>Method = ''POST'', URL = loginURL,
         ReqHeaders = set_header ''Content-Type'' ''application/x-www-form-urlencoded'' (applyHeaders (bc_Headers (bs_config s)) []),
         ReqBody = login_form W (bs_creds s)\<rparr>))"

definition login_token :: "BotConfig \<Rightarrow> http_response \<Rightarrow> (bot_error, string \<times> int) result" where
  "login_token config resp =
    bind_err LoginNotRead (readLimited resp (bc_MaxResponseBytes config)) (\<lambda>data.
    (case unmarshal (decode_struct False login_fields) data \<lparr>lp_Success = False, lp_Token = [], lp_UID = 0\<rparr> of
       None \<Rightarrow> Inl LoginNotDecoded
     | Some payload \<Rightarrow>
       guard_err (StatusCode resp < 200 \<or> 300 \<le> StatusCode resp \<or> \<not> lp_Success payload \<or> lp_Token payload = [])
         (LoginRefused (StatusCode resp)) (Inr (lp_Token payload, lp_UID payload))))"

definition send_bot :: "net \<Rightarrow> http_request \<Rightarrow> bot_state \<Rightarrow> (string, http_response) result \<times> bot_state" where
  "send_bot net req b = (case send net req (b_session b) of (r, st) \<Rightarrow> (r, b\<lparr>b_session := st\<rparr>))"

definition log_bot :: "bool \<Rightarrow> bot_log \<Rightarrow> bot_state \<Rightarrow> bot_state" where
  "log_bot on line b = b\<lparr>b_session := write_log on line (b_session b)\<rparr>"

definition request_count :: "bot_state \<Rightarrow> nat" where
  "request_count b = length (sent (b_session b))"

definition login :: "bot_world \<Rightarrow> BotService \<Rightarrow> net \<Rightarrow> bool \<Rightarrow> bot_state \<Rightarrow> (bot_error, string) result \<times> bot_state" where
  "login W s net force b =
    (if b_token b \<noteq> [] \<and> \<not> force then (Inr (b_token b), b)
     else (case login_request W s of
       Inl e \<Rightarrow> (Inl e, b)
     | Inr req \<Rightarrow>
       (case send_bot net req b of
          (Inl e, b1) \<Rightarrow> (Inl (LoginCallFailed e), b1)
        | (Inr resp, b1) \<Rightarrow>
          (case login_token (bs_config s) resp of
             Inl e \<Rightarrow> (Inl e, b1)
           | Inr (token, uid) \<Rightarrow>
             (Inr token, log_bot (bs_logger s)
                (LoginLog uid (tokenFingerprint W token) (bw_elapsed W (request_count b))) (b1\<lparr>b_token := token\<rparr>))))))"

section \<open>The signature\<close>

definition legacyFirewallSignSuffix :: string where "legacyFirewallSignSuffix = ''!rilegoule#''"

definition legacyFirewallSignFields :: "string list" where
  "legacyFirewallSignFields =
    [''_abi'', ''_index'', ''_ipv'', ''_model'', ''_platform'', ''_timestamp'', ''format'', ''package'']"

definition sign_part :: "(string \<times> string) list \<Rightarrow> string \<Rightarrow> string option" where
  "sign_part query key = (case map_of query key of
     Some v \<Rightarrow> Some (key @ ''='' @ v)
   | None \<Rightarrow> if key = ''format'' then None else Some (key @ ''=''))"

definition legacyFirewallSign :: "bot_world \<Rightarrow> (string \<times> string) list \<Rightarrow> string" where
  "legacyFirewallSign W query =
    hex_encode (bw_md5 W (join ''&'' (List.map_filter (sign_part query) legacyFirewallSignFields) @ legacyFirewallSignSuffix))"

text \<open>\<open>lastSignTimestamp\<close> is an \<open>int64\<close> of seconds; it is at most the clock plus the number of signatures, far below the
  width, so that it is an \<open>int\<close> here.\<close>

definition next_timestamp :: "int \<Rightarrow> int \<Rightarrow> int" where
  "next_timestamp now previous = (if now \<le> previous then previous + 1 else now)"

definition merge_map :: "(string \<times> string) list \<Rightarrow> (string \<times> string) list \<Rightarrow> (string \<times> string) list" where
  "merge_map m query = fold (\<lambda>(k, v). AList.update k v) m query"

definition legacySignedQuery :: "bot_world \<Rightarrow> BotConfig \<Rightarrow> int \<Rightarrow> (string \<times> string) list \<Rightarrow> (string \<times> string) list" where
  "legacySignedQuery W config timestamp input =
    (let query = AList.update ''_timestamp'' (itoa timestamp) (merge_map (bc_LoginQuery config) (merge_map input [])) in
     AList.update ''_sign'' (legacyFirewallSign W query) query)"

section \<open>The redaction\<close>

definition bot_markers :: "string list" where
  "bot_markers = [''password'', ''secret'', ''token'', ''cookie'', ''session'', ''mobile'', ''phone'']"

fun bot_redactJSON :: "unicode \<Rightarrow> goany \<Rightarrow> goany" where
  "bot_redactJSON U (AMap m) = AMap (map (\<lambda>(k, v).
     (k, if secret_key U bot_markers k then AStr redacted else bot_redactJSON U v)) m)"
| "bot_redactJSON U (ASlice vs) = ASlice (map (bot_redactJSON U) vs)"
| "bot_redactJSON U v = v"

definition quote_cls :: "char \<Rightarrow> bool" where "quote_cls c \<longleftrightarrow> c = CHR 0x22 \<or> c = CHR 0x27"

definition bot_separator :: "char \<Rightarrow> bool" where "bot_separator c \<longleftrightarrow> c = CHR '':'' \<or> c = CHR ''=''"

definition bot_secret_byte :: "char \<Rightarrow> bool" where
  "bot_secret_byte c \<longleftrightarrow> \<not> space_cls c \<and> \<not> quote_cls c \<and> c \<noteq> CHR '','' \<and> c \<noteq> CHR '';''"

definition token_re :: "string \<Rightarrow> re" where
  "token_re a = seqs [ci_lit a, Opt (lit ''_''), ci_lit ''token'']"

definition bot_textSecrets :: re where
  "bot_textSecrets = Cat
    (Grp 1 (seqs [alts [ci_lit ''authorization'', ci_lit ''user-token'', token_re ''access'', token_re ''refresh'',
        ci_lit ''password'', ci_lit ''passwd'', ci_lit ''secret'', ci_lit ''cookie'', ci_lit ''session''],
      Opt (Cls quote_cls), spaces, Cls bot_separator, spaces, Opt (Cls quote_cls)]))
    (Plus (Cls bot_secret_byte))"

definition bot_redact_text :: "string \<Rightarrow> string" where
  "bot_redact_text data = replace_all bot_textSecrets (\<lambda>cs. group 1 cs @ redacted) data"

definition redactResponse :: "unicode \<Rightarrow> string \<Rightarrow> string \<Rightarrow> bool \<Rightarrow> goany" where
  "redactResponse U data contentType truncated =
    (case (if contains (to_lower U contentType) ''json'' \<and> \<not> truncated then unmarshal_any data else None) of
       Some v \<Rightarrow> bot_redactJSON U v
     | None \<Rightarrow> AStr (bot_redact_text data))"

interpretation bot_redaction: redactor "secret_key U bot_markers" "bot_redactJSON U" for U
proof unfold_locales
  show "(\<forall>m. v \<noteq> AMap m) \<Longrightarrow> (\<forall>vs. v \<noteq> ASlice vs) \<Longrightarrow> bot_redactJSON U v = v" for v
    by (cases v) simp_all
qed simp_all

section \<open>The calls\<close>

definition endpoint_request :: "bot_world \<Rightarrow> BotService \<Rightarrow> BotEndpoint \<Rightarrow> (string \<times> string) list
    \<Rightarrow> (string \<times> string) list option \<Rightarrow> string \<Rightarrow> string \<Rightarrow> (bot_error, http_request) result" where
  "endpoint_request W s ep query body token requestID =
    bind_err id (buildURL W (bs_config s) (be_Path ep) query) (\<lambda>target.
    bind_err id (encodeBody ep body) (\<lambda>(encoded, contentType).
    guard_err (url_parse (bw_urls W) target = None) BotRequestNotCreated (
    let h = applyHeaders (be_Headers ep) (applyHeaders (bc_Headers (bs_config s)) []);
        h1 = set_header ''Accept'' ''application/json''
          (set_header ''X-TestBot-Request-ID'' requestID (set_header ''User-Token'' token h))
    in Inr \<lparr>Method = be_Method ep, URL = target,
            ReqHeaders = (if contentType \<noteq> [] then set_header ''Content-Type'' contentType h1 else h1), ReqBody = encoded\<rparr>)))"

definition endpoint_output :: "bot_world \<Rightarrow> BotConfig \<Rightarrow> BotEndpoint \<Rightarrow> string \<Rightarrow> int \<Rightarrow> http_response
    \<Rightarrow> (bot_error, BotCallOutput \<times> nat) result" where
  "endpoint_output W config ep requestID elapsed resp =
    bind_err BotNotRead (readLimitedWithTruncation resp (bc_MaxResponseBytes config)) (\<lambda>(data, truncated).
    Inr (\<lparr>bo_Endpoint = be_Name ep, bo_RequestID = requestID, bo_StatusCode = StatusCode resp,
             bo_ContentType = ContentTypeHeader resp,
             bo_Body = redactResponse (bw_unicode W) data (ContentTypeHeader resp) truncated,
             bo_ElapsedMS = elapsed, bo_Truncated = truncated\<rparr>, length data))"

text \<open>The timestamp is drawn and stored before the request is built.\<close>

definition callWithToken :: "bot_world \<Rightarrow> BotService \<Rightarrow> net \<Rightarrow> BotEndpoint \<Rightarrow> BotCallInput \<Rightarrow> string \<Rightarrow> bot_state
    \<Rightarrow> (bot_error, BotCallOutput) result \<times> bot_state" where
  "callWithToken W s net ep input token b =
    (let n = request_count b;
         timestamp = next_timestamp (bw_now W n) (b_lastSign b);
         query = (if be_Signed ep then legacySignedQuery W (bs_config s) timestamp (bi_Query input) else bi_Query input);
         b0 = (if be_Signed ep then b\<lparr>b_lastSign := timestamp\<rparr> else b)
     in case endpoint_request W s ep query (bi_Body input) token (newRequestID W n) of
          Inl e \<Rightarrow> (Inl e, b0)
        | Inr req \<Rightarrow>
          (case send_bot net req b0 of
             (Inl e, b1) \<Rightarrow> (Inl (BotCallFailed e), b1)
           | (Inr resp, b1) \<Rightarrow>
             (case endpoint_output W (bs_config s) ep (newRequestID W n) (bw_elapsed W n) resp of
                Inl e \<Rightarrow> (Inl e, b1)
              | Inr (output, bytes) \<Rightarrow>
                (Inr output, log_bot (bs_logger s)
                  (CallLog (be_Name ep) (be_Method ep) (be_SideEffect ep) (StatusCode resp) (newRequestID W n)
                    (tokenFingerprint W token) bytes (bo_Truncated output) (bw_elapsed W n)) b1))))"

text \<open>The guards of \<open>Call\<close>.\<close>

definition bot_validateKeys :: "string list \<Rightarrow> (string \<times> string) list \<Rightarrow> (string \<Rightarrow> bot_error) \<Rightarrow> (bot_error, unit) result" where
  "bot_validateKeys allowed values refusal = (case disallowed_key allowed values of Some key \<Rightarrow> Inl (refusal key) | None \<Rightarrow> ok)"

lemma bot_validateKeys_ok: "bot_validateKeys allowed values refusal = ok \<longleftrightarrow> fst ` set values \<subseteq> set allowed"
  by (auto simp: bot_validateKeys_def disallowed_key_None[symmetric] split: option.split)

definition check_call :: "BotService \<Rightarrow> BotCallInput \<Rightarrow> (bot_error, BotEndpoint) result" where
  "check_call s input =
    (case map_of (bs_endpoints s) (bi_Endpoint input) of
       None \<Rightarrow> Inl (UnknownBotEndpoint (bi_Endpoint input))
     | Some ep \<Rightarrow>
       guard_err (be_SideEffect ep \<and> \<not> bi_Confirm input) (SideEffectNotConfirmed (bi_Endpoint input)) (
       bind_err id (bot_validateKeys (be_QueryKeys ep) (bi_Query input) BotQueryNotAllowed) (\<lambda>_.
       bind_err id (bot_validateKeys (be_BodyFields ep) (case bi_Body input of None \<Rightarrow> [] | Some m \<Rightarrow> m) BotBodyNotAllowed) (\<lambda>_.
       Inr ep))))"

definition login_and_call :: "bot_world \<Rightarrow> BotService \<Rightarrow> net \<Rightarrow> bool \<Rightarrow> BotEndpoint \<Rightarrow> BotCallInput \<Rightarrow> bot_state
    \<Rightarrow> (bot_error, BotCallOutput) result \<times> bot_state" where
  "login_and_call W s net force ep input b =
    (case login W s net force b of
       (Inl e, b1) \<Rightarrow> (Inl e, b1)
     | (Inr token, b1) \<Rightarrow> callWithToken W s net ep input token b1)"

definition Bot_Call :: "bot_world \<Rightarrow> BotService \<Rightarrow> net \<Rightarrow> BotCallInput \<Rightarrow> bot_state
    \<Rightarrow> (bot_error, BotCallOutput) result \<times> bot_state" where
  "Bot_Call W s net input b =
    (case check_call s input of
       Inl e \<Rightarrow> (Inl e, b)
     | Inr ep \<Rightarrow>
       (case login_and_call W s net False ep input b of
          (Inl e, b1) \<Rightarrow> (Inl e, b1)
        | (Inr output, b1) \<Rightarrow>
          if bo_StatusCode output \<noteq> 401 \<and> bo_StatusCode output \<noteq> 403 then (Inr output, b1)
          else login_and_call W s net True ep input b1))"

section \<open>Facts\<close>

lemma send_bot_simps [simp]:
  "sent (b_session (snd (send_bot net req b))) = sent (b_session b) @ [req]"
  "b_lastSign (snd (send_bot net req b)) = b_lastSign b" "b_token (snd (send_bot net req b)) = b_token b"
  by (simp_all add: send_bot_def send_def)

lemma log_bot_simps [simp]:
  "sent (b_session (log_bot on l b)) = sent (b_session b)" "b_lastSign (log_bot on l b) = b_lastSign b"
  "b_token (log_bot on l b) = b_token b"
  by (simp_all add: log_bot_def)

lemma send_bot_sent: "send_bot net req b = (r, b') \<Longrightarrow> sent (b_session b') = sent (b_session b) @ [req] \<and> b_lastSign b' = b_lastSign b"
  by (metis send_bot_simps(1,2) snd_conv)

text \<open>A login sends at most its one request; the token it returns is not empty.\<close>

lemma login_spec:
  assumes "login W s net force b = (r, b')"
  shows "\<exists>rs. sent (b_session b') = sent (b_session b) @ rs \<and> length rs \<le> 1
      \<and> list_all (\<lambda>req. login_request W s = Inr req) rs"
    and "b_lastSign b' = b_lastSign b" and "r = Inr token \<Longrightarrow> token \<noteq> []"
proof -
  have "(\<exists>rs. sent (b_session b') = sent (b_session b) @ rs \<and> length rs \<le> 1
      \<and> list_all (\<lambda>req. login_request W s = Inr req) rs) \<and> b_lastSign b' = b_lastSign b \<and> (r = Inr token \<longrightarrow> token \<noteq> [])"
  proof (cases "b_token b \<noteq> [] \<and> \<not> force")
    case True
    then show ?thesis using assms by (auto simp: login_def)
  next
    case False
    show ?thesis
    proof (cases "login_request W s")
      case (Inl e)
      then show ?thesis using assms False by (auto simp: login_def)
    next
      case (Inr req)
      obtain x b1 where x: "send_bot net req b = (x, b1)" by force
      have "sent (b_session b') = sent (b_session b1) \<and> b_lastSign b' = b_lastSign b1 \<and> (r = Inr token \<longrightarrow> token \<noteq> [])"
      proof (cases x)
        case (Inl e)
        then show ?thesis using assms False \<open>login_request W s = Inr req\<close> x by (auto simp: login_def)
      next
        case (Inr resp)
        have "login_token (bs_config s) resp = Inr (t, u) \<Longrightarrow> t \<noteq> []" for t u
          by (auto simp: login_token_def split: option.splits)
        then show ?thesis using assms False \<open>login_request W s = Inr req\<close> x Inr
          by (auto simp: login_def split: sum.splits)
      qed
      then show ?thesis using send_bot_sent[OF x] Inr by (intro conjI exI[of _ "[req]"]) auto
    qed
  qed
  then show "\<exists>rs. sent (b_session b') = sent (b_session b) @ rs \<and> length rs \<le> 1
      \<and> list_all (\<lambda>req. login_request W s = Inr req) rs"
    "b_lastSign b' = b_lastSign b" "r = Inr token \<Longrightarrow> token \<noteq> []" by blast+
qed

definition call_query :: "bot_world \<Rightarrow> BotService \<Rightarrow> BotEndpoint \<Rightarrow> BotCallInput \<Rightarrow> int \<Rightarrow> (string \<times> string) list" where
  "call_query W s ep input timestamp =
    (if be_Signed ep then legacySignedQuery W (bs_config s) timestamp (bi_Query input) else bi_Query input)"

text \<open>A call sends at most one request; a signature moves the timestamp forward.\<close>

lemma callWithToken_spec:
  assumes "callWithToken W s net ep input token b = (r, b')"
  shows "\<exists>rs. sent (b_session b') = sent (b_session b) @ rs \<and> length rs \<le> 1
      \<and> list_all (\<lambda>req. \<exists>t i. endpoint_request W s ep (call_query W s ep input t) (bi_Body input) token i = Inr req) rs"
    and "if be_Signed ep then b_lastSign b < b_lastSign b' else b_lastSign b' = b_lastSign b"
proof -
  define n where "n = request_count b"
  define ts where "ts = next_timestamp (bw_now W n) (b_lastSign b)"
  define b0 where "b0 = (if be_Signed ep then b\<lparr>b_lastSign := ts\<rparr> else b)"
  have b0: "sent (b_session b0) = sent (b_session b)"
    "if be_Signed ep then b_lastSign b < b_lastSign b0 else b_lastSign b0 = b_lastSign b"
    by (auto simp: b0_def ts_def next_timestamp_def)
  have call: "callWithToken W s net ep input token b =
      (case endpoint_request W s ep (call_query W s ep input ts) (bi_Body input) token (newRequestID W n) of
          Inl e \<Rightarrow> (Inl e, b0)
        | Inr req \<Rightarrow>
          (case send_bot net req b0 of
             (Inl e, b1) \<Rightarrow> (Inl (BotCallFailed e), b1)
           | (Inr resp, b1) \<Rightarrow>
             (case endpoint_output W (bs_config s) ep (newRequestID W n) (bw_elapsed W n) resp of
                Inl e \<Rightarrow> (Inl e, b1)
              | Inr (output, bytes) \<Rightarrow>
                (Inr output, log_bot (bs_logger s)
                  (CallLog (be_Name ep) (be_Method ep) (be_SideEffect ep) (StatusCode resp) (newRequestID W n)
                    (tokenFingerprint W token) bytes (bo_Truncated output) (bw_elapsed W n)) b1))))"
    unfolding callWithToken_def Let_def n_def ts_def b0_def call_query_def by simp
  have "(\<exists>rs. sent (b_session b') = sent (b_session b0) @ rs \<and> length rs \<le> 1
      \<and> list_all (\<lambda>req. \<exists>t i. endpoint_request W s ep (call_query W s ep input t) (bi_Body input) token i = Inr req) rs)
    \<and> b_lastSign b' = b_lastSign b0"
  proof (cases "endpoint_request W s ep (call_query W s ep input ts) (bi_Body input) token (newRequestID W n)")
    case (Inl e)
    then show ?thesis using assms by (auto simp: call)
  next
    case (Inr req)
    obtain x b1 where x: "send_bot net req b0 = (x, b1)" by force
    have "sent (b_session b') = sent (b_session b1) \<and> b_lastSign b' = b_lastSign b1"
      using assms Inr x by (auto simp: call split: sum.splits)
    then show ?thesis using send_bot_sent[OF x] Inr by (intro conjI exI[of _ "[req]"]) auto
  qed
  then show "\<exists>rs. sent (b_session b') = sent (b_session b) @ rs \<and> length rs \<le> 1
      \<and> list_all (\<lambda>req. \<exists>t i. endpoint_request W s ep (call_query W s ep input t) (bi_Body input) token i = Inr req) rs"
    "if be_Signed ep then b_lastSign b < b_lastSign b' else b_lastSign b' = b_lastSign b"
    using b0 by auto
qed

text \<open>What may be sent for an endpoint with a token.\<close>

definition bot_keys :: "BotService \<Rightarrow> BotEndpoint \<Rightarrow> string set" where
  "bot_keys s ep = set (be_QueryKeys ep) \<union>
    (if be_Signed ep then fst ` set (bc_LoginQuery (bs_config s)) \<union> {''_timestamp'', ''_sign''} else {})"

definition bot_admitted :: "bot_world \<Rightarrow> BotService \<Rightarrow> BotEndpoint \<Rightarrow> string \<Rightarrow> http_request \<Rightarrow> bool" where
  "bot_admitted W s ep token req \<longleftrightarrow> Method req = be_Method ep
    \<and> get_header ''User-Token'' (ReqHeaders req) = token
    \<and> length (ReqBody req) \<le> bot_maxRequestBody \<and> (if be_Method ep \<noteq> ''POST'' then ReqBody req = [] else True)
    \<and> (\<exists>p q vs. url_parse (bw_urls W) (bc_BaseURL (bs_config s) @ be_Path ep) = Some p
        \<and> fst ` set q \<subseteq> bot_keys s ep \<and> set_values q (url_query (bw_query W) p) = Inr vs
        \<and> URL req = url_string (bw_urls W) (p\<lparr>u_raw_query := encode_values vs\<rparr>))"

lemma merge_map_keys: "fst ` set (merge_map m q) = fst ` set m \<union> fst ` set q"
  unfolding merge_map_def
proof (induction m arbitrary: q)
  case (Cons e m)
  show ?case by (cases e) (simp add: Cons dom_update)
qed simp

lemma signed_keys: "fst ` set (legacySignedQuery W config ts q) =
    fst ` set (bc_LoginQuery config) \<union> fst ` set q \<union> {''_timestamp'', ''_sign''}"
  by (simp add: legacySignedQuery_def Let_def dom_update merge_map_keys Un_assoc)

lemma canonical_names:
  "canonical_header ''User-Token'' \<noteq> canonical_header ''Accept''"
  "canonical_header ''User-Token'' \<noteq> canonical_header ''X-TestBot-Request-ID''"
  "canonical_header ''User-Token'' \<noteq> canonical_header ''Content-Type''"
  by code_simp+

lemma endpoint_request_admitted:
  assumes "endpoint_request W s ep (call_query W s ep input t) body token i = Inr req"
    and "fst ` set (bi_Query input) \<subseteq> set (be_QueryKeys ep)"
  shows "bot_admitted W s ep token req"
proof -
  obtain target encoded contentType where u: "buildURL W (bs_config s) (be_Path ep) (call_query W s ep input t) = Inr target"
    and e: "encodeBody ep body = Inr (encoded, contentType)"
    and r: "Method req = be_Method ep" "URL req = target" "ReqBody req = encoded"
      "get_header ''User-Token'' (ReqHeaders req) = token"
    using assms(1) canonical_names by (auto simp: endpoint_request_def Let_def get_set_header)
  obtain p vs where p: "url_parse (bw_urls W) (bc_BaseURL (bs_config s) @ be_Path ep) = Some p"
    "set_values (call_query W s ep input t) (url_query (bw_query W) p) = Inr vs"
    "target = url_string (bw_urls W) (p\<lparr>u_raw_query := encode_values vs\<rparr>)"
    using u by (auto simp: buildURL_def split: option.splits)
  have "fst ` set (call_query W s ep input t) \<subseteq> bot_keys s ep"
    using assms(2) by (auto simp: call_query_def signed_keys bot_keys_def)
  moreover have "length encoded \<le> bot_maxRequestBody \<and> (if be_Method ep \<noteq> ''POST'' then encoded = [] else True)"
    using e by (auto simp: encodeBody_def Let_def split: if_splits)
  ultimately show ?thesis using r p unfolding bot_admitted_def by metis
qed

lemma check_call_ok:
  assumes "check_call s input = Inr ep"
  shows "map_of (bs_endpoints s) (bi_Endpoint input) = Some ep" "fst ` set (bi_Query input) \<subseteq> set (be_QueryKeys ep)"
    "be_SideEffect ep \<longrightarrow> bi_Confirm input"
    "fst ` set (case bi_Body input of None \<Rightarrow> [] | Some m \<Rightarrow> m) \<subseteq> set (be_BodyFields ep)"
  using assms by (auto simp: check_call_def bot_validateKeys_ok split: option.splits)

lemma login_and_call_spec:
  assumes "login_and_call W s net force ep input b = (r, b')" "fst ` set (bi_Query input) \<subseteq> set (be_QueryKeys ep)"
  shows "\<exists>rs. sent (b_session b') = sent (b_session b) @ rs \<and> length rs \<le> 2
      \<and> list_all (\<lambda>req. login_request W s = Inr req \<or> (\<exists>token. token \<noteq> [] \<and> bot_admitted W s ep token req)) rs"
    and "b_lastSign b \<le> b_lastSign b'"
proof -
  obtain x b1 where l: "login W s net force b = (x, b1)" by force
  obtain rs where rs: "sent (b_session b1) = sent (b_session b) @ rs" "length rs \<le> 1"
    "list_all (\<lambda>req. login_request W s = Inr req) rs" using login_spec(1)[OF l] by blast
  have "(\<exists>rs. sent (b_session b') = sent (b_session b) @ rs \<and> length rs \<le> 2
      \<and> list_all (\<lambda>req. login_request W s = Inr req \<or> (\<exists>token. token \<noteq> [] \<and> bot_admitted W s ep token req)) rs)
    \<and> b_lastSign b \<le> b_lastSign b'"
  proof (cases x)
    case (Inl e)
    then show ?thesis using assms(1) l rs login_spec(2)[OF l]
      by (intro conjI exI[of _ rs]) (auto simp: login_and_call_def list_all_iff)
  next
    case (Inr token)
    then have c: "callWithToken W s net ep input token b1 = (r, b')" using assms(1) l by (simp add: login_and_call_def)
    obtain rs' where rs': "sent (b_session b') = sent (b_session b1) @ rs'" "length rs' \<le> 1"
      "list_all (\<lambda>req. \<exists>t i. endpoint_request W s ep (call_query W s ep input t) (bi_Body input) token i = Inr req) rs'"
      using callWithToken_spec(1)[OF c] by blast
    have "list_all (bot_admitted W s ep token) rs'"
      using rs'(3) endpoint_request_admitted[OF _ assms(2)] unfolding list_all_iff by blast
    moreover have "token \<noteq> []" using login_spec(3)[OF l Inr] .
    moreover have "b_lastSign b \<le> b_lastSign b'"
      using callWithToken_spec(2)[OF c] login_spec(2)[OF l] by (simp split: if_splits)
    ultimately show ?thesis using rs rs'(1,2)
      by (intro conjI exI[of _ "rs @ rs'"]) (auto simp: list_all_iff)
  qed
  then show "\<exists>rs. sent (b_session b') = sent (b_session b) @ rs \<and> length rs \<le> 2
      \<and> list_all (\<lambda>req. login_request W s = Inr req \<or> (\<exists>token. token \<noteq> [] \<and> bot_admitted W s ep token req)) rs"
    "b_lastSign b \<le> b_lastSign b'" by blast+
qed

text \<open>The service over time: the steps are its calls; the observation is the last signature timestamp.\<close>

definition bot_start :: "bot_state \<Rightarrow> bool" where
  "bot_start b \<longleftrightarrow> b_token b = [] \<and> b_lastSign b = 0 \<and> sent (b_session b) = []"

definition bot_step :: "bot_world \<Rightarrow> BotService \<Rightarrow> net \<Rightarrow> bot_state \<Rightarrow> bot_state \<Rightarrow> bool" where
  "bot_step W s net b b' \<longleftrightarrow> (\<exists>input. b' = snd (Bot_Call W s net input b))"

definition bot_request_ok :: "bot_world \<Rightarrow> BotService \<Rightarrow> http_request \<Rightarrow> bool" where
  "bot_request_ok W s req \<longleftrightarrow> login_request W s = Inr req
    \<or> (\<exists>n ep token. map_of (bs_endpoints s) n = Some ep \<and> token \<noteq> [] \<and> bot_admitted W s ep token req)"

lemma Bot_Call_spec:
  assumes "Bot_Call W s net input b = (r, b')"
  shows "case check_call s input of
      Inl e \<Rightarrow> r = Inl e \<and> b' = b
    | Inr ep \<Rightarrow> \<exists>rs. sent (b_session b') = sent (b_session b) @ rs \<and> length rs \<le> 4
        \<and> list_all (\<lambda>req. login_request W s = Inr req \<or> (\<exists>token. token \<noteq> [] \<and> bot_admitted W s ep token req)) rs
        \<and> b_lastSign b \<le> b_lastSign b'"
proof (cases "check_call s input")
  case (Inl e)
  then show ?thesis using assms by (simp add: Bot_Call_def)
next
  case (Inr ep)
  let ?ok = "\<lambda>req. login_request W s = Inr req \<or> (\<exists>token. token \<noteq> [] \<and> bot_admitted W s ep token req)"
  note keys = check_call_ok(2)[OF Inr]
  obtain x b1 where x: "login_and_call W s net False ep input b = (x, b1)" by force
  obtain rs where rs: "sent (b_session b1) = sent (b_session b) @ rs" "length rs \<le> 2" "list_all ?ok rs"
    using login_and_call_spec(1)[OF x keys] by blast
  note le = login_and_call_spec(2)[OF x keys]
  have "Bot_Call W s net input b = (x, b1) \<or> Bot_Call W s net input b = login_and_call W s net True ep input b1"
    unfolding Bot_Call_def Inr x sum.case prod.case by (simp split: sum.split)
  then consider "(r, b') = (x, b1)" | "login_and_call W s net True ep input b1 = (r, b')"
    unfolding assms by metis
  then show ?thesis
  proof cases
    case 1
    have "b' = b1" using 1 by simp
    moreover have "length rs \<le> 4" using rs(2) by simp
    ultimately show ?thesis using rs(1,3) le unfolding Inr sum.case by blast
  next
    case 2
    obtain rs' where rs': "sent (b_session b') = sent (b_session b1) @ rs'" "length rs' \<le> 2" "list_all ?ok rs'"
      using login_and_call_spec(1)[OF 2 keys] by blast
    have "sent (b_session b') = sent (b_session b) @ (rs @ rs')" "length (rs @ rs') \<le> 4" "list_all ?ok (rs @ rs')"
      "b_lastSign b \<le> b_lastSign b'"
      using rs rs' le login_and_call_spec(2)[OF 2 keys] by simp_all
    then show ?thesis unfolding Inr sum.case by blast
  qed
qed

lemma bot_step_spec:
  assumes "bot_step W s net b b'"
  shows "\<exists>rs. sent (b_session b') = sent (b_session b) @ rs \<and> list_all (bot_request_ok W s) rs"
    and "b_lastSign b \<le> b_lastSign b'"
proof -
  obtain input where "b' = snd (Bot_Call W s net input b)" using assms by (auto simp: bot_step_def)
  then obtain r where c: "Bot_Call W s net input b = (r, b')" by (metis prod.collapse)
  have "(\<exists>rs. sent (b_session b') = sent (b_session b) @ rs \<and> list_all (bot_request_ok W s) rs) \<and> b_lastSign b \<le> b_lastSign b'"
  proof (cases "check_call s input")
    case (Inl e)
    then show ?thesis using Bot_Call_spec[OF c] by simp
  next
    case (Inr ep)
    obtain rs where rs: "sent (b_session b') = sent (b_session b) @ rs" "b_lastSign b \<le> b_lastSign b'"
      "list_all (\<lambda>req. login_request W s = Inr req \<or> (\<exists>token. token \<noteq> [] \<and> bot_admitted W s ep token req)) rs"
      using Bot_Call_spec[OF c] unfolding Inr sum.case by blast
    have "list_all (bot_request_ok W s) rs"
      using rs(3) check_call_ok(1)[OF Inr] unfolding list_all_iff bot_request_ok_def by blast
    with rs(1,2) show ?thesis by blast
  qed
  then show "\<exists>rs. sent (b_session b') = sent (b_session b) @ rs \<and> list_all (bot_request_ok W s) rs"
    "b_lastSign b \<le> b_lastSign b'" by blast+
qed

interpretation bot: monotone_system bot_start "bot_step W s net" "\<lambda>b. list_all (bot_request_ok W s) (sent (b_session b))"
    "\<lambda>b (_ :: unit). b_lastSign b" for W s net
proof unfold_locales
  show "bot_start b \<Longrightarrow> list_all (bot_request_ok W s) (sent (b_session b))" for b by (simp add: bot_start_def)
  show "list_all (bot_request_ok W s) (sent (b_session b)) \<Longrightarrow> bot_step W s net b b' \<Longrightarrow>
      list_all (bot_request_ok W s) (sent (b_session b'))" for b b'
    using bot_step_spec(1)[of W s net b b'] by auto
  show "bot_step W s net b b' \<Longrightarrow> b_lastSign b \<le> b_lastSign b'" for b b'
    by (rule bot_step_spec(2))
qed

text \<open>The timestamps a sequence of calls signs with.\<close>

fun sign_history :: "bot_world \<Rightarrow> BotService \<Rightarrow> net \<Rightarrow> (BotEndpoint \<times> BotCallInput \<times> string) list \<Rightarrow> bot_state \<Rightarrow> int list" where
  "sign_history W s net [] b = []"
| "sign_history W s net ((ep, input, token) # calls) b =
    (let b' = snd (callWithToken W s net ep input token b) in
     (if be_Signed ep then [b_lastSign b'] else []) @ sign_history W s net calls b')"

lemma sign_history_above: "t \<in> set (sign_history W s net calls b) \<Longrightarrow> b_lastSign b < t"
proof (induction calls arbitrary: b)
  case (Cons c calls)
  obtain ep input token where c: "c = (ep, input, token)" by (cases c)
  obtain r b' where b': "callWithToken W s net ep input token b = (r, b')" by force
  show ?case using Cons.prems Cons.IH[of b'] callWithToken_spec(2)[OF b']
    by (auto simp: c b' Let_def split: if_splits)
qed simp

lemma merge_map_at: "distinct (map fst m) \<Longrightarrow>
    map_of (merge_map m q) k = (case map_of m k of Some v \<Rightarrow> Some v | None \<Rightarrow> map_of q k)"
  unfolding merge_map_def
proof (induction m arbitrary: q)
  case (Cons e m)
  obtain a v where e: "e = (a, v)" by force
  have "map_of m a = None" using Cons.prems by (simp add: e map_of_eq_None_iff)
  then show ?case using Cons.IH[of "AList.update a v q"] Cons.prems
    by (auto simp: e map_of_update_at split: option.split)
qed simp

section \<open>Properties\<close>

text \<open>C9: A call of the bot either is refused by its guards, and then nothing is sent and the state stays, or
  it names a configured endpoint, confirms it if it has a side effect, uses allowlisted query keys
  and body fields only, and sends at most four requests: logins, and requests of the endpoint, each
  with one \<open>User-Token\<close>, which is not empty, with query keys of the allowlist (and, when
  signed, the keys of the identity and the signature), and a bounded body for POST alone.\<close>

theorem bot_call_requests:
  "case Bot_Call W s net input b of (r, b') \<Rightarrow>
    (case check_call s input of
      Inl e \<Rightarrow> r = Inl e \<and> b' = b
    | Inr ep \<Rightarrow> map_of (bs_endpoints s) (bi_Endpoint input) = Some ep
        \<and> (if be_SideEffect ep then bi_Confirm input else True)
        \<and> fst ` set (bi_Query input) \<subseteq> set (be_QueryKeys ep)
        \<and> fst ` set (case bi_Body input of None \<Rightarrow> [] | Some m \<Rightarrow> m) \<subseteq> set (be_BodyFields ep)
        \<and> (\<exists>rs. sent (b_session b') = sent (b_session b) @ rs \<and> length rs \<le> 4
          \<and> list_all (\<lambda>req. login_request W s = Inr req \<or> (\<exists>token. token \<noteq> [] \<and> bot_admitted W s ep token req)) rs))"
proof -
  obtain r b' where c: "Bot_Call W s net input b = (r, b')" by force
  show ?thesis
  proof (cases "check_call s input")
    case (Inl e)
    then show ?thesis using Bot_Call_spec[OF c] unfolding c prod.case by simp
  next
    case (Inr ep)
    show ?thesis using Bot_Call_spec[OF c] check_call_ok[OF Inr] unfolding c prod.case Inr sum.case by auto
  qed
qed

text \<open>Whatever calls the bot has served, every request it has ever sent is its login or an admitted
  request of a configured endpoint, and its signature clock has not gone back.\<close>

theorem bot_session_safe:
  assumes "reach bot_start (bot_step W s net) b" "(bot_step W s net)\<^sup>*\<^sup>* b b'"
  shows "list_all (bot_request_ok W s) (sent (b_session b')) \<and> b_lastSign b \<le> b_lastSign b'"
  using bot.reach_steps_inv[OF assms(2) bot.reach_inv[OF assms(1)]] bot.steps_mono[OF assms(2) bot.reach_inv[OF assms(1)]]
  by blast

text \<open>The timestamps of the signatures are strictly increasing over every sequence of calls, whatever the
  clock shows (stopped, or set back), so no two signed requests carry the same one.\<close>

theorem sign_timestamps_increase:
  "sorted_wrt (<) (b_lastSign b # sign_history W s net calls b)"
proof (induction calls arbitrary: b)
  case (Cons c calls)
  obtain ep input token where c: "c = (ep, input, token)" by (cases c)
  obtain r b' where b': "callWithToken W s net ep input token b = (r, b')" by force
  show ?case using Cons.IH[of b'] callWithToken_spec(2)[OF b']
    by (fastforce simp: c b' Let_def split: if_splits)
qed simp

text \<open>The configured identity wins over what the caller gives: in a signed query the timestamp and the
  signature are the service's, then come the configured values, then the caller's.\<close>

theorem signed_identity_authoritative:
  assumes "distinct (map fst (bc_LoginQuery config))" "distinct (map fst input)"
  shows "map_of (legacySignedQuery W config timestamp input) key =
    (if key = ''_sign'' then Some (legacyFirewallSign W (AList.update ''_timestamp'' (itoa timestamp)
         (merge_map (bc_LoginQuery config) (merge_map input []))))
     else if key = ''_timestamp'' then Some (itoa timestamp)
     else (case map_of (bc_LoginQuery config) key of Some v \<Rightarrow> Some v | None \<Rightarrow> map_of input key))"
  using assms by (auto simp: legacySignedQuery_def Let_def map_of_update_at merge_map_at split: option.split)

definition sample_bot_config :: BotConfig where
  "sample_bot_config = \<lparr>bc_BaseURL = ''https://h'', bc_LoginPath = ''/login'', bc_LoginQuery = [(''package'', ''ps'')],
     bc_Headers = [], bc_Endpoints = [], bc_MaxResponseBytes = 1024\<rparr>"

definition sample_bot_world :: bot_world where
  "sample_bot_world = \<lparr>bw_unicode = sample_unicode,
     bw_urls = \<lparr>url_parse = (\<lambda>_. Some \<lparr>u_scheme = ''https'', u_host = ''h'', u_has_user = False, u_path = [], u_raw_query = [],
        u_fragment = []\<rparr>), url_string = (\<lambda>u. ''https://h?'' @ u_raw_query u)\<rparr>,
     bw_query = (\<lambda>_. []), bw_sha1 = rev, bw_md5 = rev, bw_sha256 = id, bw_now = (\<lambda>_. 5),
     bw_random = (\<lambda>n. Some ''abcdefgh''), bw_nanos = (\<lambda>_. 9), bw_elapsed = (\<lambda>_. 1)\<rparr>"

theorem signed_identity_authoritative_witness:
  "map_of (legacySignedQuery sample_bot_world sample_bot_config 7 [(''package'', ''evil''), (''uid'', ''1'')]) ''package''
   = Some ''ps''"
  using signed_identity_authoritative[of sample_bot_config "[(''package'', ''evil''), (''uid'', ''1'')]"]
  by (simp add: sample_bot_config_def)

definition sample_bot :: BotService where
  "sample_bot = \<lparr>bs_config = sample_bot_config, bs_logger = False,
     bs_endpoints = [(''who'', zero_bot_endpoint\<lparr>be_Name := ''who'', be_Path := ''/who'', be_Method := ''GET''\<rparr>)],
     bs_creds = \<lparr>Area = ''86'', Mobile = ''1'', BotPassword = ''pw''\<rparr>\<rparr>"

definition sample_bot_net :: net where
  "sample_bot_net qs = Inr \<lparr>StatusCode = 200, ContentTypeHeader = [], BodyBytes =
     [CHR 0x7B] @ quote ''success'' @ '':true,'' @ quote ''data'' @ '':'' @ [CHR 0x7B] @ quote ''token'' @ '':'' @ quote ''t''
       @ [CHR 0x7D, CHR 0x7D], BodyError = None\<rparr>"

definition sample_bot_state :: bot_state where
  "sample_bot_state = snd (Bot_Call sample_bot_world sample_bot sample_bot_net
     \<lparr>bi_Endpoint = ''who'', bi_Query = [], bi_Body = None, bi_Confirm = False\<rparr>
     \<lparr>b_token = [], b_lastSign = 0, b_session = empty_session\<rparr>)"

theorem bot_session_safe_witness:
  "map Method (sent (b_session sample_bot_state)) = [''POST'', ''GET'']
   \<and> list_all (bot_request_ok sample_bot_world sample_bot) (sent (b_session sample_bot_state))"
proof
  show "map Method (sent (b_session sample_bot_state)) = [''POST'', ''GET'']" by code_simp
  let ?b = "\<lparr>b_token = [], b_lastSign = 0, b_session = empty_session\<rparr> :: bot_state"
  have "reach bot_start (bot_step sample_bot_world sample_bot sample_bot_net) ?b"
    by (rule reach_start) (simp add: bot_start_def empty_session_def)
  moreover have "bot_step sample_bot_world sample_bot sample_bot_net ?b sample_bot_state"
    unfolding bot_step_def sample_bot_state_def by blast
  ultimately show "list_all (bot_request_ok sample_bot_world sample_bot) (sent (b_session sample_bot_state))"
    using bot_session_safe[of sample_bot_world sample_bot sample_bot_net ?b sample_bot_state] by blast
qed


text \<open>Unlike the redaction of texts (and that of the read-only API), the redaction of JSON does not know
  the key \<open>authorization\<close>: its value comes out of a JSON response, but not out of a text.\<close>

theorem bot_authorization_leaks:
  "let leak = [CHR 0x7B] @ quote ''Authorization'' @ '':'' @ quote ''abc'' @ [CHR 0x7D] in
   redactResponse sample_unicode leak ''application/json'' False = AMap [(''Authorization'', AStr ''abc'')]
   \<and> redactResponse sample_unicode leak ''text/plain'' False
     = AStr ([CHR 0x7B] @ quote ''Authorization'' @ '':'' @ [CHR 0x22] @ ''[REDACTED]'' @ [CHR 0x22, CHR 0x7D])"
  by code_simp

end
