(* ===== verification/BotGoroutines.thy ===== *)
theory BotGoroutines
  imports TestBot
begin

text \<open>
  The bot under concurrent calls. Each call of \<open>testbot.Service\<close> runs in its own goroutine; they share the token
  (\<open>loginMu\<close> is held for a whole login) and the signature clock (\<open>signMu\<close> is held while a timestamp is
  drawn), and interleave between a login, the signature and the request.
\<close>

section \<open>The goroutines\<close>

text \<open>
  Where a call stands: it will log in (the flag: by force, after a refusal), it holds a token, its
  request is built, it has returned.
\<close>

datatype bot_goroutine =
    Admitted BotEndpoint BotCallInput bool
  | Holding BotEndpoint BotCallInput bool string
  | Built BotEndpoint BotCallInput bool string string http_request
  | Ended

text \<open>The shared state, the calls, and the timestamps drawn so far, in their order.\<close>

record bot_system =
  bg_bot :: bot_state
  bg_calls :: "bot_goroutine list"
  bg_signed :: "int list"

text \<open>After the answer to a request: the call has returned, or logs in again after 401 and 403, once.\<close>

definition settle :: "bot_world \<Rightarrow> BotService \<Rightarrow> BotEndpoint \<Rightarrow> BotCallInput \<Rightarrow> bool \<Rightarrow> string \<Rightarrow> string \<Rightarrow> int
    \<Rightarrow> (string, http_response) result \<Rightarrow> bot_state \<Rightarrow> bot_goroutine \<times> bot_state" where
  "settle W s ep input force token requestID elapsed r b =
    (case r of
       Inl e \<Rightarrow> (Ended, b)
     | Inr resp \<Rightarrow>
       (case endpoint_output W (bs_config s) ep requestID elapsed resp of
          Inl e \<Rightarrow> (Ended, b)
        | Inr (output, bytes) \<Rightarrow>
          (if force \<or> (bo_StatusCode output \<noteq> 401 \<and> bo_StatusCode output \<noteq> 403) then Ended else Admitted ep input True,
           log_bot (bs_logger s) (CallLog (be_Name ep) (be_Method ep) (be_SideEffect ep) (StatusCode resp) requestID
             (tokenFingerprint W token) bytes (bo_Truncated output) elapsed) b)))"

text \<open>
  The clock, the request identifier and the measured duration are arbitrary at each step. A
  timestamp is drawn before the request is built, so it is used up even when that fails.
\<close>

inductive goroutine_step :: "bot_world \<Rightarrow> BotService \<Rightarrow> net \<Rightarrow> bot_system \<Rightarrow> bot_system \<Rightarrow> bool"
  for W :: bot_world and s :: BotService and net :: net where
  arrive: "check_call s input = Inr ep \<Longrightarrow>
    goroutine_step W s net k (k\<lparr>bg_calls := bg_calls k @ [Admitted ep input False]\<rparr>)"
| log_in: "i < length (bg_calls k) \<Longrightarrow> bg_calls k ! i = Admitted ep input force \<Longrightarrow>
    login W s net force (bg_bot k) = (r, b) \<Longrightarrow>
    goroutine_step W s net k (k\<lparr>bg_bot := b,
      bg_calls := (bg_calls k)[i := (case r of Inl _ \<Rightarrow> Ended | Inr token \<Rightarrow> Holding ep input force token)]\<rparr>)"
| sign: "i < length (bg_calls k) \<Longrightarrow> bg_calls k ! i = Holding ep input force token \<Longrightarrow>
    ts = next_timestamp now (b_lastSign (bg_bot k)) \<Longrightarrow>
    goroutine_step W s net k (k\<lparr>bg_bot := (if be_Signed ep then (bg_bot k)\<lparr>b_lastSign := ts\<rparr> else bg_bot k),
      bg_signed := (if be_Signed ep then bg_signed k @ [ts] else bg_signed k),
      bg_calls := (bg_calls k)[i := (case endpoint_request W s ep (call_query W s ep input ts) (bi_Body input) token requestID of
        Inl _ \<Rightarrow> Ended | Inr req \<Rightarrow> Built ep input force token requestID req)]\<rparr>)"
| answer: "i < length (bg_calls k) \<Longrightarrow> bg_calls k ! i = Built ep input force token requestID req \<Longrightarrow>
    send_bot net req (bg_bot k) = (r, b) \<Longrightarrow> settle W s ep input force token requestID elapsed r b = (next, b') \<Longrightarrow>
    goroutine_step W s net k (k\<lparr>bg_bot := b', bg_calls := (bg_calls k)[i := next]\<rparr>)"

inductive_cases goroutine_stepE: "goroutine_step W s net k k'"

lemmas goroutine_step_cases = goroutine_stepE [consumes 1, case_names arrive log_in sign answer]

definition bot_system_start :: "bot_system \<Rightarrow> bool" where
  "bot_system_start k \<longleftrightarrow> bot_start (bg_bot k) \<and> bg_calls k = [] \<and> bg_signed k = []"

section \<open>The invariant\<close>

fun call_ok :: "bot_world \<Rightarrow> BotService \<Rightarrow> bot_goroutine \<Rightarrow> bool" where
  "call_ok W s (Admitted ep input force) \<longleftrightarrow> check_call s input = Inr ep"
| "call_ok W s (Holding ep input force token) \<longleftrightarrow> check_call s input = Inr ep \<and> token \<noteq> []"
| "call_ok W s (Built ep input force token requestID req) \<longleftrightarrow> check_call s input = Inr ep \<and> token \<noteq> [] \<and> bot_admitted W s ep token req"
| "call_ok W s Ended \<longleftrightarrow> True"

definition bot_system_ok :: "bot_world \<Rightarrow> BotService \<Rightarrow> bot_system \<Rightarrow> bool" where
  "bot_system_ok W s k \<longleftrightarrow> list_all (call_ok W s) (bg_calls k) \<and> list_all (bot_request_ok W s) (sent (b_session (bg_bot k)))
    \<and> sorted_wrt (<) (bg_signed k) \<and> list_all (\<lambda>t. t \<le> b_lastSign (bg_bot k)) (bg_signed k)"

lemma list_all_update: "list_all P xs \<Longrightarrow> P x \<Longrightarrow> list_all P (xs[i := x])"
  by (auto simp: list_all_iff dest: set_update_subset_insert[THEN subsetD])

lemma settle_keeps:
  assumes "settle W s ep input force token requestID elapsed r b = (next, b')" "check_call s input = Inr ep"
  shows "call_ok W s next \<and> sent (b_session b') = sent (b_session b) \<and> b_lastSign b' = b_lastSign b"
  using assms by (auto simp: settle_def split: sum.splits if_splits)

lemma goroutine_step_ok:
  assumes "bot_system_ok W s k" "goroutine_step W s net k k'"
  shows "bot_system_ok W s k'"
  using assms(2)
proof (cases rule: goroutine_step_cases)
  case (arrive input ep)
  then show ?thesis using assms(1) by (simp add: bot_system_ok_def)
next
  case (log_in i ep input force r b)
  have c: "check_call s input = Inr ep" using assms(1) log_in(2,3) by (auto simp: bot_system_ok_def list_all_length)
  obtain rs where rs: "sent (b_session b) = sent (b_session (bg_bot k)) @ rs" "list_all (\<lambda>req. login_request W s = Inr req) rs"
    using login_spec(1)[OF log_in(4)] by blast
  have "list_all (bot_request_ok W s) rs" using rs(2) by (auto simp: list_all_iff bot_request_ok_def)
  moreover have "call_ok W s (case r of Inl _ \<Rightarrow> Ended | Inr token \<Rightarrow> Holding ep input force token)"
    using c login_spec(3)[OF log_in(4)] by (cases r) auto
  ultimately show ?thesis
    using assms(1) rs(1) login_spec(2)[OF log_in(4)] by (simp add: log_in(1) bot_system_ok_def list_all_update)
next
  case (sign i ep input force token now requestID)
  let ?ts = "next_timestamp now (b_lastSign (bg_bot k))"
  have c: "check_call s input = Inr ep" "token \<noteq> []" using assms(1) sign(2,3) by (auto simp: bot_system_ok_def list_all_length)
  have "call_ok W s (case endpoint_request W s ep (call_query W s ep input ?ts) (bi_Body input) token requestID of
      Inl _ \<Rightarrow> Ended | Inr req \<Rightarrow> Built ep input force token requestID req)"
    using c endpoint_request_admitted[OF _ check_call_ok(2)[OF c(1)]] by (auto split: sum.split)
  moreover have "b_lastSign (bg_bot k) < ?ts" by (simp add: next_timestamp_def)
  moreover from this have "\<forall>t \<in> set (bg_signed k). t < ?ts"
    using assms(1) by (force simp: bot_system_ok_def list_all_iff)
  moreover from this have "list_all (\<lambda>t. t \<le> ?ts) (bg_signed k)" by (force simp: list_all_iff)
  ultimately show ?thesis
    using assms(1) by (simp add: sign(1) bot_system_ok_def list_all_update sorted_wrt_append)
next
  case (answer i ep input force token requestID req r b elapsed c' b')
  have c: "check_call s input = Inr ep" "token \<noteq> []" "bot_admitted W s ep token req"
    using assms(1) answer(2,3) by (auto simp: bot_system_ok_def list_all_length)
  have "bot_request_ok W s req" using c check_call_ok(1)[OF c(1)] by (auto simp: bot_request_ok_def)
  then show ?thesis
    using assms(1) settle_keeps[OF answer(5) c(1)] send_bot_sent[OF answer(4)]
    by (simp add: answer(1) bot_system_ok_def list_all_update)
qed

interpretation bot_goroutines: transition_system bot_system_start "goroutine_step W s net" "bot_system_ok W s" for W s net
proof unfold_locales
  show "bot_system_ok W s k" if "bot_system_start k" for k
    using that by (simp add: bot_system_start_def bot_start_def bot_system_ok_def)
qed (rule goroutine_step_ok)

section \<open>Properties\<close>

text \<open>C10: With any number of concurrent calls, in whatever interleaving of their logins, signatures and requests
  and whatever the clock shows, every request is a login or an admitted request of a configured
  endpoint, every call in progress has passed its guards (its side effect is confirmed), and the
  timestamps of the signatures are drawn strictly increasing, so that no two are equal.\<close>

theorem bot_goroutines_safe:
  assumes "reach bot_system_start (goroutine_step W s net) k"
  shows "list_all (bot_request_ok W s) (sent (b_session (bg_bot k)))
    \<and> list_all (\<lambda>c. case c of Admitted ep input _ \<Rightarrow> check_call s input = Inr ep
         | Holding ep input _ token \<Rightarrow> check_call s input = Inr ep \<and> token \<noteq> []
         | Built ep input _ token _ req \<Rightarrow> check_call s input = Inr ep \<and> bot_admitted W s ep token req
         | Ended \<Rightarrow> True) (bg_calls k)
    \<and> sorted_wrt (<) (bg_signed k) \<and> distinct (bg_signed k)"
proof -
  have ok: "bot_system_ok W s k" using assms by (rule bot_goroutines.reach_inv)
  have "call_ok W s c \<Longrightarrow> case c of Admitted ep input _ \<Rightarrow> check_call s input = Inr ep
         | Holding ep input _ token \<Rightarrow> check_call s input = Inr ep \<and> token \<noteq> []
         | Built ep input _ token _ req \<Rightarrow> check_call s input = Inr ep \<and> bot_admitted W s ep token req
         | Ended \<Rightarrow> True" for c
    by (cases c) auto
  then show ?thesis using ok by (auto simp: bot_system_ok_def list_all_iff strict_sorted_iff)
qed

text \<open>Two signed calls at the same second of a stopped clock: both log in, the second one draws its
  timestamp while the first one waits for its answer.\<close>

definition signing_bot :: BotService where
  "signing_bot = sample_bot\<lparr>bs_endpoints := [(''who'', zero_bot_endpoint\<lparr>be_Name := ''who'', be_Path := ''/who'',
     be_Method := ''GET'', be_Signed := True\<rparr>)]\<rparr>"

definition move :: "bot_world \<Rightarrow> BotService \<Rightarrow> net \<Rightarrow> BotCallInput \<Rightarrow> nat \<Rightarrow> bot_system \<Rightarrow> bot_system" where
  "move W s net input i k =
     (if i < length (bg_calls k) then
        (case bg_calls k ! i of
           Admitted ep inp force \<Rightarrow> (case login W s net force (bg_bot k) of
             (r, b) \<Rightarrow> k\<lparr>bg_bot := b, bg_calls := (bg_calls k)[i := (case r of Inl _ \<Rightarrow> Ended | Inr token \<Rightarrow> Holding ep inp force token)]\<rparr>)
         | Holding ep inp force token \<Rightarrow>
             (let ts = next_timestamp (bw_now W 0) (b_lastSign (bg_bot k)) in
              k\<lparr>bg_bot := (if be_Signed ep then (bg_bot k)\<lparr>b_lastSign := ts\<rparr> else bg_bot k),
                bg_signed := (if be_Signed ep then bg_signed k @ [ts] else bg_signed k),
                bg_calls := (bg_calls k)[i := (case endpoint_request W s ep (call_query W s ep inp ts) (bi_Body inp) token ''r'' of
                  Inl _ \<Rightarrow> Ended | Inr req \<Rightarrow> Built ep inp force token ''r'' req)]\<rparr>)
         | _ \<Rightarrow> k)
      else (case check_call s input of Inl _ \<Rightarrow> k | Inr ep \<Rightarrow> k\<lparr>bg_calls := bg_calls k @ [Admitted ep input False]\<rparr>))"

lemma move_step: "move W s net input i k = k \<or> goroutine_step W s net k (move W s net input i k)"
proof (cases "i < length (bg_calls k)")
  case True
  show ?thesis
  proof (cases "bg_calls k ! i")
    case (Admitted ep inp force)
    obtain r b where "login W s net force (bg_bot k) = (r, b)" by force
    then show ?thesis using log_in[OF True Admitted, of W s net r b] True Admitted by (simp add: move_def)
  next
    case (Holding ep inp force token)
    then show ?thesis
      using sign[OF True Holding refl, where W = W and s = s and net = net and now = "bw_now W 0" and requestID = "''r''"] True
      by (simp add: move_def Let_def)
  qed (simp_all add: move_def True)
next
  case False
  then show ?thesis by (cases "check_call s input") (simp_all add: move_def arrive)
qed

lemma moves_reach:
  "reach bot_system_start (goroutine_step W s net) k \<Longrightarrow>
   reach bot_system_start (goroutine_step W s net) (fold (move W s net input) turns k)"
proof (induction turns arbitrary: k)
  case (Cons i turns)
  have "reach bot_system_start (goroutine_step W s net) (move W s net input i k)"
    using move_step[of W s net input i k] by (auto intro: Cons.prems reach_step[OF Cons.prems])
  from Cons.IH[OF this] show ?case by simp
qed simp

definition signing_system :: bot_system where
  "signing_system = fold (move sample_bot_world signing_bot sample_bot_net
     \<lparr>bi_Endpoint = ''who'', bi_Query = [], bi_Body = None, bi_Confirm = False\<rparr>) [0, 1, 0, 1, 0, 1]
     \<lparr>bg_bot = \<lparr>b_token = [], b_lastSign = 0, b_session = empty_session\<rparr>, bg_calls = [], bg_signed = []\<rparr>"

theorem bot_goroutines_safe_witness:
  "bg_signed signing_system = [5, 6] \<and> length (sent (b_session (bg_bot signing_system))) = 1
    \<and> distinct (bg_signed signing_system)"
proof (intro conjI)
  show "bg_signed signing_system = [5, 6]" by code_simp
  show "length (sent (b_session (bg_bot signing_system))) = 1" by code_simp
  have "reach bot_system_start (goroutine_step sample_bot_world signing_bot sample_bot_net) signing_system"
    unfolding signing_system_def
    by (rule moves_reach, rule reach_start) (simp add: bot_system_start_def bot_start_def empty_session_def)
  from bot_goroutines_safe[OF this] show "distinct (bg_signed signing_system)" by blast
qed

end
