(* ===== verification/HttpTransport.thy ===== *)
theory HttpTransport
  imports GoHttp
begin

text \<open>
  \<open>internal/httptransport/handler.go\<close>: the routes of the HTTP server, the bearer token check and the
  bound on concurrent requests. The MCP handler behind them comes from another module: here it
  is what holds a request between its admission and the end of its processing.
\<close>

section \<open>Replies\<close>

record http_call =
  c_method :: string
  c_path :: string
  c_authorization :: string
  c_remote :: string

record reply =
  r_status :: int
  r_headers :: headers
  r_body :: string

text \<open>\<open>http.Error\<close> after the headers in \<open>h\<close> have been set.\<close>

definition http_error :: "headers \<Rightarrow> string \<Rightarrow> int \<Rightarrow> reply" where
  "http_error h message code =
    \<lparr>r_status = code,
     r_headers = set_header ''X-Content-Type-Options'' ''nosniff''
       (set_header ''Content-Type'' ''text/plain; charset=utf-8'' h),
     r_body = message @ [CHR 0x0A]\<rparr>"

definition healthz :: reply where
  "healthz = \<lparr>r_status = 200, r_headers = set_header ''Content-Type'' ''text/plain; charset=utf-8'' [], r_body = ''ok''\<rparr>"

section \<open>Authentication\<close>

definition parseBearerToken :: "string \<Rightarrow> string \<times> bool" where
  "parseBearerToken header =
    (let prefix = ''Bearer '' in
     if \<not> has_prefix header prefix then ([], False)
     else (let token = trim_space (trim_prefix header prefix) in (token, token \<noteq> [])))"

text \<open>
  \<open>matchToken\<close>: one round of the loop for each token, in the order in which the map is visited;
  \<open>subtle.ConstantTimeCompare\<close> is 1 for equal byte strings and 0 for others.
\<close>

definition compare_token :: "string \<Rightarrow> string \<times> string \<Rightarrow> string \<times> int \<Rightarrow> string \<times> int" where
  "compare_token provided e acc = (case e of (name, token) \<Rightarrow> case acc of (matchedName, matched) \<Rightarrow>
     let equal = (if provided = token then 1 else 0) in
     (if equal = 1 then name else matchedName, or matched equal))"

definition matchToken :: "(string \<times> string) list \<Rightarrow> string \<Rightarrow> string \<times> bool" where
  "matchToken tokens provided =
    (case fold (compare_token provided) tokens ([], 0) of (matchedName, matched) \<Rightarrow> (matchedName, matched = 1))"

datatype transport_log = RefusedCall string | AuthorizedCall string string

text \<open>\<open>authenticate\<close>: the reply and log line of a refusal, or the log line of a request let through.\<close>

definition authenticate :: "(string \<times> string) list \<Rightarrow> http_call \<Rightarrow> reply option \<times> transport_log" where
  "authenticate tokens req =
    (let (provided, validHeader) = parseBearerToken (c_authorization req);
         (name, authorized) = matchToken tokens provided
     in if \<not> validHeader \<or> \<not> authorized then
          (Some (http_error (set_header ''WWW-Authenticate'' ''Bearer'' []) ''unauthorized'' 401),
           RefusedCall (c_remote req))
        else (None, AuthorizedCall (c_remote req) name))"

section \<open>The handler\<close>

text \<open>
  The state of the handler: its tokens, the semaphore (its capacity and the elements its channel holds), the
  requests the next handler is serving, and the log.
\<close>

record gate =
  g_tokens :: "(string \<times> string) list"
  g_capacity :: nat
  g_slots :: nat
  g_inflight :: "http_call list"
  g_logger :: bool
  g_log :: "transport_log list"

text \<open>\<open>NewHandler\<close>; \<open>make\<close> panics for a negative capacity.\<close>

definition NewHandler :: "(string \<times> string) list \<Rightarrow> int \<Rightarrow> bool \<Rightarrow> gate option" where
  "NewHandler tokens maxConcurrent logger =
    (if maxConcurrent < 0 then None
     else Some \<lparr>g_tokens = tokens, g_capacity = nat maxConcurrent, g_slots = 0, g_inflight = [], g_logger = logger, g_log = []\<rparr>)"

definition write_line :: "transport_log \<Rightarrow> gate \<Rightarrow> gate" where
  "write_line line g = (if g_logger g then g\<lparr>g_log := g_log g @ [line]\<rparr> else g)"

text \<open>
  \<open>limitConcurrent\<close>: the send to the semaphore succeeds while its buffer has room; otherwise the
  default branch refuses. \<open>None\<close>: the request is handed to the next handler.
\<close>

definition limitConcurrent :: "http_call \<Rightarrow> gate \<Rightarrow> reply option \<times> gate" where
  "limitConcurrent req g =
    (if g_slots g < g_capacity g then (None, g\<lparr>g_slots := g_slots g + 1, g_inflight := req # g_inflight g\<rparr>)
     else (Some (http_error (set_header ''Retry-After'' ''1'' []) ''too many requests'' 429), g))"

definition serve_mcp :: "http_call \<Rightarrow> gate \<Rightarrow> reply option \<times> gate" where
  "serve_mcp req g =
    (case authenticate (g_tokens g) req of
       (Some refusal, line) \<Rightarrow> (Some refusal, write_line line g)
     | (None, line) \<Rightarrow> limitConcurrent req (write_line line g))"

text \<open>The deferred receive from the semaphore, and the end of a request: the next handler returns or panics, then the receive.\<close>

definition release :: "gate \<Rightarrow> gate" where
  "release g = g\<lparr>g_slots := g_slots g - 1\<rparr>"

definition end_request :: "http_call \<Rightarrow> gate \<Rightarrow> gate" where
  "end_request req g = release (g\<lparr>g_inflight := remove1 req (g_inflight g)\<rparr>)"

text \<open>
  The routes, for a path in canonical form (\<open>ServeMux\<close> redirects other ones): a pattern with the
  method GET also takes HEAD.
\<close>

definition serve :: "http_call \<Rightarrow> gate \<Rightarrow> reply option \<times> gate" where
  "serve req g =
    (if c_path req = ''/mcp'' then serve_mcp req g
     else if c_path req = ''/healthz'' then
       (if c_method req = ''GET'' \<or> c_method req = ''HEAD'' then (Some healthz, g)
        else (Some (http_error (set_header ''Allow'' ''GET, HEAD'' []) ''Method Not Allowed'' 405), g))
     else (Some (http_error [] ''404 page not found'' 404), g))"

inductive gate_step :: "gate \<Rightarrow> gate \<Rightarrow> bool" where
  arrive: "gate_step g (snd (serve req g))"
| leave: "req \<in> set (g_inflight g) \<Longrightarrow> gate_step g (end_request req g)"

inductive_cases gate_stepE: "gate_step g g'"

section \<open>Facts\<close>

lemma compare_step:
  "matched = 0 \<or> matched = 1 \<Longrightarrow> compare_token provided (k, v) (name, matched)
    = (if provided = v then (k, 1) else (name, matched))"
  by (auto simp: compare_token_def)

lemma fold_compare:
  "fold (compare_token provided) tokens (name, matched) = (n, m) \<Longrightarrow> matched = 0 \<or> matched = 1 \<Longrightarrow>
    m = (if matched = 1 \<or> provided \<in> snd ` set tokens then 1 else 0)
    \<and> (if provided \<in> snd ` set tokens then (n, provided) \<in> set tokens else n = name)"
proof (induction tokens arbitrary: name matched)
  case (Cons e tokens)
  obtain k v where e: "e = (k, v)" by force
  show ?case
    using Cons.IH[of k 1] Cons.IH[of name matched] Cons.prems
    by (auto simp: e compare_step split: if_splits)
qed auto

lemma matchToken_spec:
  "snd (matchToken tokens provided) \<longleftrightarrow> provided \<in> snd ` set tokens"
  "snd (matchToken tokens provided) \<Longrightarrow> (fst (matchToken tokens provided), provided) \<in> set tokens"
proof -
  obtain n m where f: "fold (compare_token provided) tokens ([], 0) = (n, m)" by force
  note spec = fold_compare[OF f]
  show "snd (matchToken tokens provided) \<longleftrightarrow> provided \<in> snd ` set tokens"
    using spec by (auto simp: matchToken_def f split: if_splits)
  show "snd (matchToken tokens provided) \<Longrightarrow> (fst (matchToken tokens provided), provided) \<in> set tokens"
    using spec by (auto simp: matchToken_def f split: if_splits)
qed

text \<open>What it takes to get in: a bearer token that is configured.\<close>

definition bears :: "http_call \<Rightarrow> string \<Rightarrow> bool" where
  "bears req token \<longleftrightarrow> token \<noteq> [] \<and> (\<exists>rest. c_authorization req = ''Bearer '' @ rest \<and> trim_space rest = token)"

lemma parseBearerToken_spec:
  "parseBearerToken (c_authorization req) = (token, True) \<longleftrightarrow> bears req token"
  by (auto simp: parseBearerToken_def bears_def Let_def trim_prefix_def elim: prefixE)

lemma authenticate_spec:
  "fst (authenticate tokens req) = None \<longleftrightarrow> (\<exists>token \<in> snd ` set tokens. bears req token)"
proof (cases "parseBearerToken (c_authorization req)")
  case (Pair provided valid)
  show ?thesis
  proof (cases valid)
    case True
    then have b: "bears req token \<longleftrightarrow> token = provided" for token
      using Pair True by (auto simp: parseBearerToken_spec[symmetric])
    show ?thesis using True Pair matchToken_spec(1)[of tokens provided]
      by (auto simp: authenticate_def Let_def case_prod_unfold b)
  next
    case False
    then have "\<not> bears req token" for token using Pair parseBearerToken_spec[of req token] by auto
    then show ?thesis using False Pair by (auto simp: authenticate_def Let_def case_prod_unfold)
  qed
qed

definition gate_start :: "(string \<times> string) list \<Rightarrow> int \<Rightarrow> bool \<Rightarrow> gate \<Rightarrow> bool" where
  "gate_start tokens n logger g \<longleftrightarrow> NewHandler tokens n logger = Some g"

definition gate_ok :: "(string \<times> string) list \<Rightarrow> int \<Rightarrow> gate \<Rightarrow> bool" where
  "gate_ok tokens n g \<longleftrightarrow> g_tokens g = tokens \<and> int (g_capacity g) = n
    \<and> g_slots g = length (g_inflight g) \<and> length (g_inflight g) \<le> g_capacity g
    \<and> list_all (\<lambda>req. \<exists>token \<in> snd ` set tokens. bears req token) (g_inflight g)"

lemma write_line_simps [simp]:
  "g_tokens (write_line l g) = g_tokens g" "g_capacity (write_line l g) = g_capacity g"
  "g_inflight (write_line l g) = g_inflight g" "g_slots (write_line l g) = g_slots g"
  by (simp_all add: write_line_def)

lemma serve_mcp_cases:
  obtains (refused) "\<not> (\<exists>token \<in> snd ` set (g_tokens g). bears req token)"
      "fst (serve_mcp req g) \<noteq> None" "r_status (the (fst (serve_mcp req g))) = 401"
      "g_inflight (snd (serve_mcp req g)) = g_inflight g" "g_slots (snd (serve_mcp req g)) = g_slots g"
  | (full) "\<exists>token \<in> snd ` set (g_tokens g). bears req token" "g_capacity g \<le> g_slots g"
      "fst (serve_mcp req g) \<noteq> None" "r_status (the (fst (serve_mcp req g))) = 429"
      "g_inflight (snd (serve_mcp req g)) = g_inflight g" "g_slots (snd (serve_mcp req g)) = g_slots g"
  | (admitted) "\<exists>token \<in> snd ` set (g_tokens g). bears req token" "g_slots g < g_capacity g"
      "fst (serve_mcp req g) = None" "g_inflight (snd (serve_mcp req g)) = req # g_inflight g"
      "g_slots (snd (serve_mcp req g)) = g_slots g + 1"
proof (cases "fst (authenticate (g_tokens g) req)")
  case None
  then obtain line where a: "authenticate (g_tokens g) req = (None, line)" by (metis prod.collapse)
  have b: "\<exists>token \<in> snd ` set (g_tokens g). bears req token" using None authenticate_spec by blast
  show ?thesis
  proof (cases "g_slots g < g_capacity g")
    case True
    then show ?thesis using admitted[OF b] by (simp add: serve_mcp_def a limitConcurrent_def)
  next
    case False
    then show ?thesis using full[OF b] by (simp add: serve_mcp_def a limitConcurrent_def http_error_def)
  qed
next
  case (Some refusal)
  then obtain line where a: "authenticate (g_tokens g) req = (Some refusal, line)" by (metis prod.collapse)
  have b: "\<not> (\<exists>token \<in> snd ` set (g_tokens g). bears req token)"
    using Some authenticate_spec[of "g_tokens g" req] by simp
  have "r_status refusal = 401"
    using a by (auto simp: authenticate_def Let_def case_prod_unfold http_error_def split: if_splits)
  then show ?thesis using refused[OF b] by (simp add: serve_mcp_def a)
qed

lemma serve_tokens: "g_tokens (snd (serve req g)) = g_tokens g" "g_capacity (snd (serve req g)) = g_capacity g"
  by (auto simp: serve_def serve_mcp_def limitConcurrent_def split: prod.split option.split)

lemma gate_ok_serve: "gate_ok tokens n g \<Longrightarrow> gate_ok tokens n (snd (serve req g))"
proof (cases "c_path req = ''/mcp''")
  case True
  assume "gate_ok tokens n g"
  then show ?thesis using serve_tokens[of req g]
    by (cases rule: serve_mcp_cases[of g req]) (auto simp: gate_ok_def serve_def True)
next
  case False
  assume "gate_ok tokens n g"
  then show ?thesis by (simp add: serve_def False)
qed

lemma gate_ok_end:
  assumes "gate_ok tokens n g" "req \<in> set (g_inflight g)"
  shows "gate_ok tokens n (end_request req g)" "g_slots (end_request req g) < g_capacity (end_request req g)"
proof -
  have len: "length (remove1 req (g_inflight g)) = length (g_inflight g) - 1" "0 < length (g_inflight g)"
    using assms(2) by (auto simp: length_remove1)
  show "gate_ok tokens n (end_request req g)"
    using assms len by (auto simp: gate_ok_def end_request_def release_def list_all_iff dest: notin_set_remove1)
  show "g_slots (end_request req g) < g_capacity (end_request req g)"
  proof -
    have "g_slots g - 1 < g_capacity g" using assms(1) len(2) unfolding gate_ok_def by linarith
    then show ?thesis by (simp add: end_request_def release_def)
  qed
qed

interpretation http: transition_system "gate_start tokens n logger" gate_step "gate_ok tokens n" for tokens n logger
proof unfold_locales
  show "gate_start tokens n logger g \<Longrightarrow> gate_ok tokens n g" for g
    by (auto simp: gate_start_def NewHandler_def gate_ok_def split: if_splits)
  show "gate_ok tokens n g \<Longrightarrow> gate_step g g' \<Longrightarrow> gate_ok tokens n g'" for g g'
    by (erule gate_stepE) (auto simp: gate_ok_serve gate_ok_end)
qed

section \<open>Properties\<close>

text \<open>C11: Behind the HTTP handler there are never more requests than its limit, and each of them has
  presented one of the configured tokens, whatever requests arrive and end in whatever order; a request
  for \<open>/mcp\<close> is refused for only two reasons: 401 exactly when it bears no configured token, 429 exactly
  when it does and the limit is reached. The semaphore holds one element for each request being
  served, and once any of them ends there is room again: the next request is refused only for its token.\<close>

theorem http_gate:
  assumes "reach (gate_start tokens n logger) gate_step g"
  shows "g_slots g = length (g_inflight g) \<and> int (length (g_inflight g)) \<le> n
    \<and> list_all (\<lambda>req. \<exists>token \<in> snd ` set tokens. bears req token) (g_inflight g)
    \<and> (\<forall>req. case fst (serve_mcp req g) of
        None \<Rightarrow> int (length (g_inflight g)) < n \<and> (\<exists>token \<in> snd ` set tokens. bears req token)
      | Some r \<Rightarrow> if \<exists>token \<in> snd ` set tokens. bears req token
          then r_status r = 429 \<and> int (length (g_inflight g)) = n else r_status r = 401)
    \<and> list_all (\<lambda>ended. \<forall>req. fst (serve_mcp req (end_request ended g)) = None \<longleftrightarrow> (\<exists>token \<in> snd ` set tokens. bears req token))
        (g_inflight g)"
proof -
  have ok: "gate_ok tokens n g" using assms by (rule http.reach_inv)
  have "case fst (serve_mcp req g) of
        None \<Rightarrow> int (length (g_inflight g)) < n \<and> (\<exists>token \<in> snd ` set tokens. bears req token)
      | Some r \<Rightarrow> if \<exists>token \<in> snd ` set tokens. bears req token
          then r_status r = 429 \<and> int (length (g_inflight g)) = n else r_status r = 401" for req
    using ok by (cases rule: serve_mcp_cases[of g req]) (auto simp: gate_ok_def split: option.split)
  moreover have "fst (serve_mcp req (end_request ended g)) = None \<longleftrightarrow> (\<exists>token \<in> snd ` set tokens. bears req token)"
    if "ended \<in> set (g_inflight g)" for ended req
  proof -
    have "g_tokens (end_request ended g) = tokens" using gate_ok_end(1)[OF ok that] by (simp add: gate_ok_def)
    then show ?thesis using gate_ok_end(2)[OF ok that] by (cases rule: serve_mcp_cases[of "end_request ended g" req]) auto
  qed
  ultimately show ?thesis using ok by (auto simp: gate_ok_def list_all_iff)
qed

definition sample_gate :: gate where
  "sample_gate = \<lparr>g_tokens = [(''ci'', ''s3cret'')], g_capacity = 1, g_slots = 0, g_inflight = [], g_logger = True, g_log = []\<rparr>"

definition sample_call :: http_call where
  "sample_call = \<lparr>c_method = ''POST'', c_path = ''/mcp'', c_authorization = ''Bearer s3cret '', c_remote = ''::1''\<rparr>"

theorem http_gate_witness:
  "list_all (\<lambda>req. \<exists>token \<in> {''s3cret''}. bears req token) [sample_call]
   \<and> fst (serve_mcp sample_call (end_request sample_call (snd (serve sample_call sample_gate)))) = None"
proof -
  let ?g = "snd (serve sample_call sample_gate)"
  have start: "gate_start [(''ci'', ''s3cret'')] 1 True sample_gate" by code_simp
  have "reach (gate_start [(''ci'', ''s3cret'')] 1 True) gate_step ?g"
    by (rule reach_step[where s = sample_gate]) (rule reach_start, rule start, rule arrive)
  moreover have "g_inflight ?g = [sample_call]" by code_simp
  ultimately show ?thesis using http_gate[of "[(''ci'', ''s3cret'')]" 1 True ?g] by simp
qed

end
