(* ===== verification/AppConfig.thy ===== *)
theory AppConfig
  imports GoJson HttpTransport
begin

text \<open>
  \<open>internal/appconfig/config.go\<close>: the configuration from the environment and the command line, with
  the parts of \<open>flag\<close> and \<open>strconv\<close> it uses, and the tokens that \<open>runHTTP\<close> of
  \<open>cmd/ps-devtools-mcp/main.go\<close> hands to the HTTP transport.
\<close>

section \<open>Numbers of the command line\<close>

text \<open>\<open>strconv.ParseInt(s, 0, 64)\<close>: a prefix chooses the base, underscores may separate digits.\<close>

definition based_digit :: "int \<Rightarrow> char \<Rightarrow> int option" where
  "based_digit base c =
    (let b = byte_val (lower_byte c);
         d = (if 0x30 \<le> b \<and> b \<le> 0x39 then b - 0x30 else if 0x61 \<le> b \<and> b \<le> 0x7A then b - 0x61 + 10 else 99)
     in if d < base then Some d else None)"

fun based_value :: "int \<Rightarrow> int \<Rightarrow> string \<Rightarrow> int option" where
  "based_value base v [] = Some v"
| "based_value base v (c # s) =
    (if c = CHR ''_'' then based_value base v s
     else (case based_digit base c of None \<Rightarrow> None | Some d \<Rightarrow> based_value base (base * v + d) s))"

text \<open>Each underscore between two digits; \<open>digit\<close> says that the byte before counts as one.\<close>

fun underscores_ok :: "bool \<Rightarrow> string \<Rightarrow> bool" where
  "underscores_ok digit [] = True"
| "underscores_ok digit (c # s) =
    (if c = CHR ''_'' then digit \<and> s \<noteq> [] \<and> hd s \<noteq> CHR ''_'' \<and> underscores_ok False s else underscores_ok True s)"

definition parse_uint_any :: "string \<Rightarrow> int option" where
  "parse_uint_any s =
    (if s = [] then None
     else if hd s \<noteq> CHR ''0'' then (if underscores_ok False s then based_value 10 0 s else None)
     else
       (let p = (if 3 \<le> length s then lower_byte (s ! 1) else CHR ''0'');
            base = (if p = CHR ''b'' then 2 else if p = CHR ''o'' then 8 else if p = CHR ''x'' then 16 else 8 :: int);
            rest = (if p = CHR ''b'' \<or> p = CHR ''o'' \<or> p = CHR ''x'' then drop 2 s else tl s)
        in if underscores_ok True rest then based_value base 0 rest else None))"

definition parse_int_any :: "string \<Rightarrow> int option" where
  "parse_int_any s =
    (let neg = prefix ''-'' s; ds = (if neg \<or> prefix ''+'' s then tl s else s) in
     (case parse_uint_any ds of
        None \<Rightarrow> None
      | Some v \<Rightarrow> if neg then (if v \<le> 2 ^ 63 then Some (- v) else None) else (if v < 2 ^ 63 then Some v else None)))"

section \<open>The configuration\<close>

definition TransportStdio :: string where "TransportStdio = ''stdio''"
definition TransportHTTP :: string where "TransportHTTP = ''http''"

record Config =
  Transport :: string
  ListenAddress :: string
  AuthToken :: string
  AuthTokens :: "(string \<times> string) list"
  MaxConcurrent :: int
  TestDBHost :: string
  TestDBPort :: int
  TestDBUser :: string
  TestDBPassword :: string
  cfg_XianshiDatabase :: string
  cfg_ConfigDatabase :: string
  TestRedisAddress :: string
  TestRedisPassword :: string
  TestRedisDatabase :: int
  LogMCPCommand :: string
  LogMCPArgs :: "string list"
  ReadOnlyAPIConfig :: string
  TestBotConfig :: string
  TestBotArea :: string
  TestBotMobile :: string
  TestBotPassword :: string
  SlackDeployWebhookURL :: string

definition TestBotEnabled :: "Config \<Rightarrow> bool" where "TestBotEnabled c \<longleftrightarrow> TestBotConfig c \<noteq> []"
definition DirectDBEnabled :: "Config \<Rightarrow> bool" where "DirectDBEnabled c \<longleftrightarrow> TestDBHost c \<noteq> []"
definition DirectRedisEnabled :: "Config \<Rightarrow> bool" where "DirectRedisEnabled c \<longleftrightarrow> TestRedisAddress c \<noteq> []"

text \<open>The environment, as \<open>os.Getenv\<close>: an unset variable is empty.\<close>

type_synonym environment = "string \<Rightarrow> string"

definition envOrDefault :: "environment \<Rightarrow> string \<Rightarrow> string \<Rightarrow> string" where
  "envOrDefault getenv key fallback = (let v = trim_space (getenv key) in if v \<noteq> [] then v else fallback)"

definition envIntOrDefault :: "environment \<Rightarrow> string \<Rightarrow> int \<Rightarrow> int" where
  "envIntOrDefault getenv key fallback =
    (let v = trim_space (getenv key) in
     if v = [] then fallback else (case atoi v of None \<Rightarrow> 0 | Some parsed \<Rightarrow> parsed))"

definition env_config :: "environment \<Rightarrow> Config" where
  "env_config getenv =
    \<lparr>Transport = envOrDefault getenv ''PS_MCP_TRANSPORT'' TransportStdio,
     ListenAddress = envOrDefault getenv ''PS_MCP_LISTEN_ADDR'' ''127.0.0.1:8080'',
     AuthToken = trim_space (getenv ''PS_MCP_AUTH_TOKEN''),
     AuthTokens = [],
     MaxConcurrent = envIntOrDefault getenv ''PS_MCP_MAX_CONCURRENT'' 16,
     TestDBHost = trim_space (getenv ''PS_TEST_DB_HOST''),
     TestDBPort = envIntOrDefault getenv ''PS_TEST_DB_PORT'' 3306,
     TestDBUser = trim_space (getenv ''PS_TEST_DB_USER''),
     TestDBPassword = getenv ''PS_TEST_DB_PASSWORD'',
     cfg_XianshiDatabase = envOrDefault getenv ''PS_TEST_DB_XIANSHI_DATABASE'' ''xianshi'',
     cfg_ConfigDatabase = envOrDefault getenv ''PS_TEST_DB_CONFIG_DATABASE'' ''config'',
     TestRedisAddress = trim_space (getenv ''PS_TEST_REDIS_ADDRESS''),
     TestRedisPassword = getenv ''PS_TEST_REDIS_PASSWORD'',
     TestRedisDatabase = envIntOrDefault getenv ''PS_TEST_REDIS_DATABASE'' 0,
     LogMCPCommand = trim_space (getenv ''PS_LOG_MCP_COMMAND''),
     LogMCPArgs = [],
     ReadOnlyAPIConfig = trim_space (getenv ''PS_MCP_READONLY_API_CONFIG''),
     TestBotConfig = trim_space (getenv ''PS_MCP_TESTBOT_CONFIG''),
     TestBotArea = trim_space (getenv ''PS_TESTBOT_AREA''),
     TestBotMobile = trim_space (getenv ''PS_TESTBOT_MOBILE''),
     TestBotPassword = getenv ''PS_TESTBOT_PASSWORD'',
     SlackDeployWebhookURL = trim_space (getenv ''PS_MCP_SLACK_DEPLOY_WEBHOOK_URL'')\<rparr>"

section \<open>Flags\<close>

datatype flag_error =
    BadFlagSyntax string
  | HelpRequested
  | FlagNotDefined string
  | FlagNeedsArgument string
  | FlagValueInvalid string string

definition flag_names :: "string list" where "flag_names = [''transport'', ''listen'', ''max-concurrent'']"

definition set_flag :: "string \<Rightarrow> string \<Rightarrow> Config \<Rightarrow> (flag_error, Config) result" where
  "set_flag name v c =
    (if name = ''transport'' then Inr (c\<lparr>Transport := v\<rparr>)
     else if name = ''listen'' then Inr (c\<lparr>ListenAddress := v\<rparr>)
     else (case parse_int_any v of None \<Rightarrow> Inl (FlagValueInvalid name v) | Some n \<Rightarrow> Inr (c\<lparr>MaxConcurrent := n\<rparr>)))"

text \<open>The name and the value after \<open>=\<close>, which cannot be first.\<close>

definition split_flag :: "string \<Rightarrow> string \<times> string option" where
  "split_flag s =
    (if CHR ''='' \<in> set s then (takeWhile (\<lambda>c. c \<noteq> CHR ''='') s, Some (tl (dropWhile (\<lambda>c. c \<noteq> CHR ''='') s)))
     else (s, None))"

text \<open>\<open>FlagSet.Parse\<close> with \<open>ContinueOnError\<close>; no flag is boolean. What is not a flag ends the parsing.\<close>

fun parse_flags :: "string list \<Rightarrow> Config \<Rightarrow> (flag_error, Config) result" where
  "parse_flags [] c = Inr c"
| "parse_flags (s # args) c =
    (if length s < 2 \<or> hd s \<noteq> CHR ''-'' \<or> s = ''--'' then Inr c
     else
       (let name0 = (if s ! 1 = CHR ''-'' then drop 2 s else tl s); (name, given) = split_flag name0 in
        if name0 = [] \<or> hd name0 = CHR ''-'' \<or> hd name0 = CHR ''='' then Inl (BadFlagSyntax s)
        else if name \<notin> set flag_names then
          Inl (if name = ''help'' \<or> name = ''h'' then HelpRequested else FlagNotDefined name)
        else (case given of
            Some v \<Rightarrow> (case set_flag name v c of Inl e \<Rightarrow> Inl e | Inr c' \<Rightarrow> parse_flags args c')
          | None \<Rightarrow>
            (case args of
               [] \<Rightarrow> Inl (FlagNeedsArgument name)
             | v # rest \<Rightarrow> (case set_flag name v c of Inl e \<Rightarrow> Inl e | Inr c' \<Rightarrow> parse_flags rest c')))))"

section \<open>Tokens\<close>

datatype app_error =
    TokensNotJSON
  | TokenNameEmpty
  | TokenEmpty string
  | TokenShared string string
  | TokenNameReserved
  | TokenDuplicated string
  | LogArgsNotJSON
  | FlagsInvalid flag_error
  | ListenRequired
  | TokenRequired
  | TransportUnknown
  | MaxConcurrentNotPositive
  | DBPortRange
  | DBUserRequired
  | DBPasswordRequired
  | RedisDatabaseNegative
  | LogCommandRequired
  | APIConfigNotAbsolute
  | BotConfigNotAbsolute
  | BotIncomplete

definition subtleTokenEqual :: "string \<Rightarrow> string \<Rightarrow> bool" where
  "subtleTokenEqual left right \<longleftrightarrow> length left = length right \<and> left = right"

text \<open>The loop of \<open>validateAuthTokens\<close>, with \<open>seenValues\<close>, in the order the map is visited; the result is the
  map as the loop leaves it.\<close>

fun check_tokens :: "(string \<times> string) list \<Rightarrow> (string \<times> string) list \<Rightarrow> (app_error, (string \<times> string) list) result" where
  "check_tokens seen [] = Inr []"
| "check_tokens seen ((name, value0) # rest) =
    guard_err (trim_space name = []) TokenNameEmpty (
    let v = trim_space value0 in
    guard_err (v = []) (TokenEmpty name) (
    (case map_of seen v of
       Some previous \<Rightarrow> Inl (TokenShared previous name)
     | None \<Rightarrow> bind_err id (check_tokens ((v, name) # seen) rest) (\<lambda>ts. Inr ((name, v) # ts)))))"

definition validateAuthTokens :: "(string \<times> string) list \<Rightarrow> (app_error, (string \<times> string) list) result" where
  "validateAuthTokens tokens = check_tokens [] tokens"

definition read_tokens :: "environment \<Rightarrow> Config \<Rightarrow> (app_error, Config) result" where
  "read_tokens getenv c =
    (let raw = trim_space (getenv ''PS_MCP_AUTH_TOKENS_JSON'') in
     if raw = [] then Inr c
     else (case unmarshal (decode_map decode_string []) raw [] of
         None \<Rightarrow> Inl TokensNotJSON
       | Some tokens \<Rightarrow> bind_err id (validateAuthTokens tokens) (\<lambda>ts. Inr (c\<lparr>AuthTokens := ts\<rparr>))))"

text \<open>The legacy token beside named ones.\<close>

definition check_legacy :: "Config \<Rightarrow> (app_error, unit) result" where
  "check_legacy c =
    (if AuthToken c \<noteq> [] \<and> AuthTokens c \<noteq> [] then
       guard_err (''legacy'' \<in> fst ` set (AuthTokens c)) TokenNameReserved (
       (case find (\<lambda>(name, v). subtleTokenEqual v (AuthToken c)) (AuthTokens c) of
          Some (name, v) \<Rightarrow> Inl (TokenDuplicated name)
        | None \<Rightarrow> ok))
     else ok)"

definition read_log_args :: "environment \<Rightarrow> Config \<Rightarrow> (app_error, Config) result" where
  "read_log_args getenv c =
    (let raw = trim_space (getenv ''PS_LOG_MCP_ARGS_JSON'') in
     if raw = [] then Inr c
     else (case unmarshal (decode_slice decode_string []) raw [] of
         None \<Rightarrow> Inl LogArgsNotJSON | Some args \<Rightarrow> Inr (c\<lparr>LogMCPArgs := args\<rparr>)))"

section \<open>Checks\<close>

definition check_transport :: "Config \<Rightarrow> (app_error, unit) result" where
  "check_transport c =
    (if Transport c = TransportStdio then ok
     else if Transport c = TransportHTTP then
       guard_err (ListenAddress c = []) ListenRequired (
       guard_err (AuthToken c = [] \<and> AuthTokens c = []) TokenRequired ok)
     else Inl TransportUnknown)"

definition check_db :: "Config \<Rightarrow> (app_error, unit) result" where
  "check_db c =
    (if TestDBHost c \<noteq> [] then
       guard_err (TestDBPort c < 1 \<or> 65535 < TestDBPort c) DBPortRange (
       guard_err (TestDBUser c = []) DBUserRequired (
       guard_err (TestDBPassword c = []) DBPasswordRequired ok))
     else ok)"

definition check_bot :: "Config \<Rightarrow> (app_error, unit) result" where
  "check_bot c =
    (let creds = TestBotArea c \<noteq> [] \<or> TestBotMobile c \<noteq> [] \<or> TestBotPassword c \<noteq> [] in
     if TestBotConfig c \<noteq> [] \<or> creds then
       guard_err (TestBotConfig c = [] \<or> TestBotArea c = [] \<or> TestBotMobile c = [] \<or> TestBotPassword c = []) BotIncomplete ok
     else ok)"

definition check_rest :: "Config \<Rightarrow> (app_error, unit) result" where
  "check_rest c =
    guard_err (TestRedisDatabase c < 0) RedisDatabaseNegative (
    guard_err (LogMCPCommand c = [] \<and> LogMCPArgs c \<noteq> []) LogCommandRequired (
    guard_err (ReadOnlyAPIConfig c \<noteq> [] \<and> \<not> has_prefix (ReadOnlyAPIConfig c) ''/'') APIConfigNotAbsolute (
    guard_err (TestBotConfig c \<noteq> [] \<and> \<not> has_prefix (TestBotConfig c) ''/'') BotConfigNotAbsolute (
    check_bot c))))"

definition normalize_config :: "unicode \<Rightarrow> Config \<Rightarrow> Config" where
  "normalize_config U c = c\<lparr>Transport := to_lower U (trim_space (Transport c)), ListenAddress := trim_space (ListenAddress c)\<rparr>"

definition Parse :: "unicode \<Rightarrow> string list \<Rightarrow> environment \<Rightarrow> (app_error, Config) result" where
  "Parse U args getenv =
    bind_err id (read_tokens getenv (env_config getenv)) (\<lambda>c1.
    bind_err id (check_legacy c1) (\<lambda>_.
    bind_err id (read_log_args getenv c1) (\<lambda>c2.
    bind_err FlagsInvalid (parse_flags args c2) (\<lambda>c3.
    let config = normalize_config U c3 in
    bind_err id (check_transport config) (\<lambda>_.
    guard_err (MaxConcurrent config \<le> 0) MaxConcurrentNotPositive (
    bind_err id (check_db config) (\<lambda>_.
    bind_err id (check_rest config) (\<lambda>_.
    Inr config))))))))"

text \<open>\<open>runHTTP\<close>: the map of tokens and the handler.\<close>

definition http_tokens :: "Config \<Rightarrow> (string \<times> string) list" where
  "http_tokens c = (if AuthToken c \<noteq> [] then AList.update ''legacy'' (AuthToken c) (AuthTokens c) else AuthTokens c)"

definition http_handler :: "Config \<Rightarrow> bool \<Rightarrow> gate option" where
  "http_handler c logger = NewHandler (http_tokens c) (MaxConcurrent c) logger"

section \<open>Facts\<close>

lemma check_tokens_ok:
  "check_tokens seen tokens = Inr ts \<Longrightarrow>
    map fst ts = map fst tokens \<and> distinct (map snd ts) \<and> set (map snd ts) \<inter> fst ` set seen = {}
    \<and> (\<forall>v \<in> set (map snd ts). v \<noteq> [] \<and> trim_space v = v)"
proof (induction seen tokens arbitrary: ts rule: check_tokens.induct)
  case (2 seen name v0 rest)
  have new: "map_of seen (trim_space v0) = None"
    using "2.prems" by (cases "map_of seen (trim_space v0)") (simp_all add: Let_def)
  then obtain us where us: "check_tokens ((trim_space v0, name) # seen) rest = Inr us" "ts = (name, trim_space v0) # us"
    "trim_space name \<noteq> []" "trim_space v0 \<noteq> []"
    using "2.prems" by (auto simp: Let_def)
  show ?case using "2.IH"[OF refl new us(1)] us(2-4) new by (auto simp: map_of_eq_None_iff)
qed simp

lemma decode_map_distinct:
  assumes "unmarshal (decode_map d z) raw [] = Some m"
  shows "distinct (map fst m)"
proof -
  have entries: "decode_entries d z ms m0 = Some m \<Longrightarrow> distinct (map fst m0) \<Longrightarrow> distinct (map fst m)" for ms m0
    by (induction d z ms m0 rule: decode_entries.induct) (auto simp: distinct_update split: option.splits)
  obtain v where "decode_map d z v [] = Some m" using assms by (auto simp: unmarshal_def split: option.splits)
  then show ?thesis using entries by (cases v) (auto split: option.splits)
qed

text \<open>What a configuration that was read satisfies.\<close>

definition tokens_ok :: "Config \<Rightarrow> bool" where
  "tokens_ok c \<longleftrightarrow> distinct (map fst (AuthTokens c)) \<and> distinct (map snd (AuthTokens c))
    \<and> (\<forall>v \<in> snd ` set (AuthTokens c). v \<noteq> [] \<and> trim_space v = v) \<and> trim_space (AuthToken c) = AuthToken c
    \<and> (AuthToken c \<noteq> [] \<longrightarrow> ''legacy'' \<notin> fst ` set (AuthTokens c) \<and> AuthToken c \<notin> snd ` set (AuthTokens c))"

definition settings_ok :: "Config \<Rightarrow> bool" where
  "settings_ok c \<longleftrightarrow>
     (Transport c = ''stdio'' \<or> Transport c = ''http'' \<and> ListenAddress c \<noteq> [] \<and> (AuthToken c \<noteq> [] \<or> AuthTokens c \<noteq> []))
   \<and> 0 < MaxConcurrent c
   \<and> (if DirectDBEnabled c then 1 \<le> TestDBPort c \<and> TestDBPort c \<le> 65535 \<and> TestDBUser c \<noteq> [] \<and> TestDBPassword c \<noteq> [] else True)
   \<and> 0 \<le> TestRedisDatabase c
   \<and> (if LogMCPCommand c = [] then LogMCPArgs c = [] else True)
   \<and> (if ReadOnlyAPIConfig c \<noteq> [] then has_prefix (ReadOnlyAPIConfig c) ''/'' else True)
   \<and> (if TestBotEnabled c
      then has_prefix (TestBotConfig c) ''/'' \<and> TestBotArea c \<noteq> [] \<and> TestBotMobile c \<noteq> [] \<and> TestBotPassword c \<noteq> []
      else TestBotArea c = [] \<and> TestBotMobile c = [] \<and> TestBotPassword c = [])"

text \<open>What the command line cannot change: the fields without a flag.\<close>

definition unflagged :: "Config \<Rightarrow> Config" where
  "unflagged c = c\<lparr>Transport := [], ListenAddress := [], MaxConcurrent := 0\<rparr>"

lemma parse_flags_unflagged: "parse_flags args c = Inr c' \<Longrightarrow> unflagged c' = unflagged c"
proof (induction args c arbitrary: c' rule: parse_flags.induct)
  case (2 s args c)
  have step: "set_flag n v c = Inr c1 \<Longrightarrow> unflagged c1 = unflagged c" for n v c1
    by (auto simp: set_flag_def unflagged_def split: if_splits option.splits)
  obtain name0 where name0: "name0 = (if s ! 1 = CHR ''-'' then drop 2 s else tl s)" by blast
  obtain name given where sp: "split_flag name0 = (name, given)" by force
  show ?case
  proof (cases "length s < 2 \<or> hd s \<noteq> CHR ''-'' \<or> s = ''--''")
    case False
    note prem = "2.prems"[unfolded parse_flags.simps(2) if_not_P[OF False] Let_def name0[symmetric] sp prod.case]
    have go: "\<not> (name0 = [] \<or> hd name0 = CHR ''-'' \<or> hd name0 = CHR ''='')" "name \<in> set flag_names"
      using prem by (auto split: if_splits)
    have known: "\<not> name \<notin> set flag_names" using go(2) by simp
    show ?thesis
    proof (cases given)
      case (Some v)
      then obtain c1 where c1: "set_flag name v c = Inr c1" "parse_flags args c1 = Inr c'"
        using prem go by (auto split: sum.splits)
      show ?thesis using "2.IH"(2)[OF False name0 refl sp[symmetric] go(1) known Some c1] step[OF c1(1)] by simp
    next
      case None
      then obtain v rest c1 where c1: "args = v # rest" "set_flag name v c = Inr c1" "parse_flags rest c1 = Inr c'"
        using prem go by (auto split: sum.splits list.splits)
      show ?thesis using "2.IH"(1)[OF False name0 refl sp[symmetric] go(1) known None c1] step[OF c1(2)] by simp
    qed
  qed (use "2.prems" in simp)
qed simp

lemma Parse_cases:
  assumes "Parse U args getenv = Inr config"
  obtains c1 c2 c3 where "read_tokens getenv (env_config getenv) = Inr c1" "check_legacy c1 = ok"
    "read_log_args getenv c1 = Inr c2" "parse_flags args c2 = Inr c3" "config = normalize_config U c3"
    "check_transport config = ok" "0 < MaxConcurrent config" "check_db config = ok" "check_rest config = ok"
  using assms unfolding Parse_def Let_def bind_err_Inr guard_err_Inr
  by (metis old.unit.exhaust not_le_imp_less sum.inject(2))

lemma Parse_config_ok:
  assumes "Parse U args getenv = Inr config"
  shows "settings_ok config"
proof -
  note p = Parse_cases[OF assms]
  have t: "check_transport config = ok" "0 < MaxConcurrent config" "check_db config = ok" "check_rest config = ok"
    by (rule p; assumption)+
  have "Transport config = ''stdio'' \<or> Transport config = ''http'' \<and> ListenAddress config \<noteq> [] \<and> (AuthToken config \<noteq> [] \<or> AuthTokens config \<noteq> [])"
    using t(1) by (auto simp: check_transport_def TransportStdio_def TransportHTTP_def split: if_splits)
  moreover have "if DirectDBEnabled config then 1 \<le> TestDBPort config \<and> TestDBPort config \<le> 65535 \<and> TestDBUser config \<noteq> [] \<and> TestDBPassword config \<noteq> [] else True"
    using t(3) by (auto simp: check_db_def DirectDBEnabled_def)
  ultimately show ?thesis
    using t(2,4) unfolding settings_ok_def
    by (auto simp: check_rest_def check_bot_def Let_def TestBotEnabled_def split: if_splits)
qed

lemma Parse_tokens_ok:
  assumes "Parse U args getenv = Inr config"
  shows "tokens_ok config"
proof -
  obtain c1 c2 c3 where p: "read_tokens getenv (env_config getenv) = Inr c1" "check_legacy c1 = ok"
    "read_log_args getenv c1 = Inr c2" "parse_flags args c2 = Inr c3" "config = normalize_config U c3"
    using Parse_cases[OF assms] by metis
  have tok: "AuthToken c1 = trim_space (getenv ''PS_MCP_AUTH_TOKEN'')"
    using p(1) by (auto simp: read_tokens_def env_config_def Let_def split: if_splits option.splits)
  have named: "distinct (map fst (AuthTokens c1)) \<and> distinct (map snd (AuthTokens c1))
      \<and> (\<forall>v \<in> snd ` set (AuthTokens c1). v \<noteq> [] \<and> trim_space v = v)"
  proof (cases "trim_space (getenv ''PS_MCP_AUTH_TOKENS_JSON'') = []")
    case True
    then show ?thesis using p(1) by (auto simp: read_tokens_def env_config_def)
  next
    case False
    then obtain tokens ts where t: "unmarshal (decode_map decode_string []) (trim_space (getenv ''PS_MCP_AUTH_TOKENS_JSON'')) [] = Some tokens"
      "validateAuthTokens tokens = Inr ts" "AuthTokens c1 = ts"
      using p(1) by (auto simp: read_tokens_def Let_def split: option.splits)
    note checked = check_tokens_ok[OF t(2)[unfolded validateAuthTokens_def]]
    have "distinct (map fst ts)" using checked decode_map_distinct[OF t(1)] by simp
    moreover have "distinct (map snd ts)" using checked by blast
    moreover have "\<forall>v \<in> set (map snd ts). v \<noteq> [] \<and> trim_space v = v" using checked by blast
    ultimately show ?thesis by (simp add: t(3))
  qed
  have legacy: "AuthToken c1 \<noteq> [] \<longrightarrow> ''legacy'' \<notin> fst ` set (AuthTokens c1) \<and> AuthToken c1 \<notin> snd ` set (AuthTokens c1)"
  proof (cases "AuthToken c1 \<noteq> [] \<and> AuthTokens c1 \<noteq> []")
    case True
    then have "''legacy'' \<notin> fst ` set (AuthTokens c1)"
      "find (\<lambda>(name, v). subtleTokenEqual v (AuthToken c1)) (AuthTokens c1) = None"
      using p(2) by (auto simp: check_legacy_def split: option.splits)
    then show ?thesis by (fastforce simp: find_None_iff subtleTokenEqual_def)
  qed auto
  have same: "AuthToken config = AuthToken c1" "AuthTokens config = AuthTokens c1"
  proof -
    have "unflagged config = unflagged c2" using parse_flags_unflagged[OF p(4)] p(5)
      by (simp add: normalize_config_def unflagged_def)
    then have "AuthToken config = AuthToken c2" "AuthTokens config = AuthTokens c2"
      unfolding unflagged_def by (metis Config.select_convs Config.surjective Config.update_convs)+
    moreover have "AuthToken c2 = AuthToken c1" "AuthTokens c2 = AuthTokens c1"
      using p(3) by (auto simp: read_log_args_def Let_def split: if_splits option.splits)
    ultimately show "AuthToken config = AuthToken c1" "AuthTokens config = AuthTokens c1" by simp_all
  qed
  show ?thesis using named legacy tok by (simp add: tokens_ok_def same)
qed

text \<open>Who gets in, and under which name.\<close>

lemma authenticate_name:
  assumes "distinct (map snd tokens)" "(name, token) \<in> set tokens" "bears req token"
  shows "authenticate tokens req = (None, AuthorizedCall (c_remote req) name)"
proof -
  have p: "parseBearerToken (c_authorization req) = (token, True)" using assms(3) by (simp add: parseBearerToken_spec)
  have m: "snd (matchToken tokens token)" using assms(2) by (force simp: matchToken_spec(1))
  obtain n where n: "matchToken tokens token = (n, True)" using m by (cases "matchToken tokens token") simp
  have "(n, token) \<in> set tokens" using matchToken_spec(2)[OF m] n by simp
  then have "n = name" using assms(1,2) unfolding distinct_map inj_on_def by fastforce
  then show ?thesis by (simp add: authenticate_def p n)
qed

lemma authenticated_bears:
  assumes "authenticate tokens req = (None, AuthorizedCall remote name)"
  shows "\<exists>token. (name, token) \<in> set tokens \<and> bears req token"
proof -
  obtain provided valid where p: "parseBearerToken (c_authorization req) = (provided, valid)" by force
  obtain n m where n: "matchToken tokens provided = (n, m)" by force
  have "valid" "m" "n = name" using assms by (auto simp: authenticate_def p n split: if_splits)
  then show ?thesis using matchToken_spec(2)[of tokens provided] n p parseBearerToken_spec[of req provided] by auto
qed

lemma set_http_tokens:
  assumes "tokens_ok c"
  shows "set (http_tokens c) = set (AuthTokens c) \<union> (if AuthToken c \<noteq> [] then {(''legacy'', AuthToken c)} else {})"
    "distinct (map fst (http_tokens c))" "distinct (map snd (http_tokens c))"
proof -
  have new: "k \<notin> fst ` set m \<Longrightarrow> AList.update k v m = m @ [(k, v)]" for k v and m :: "(string \<times> string) list"
    by (induction m) auto
  have "http_tokens c = AuthTokens c @ (if AuthToken c \<noteq> [] then [(''legacy'', AuthToken c)] else [])"
    using assms by (simp add: http_tokens_def tokens_ok_def new)
  then show "set (http_tokens c) = set (AuthTokens c) \<union> (if AuthToken c \<noteq> [] then {(''legacy'', AuthToken c)} else {})"
    "distinct (map fst (http_tokens c))" "distinct (map snd (http_tokens c))"
    using assms by (auto simp: tokens_ok_def)
qed

section \<open>Properties\<close>

text \<open>C12: A configuration that is read for the HTTP transport always yields a handler that admits somebody: it
  has room for a request and at least one token; a caller who presents a configured token gets in under
  the name of that token and no other, and whoever gets in has presented a configured, non-empty
  token of that name. The trimming and the refusal of shared and reserved tokens in \<open>Parse\<close> are what
  this rests on.\<close>

theorem config_http_gate:
  assumes "Parse U args getenv = Inr config" "Transport config = ''http''"
  shows "case http_handler config logger of
      None \<Rightarrow> False
    | Some g \<Rightarrow> 0 < g_capacity g \<and> g_tokens g \<noteq> []
        \<and> set (g_tokens g) = set (AuthTokens config) \<union> (if AuthToken config \<noteq> [] then {(''legacy'', AuthToken config)} else {})
        \<and> (\<forall>req name token. (name, token) \<in> set (g_tokens g) \<and> c_authorization req = ''Bearer '' @ token \<longrightarrow>
              authenticate (g_tokens g) req = (None, AuthorizedCall (c_remote req) name))
        \<and> (\<forall>req name. authenticate (g_tokens g) req = (None, AuthorizedCall (c_remote req) name) \<longrightarrow>
              (\<exists>token. token \<noteq> [] \<and> (name, token) \<in> set (g_tokens g) \<and> bears req token))"
proof -
  note ok = Parse_config_ok[OF assms(1)] and tok = Parse_tokens_ok[OF assms(1)]
  note set = set_http_tokens[OF tok]
  have cap: "0 < MaxConcurrent config" "AuthToken config \<noteq> [] \<or> AuthTokens config \<noteq> []"
    using ok assms(2) by (auto simp: settings_ok_def)
  have good: "token \<noteq> [] \<and> trim_space token = token" if "(name, token) \<in> set (http_tokens config)" for name token
    using that tok unfolding set(1) by (force simp: tokens_ok_def split: if_splits)
  have "authenticate (http_tokens config) req = (None, AuthorizedCall (c_remote req) name)"
    if "(name, token) \<in> set (http_tokens config)" "c_authorization req = ''Bearer '' @ token" for req name token
    using authenticate_name[OF set(3) that(1)] good[OF that(1)] that(2) by (simp add: bears_def)
  moreover have "\<exists>token. token \<noteq> [] \<and> (name, token) \<in> set (http_tokens config) \<and> bears req token"
    if "authenticate (http_tokens config) req = (None, AuthorizedCall (c_remote req) name)" for req name
    using authenticated_bears[OF that] good by blast
  moreover have "http_tokens config \<noteq> []" "0 < nat (MaxConcurrent config)" using cap set(1) by auto
  moreover have h: "http_handler config logger = Some \<lparr>g_tokens = http_tokens config, g_capacity = nat (MaxConcurrent config),
      g_slots = 0, g_inflight = [], g_logger = logger, g_log = []\<rparr>"
    using cap(1) by (simp add: http_handler_def NewHandler_def)
  ultimately show ?thesis using set(1) unfolding h option.case gate.simps by blast
qed

definition sample_env :: environment where
  "sample_env = (\<lambda>_. [])(''PS_MCP_TRANSPORT'' := ''HTTP '', ''PS_MCP_AUTH_TOKEN'' := ''old'',
     ''PS_MCP_AUTH_TOKENS_JSON'' := [CHR 0x7B] @ quote ''ci'' @ '':'' @ quote '' new '' @ [CHR 0x7D])"

definition sample_args :: "string list" where
  "sample_args = [''--max-concurrent=0x_2'', ''-listen'', '':1'']"

theorem config_http_gate_witness:
  "authenticate [(''ci'', ''new''), (''legacy'', ''old'')]
     \<lparr>c_method = ''POST'', c_path = ''/mcp'', c_authorization = ''Bearer new'', c_remote = ''r''\<rparr>
   = (None, AuthorizedCall ''r'' ''ci'')"
proof -
  let ?c = "(env_config sample_env)\<lparr>Transport := ''http'', ListenAddress := '':1'', AuthTokens := [(''ci'', ''new'')], MaxConcurrent := 2\<rparr>"
  have parsed: "Parse sample_unicode sample_args sample_env = Inr ?c" by code_simp
  have h: "http_handler ?c False = Some \<lparr>g_tokens = [(''ci'', ''new''), (''legacy'', ''old'')], g_capacity = 2, g_slots = 0, g_inflight = [],
      g_logger = False, g_log = []\<rparr>"
    by code_simp
  let ?r = "\<lparr>c_method = ''POST'', c_path = ''/mcp'', c_authorization = ''Bearer new'', c_remote = ''r''\<rparr>"
  have http: "Transport ?c = ''http''" by simp
  have "\<forall>req name token. (name, token) \<in> set [(''ci'', ''new''), (''legacy'', ''old'')] \<and> c_authorization req = ''Bearer '' @ token
      \<longrightarrow> authenticate [(''ci'', ''new''), (''legacy'', ''old'')] req = (None, AuthorizedCall (c_remote req) name)"
    using config_http_gate[OF parsed http, of False] unfolding h option.case gate.simps by blast
  then show ?thesis by (auto dest!: spec[of _ ?r] spec[of _ "''ci''"])
qed

text \<open>A number that does not parse reads as 0, and 0 is a valid database: a mistyped
  \<open>PS_TEST_REDIS_DATABASE\<close> selects database 0 without an error, while the same mistake in the port of
  the SQL database is refused.\<close>

lemma mistyped_redis_database:
  "let env = (\<lambda>_. [])(''PS_TEST_REDIS_ADDRESS'' := '':6379'', ''PS_TEST_REDIS_DATABASE'' := ''3O'') in
   case Parse sample_unicode [] env of Inl e \<Rightarrow> False | Inr c \<Rightarrow> TestRedisDatabase c = 0"
  "let env = (\<lambda>_. [])(''PS_TEST_DB_HOST'' := ''h'', ''PS_TEST_DB_PORT'' := ''33O6'') in
   Parse sample_unicode [] env = Inl DBPortRange"
  by code_simp+

end
