(* ===== verification/DeployService.thy ===== *)
theory DeployService
  imports GoRegexp
begin

text \<open>
  \<open>internal/testdeploy/service.go\<close>: the inputs and their validation, the arguments of the deploy
  script, the output capture that recognises the deploy phase, the runner, the notification
  sequence of one deployment, and the parser of process states. The script is a parameter: what
  it writes, in chunks, and how it exits.
\<close>

section \<open>Constants and types\<close>

definition maxOutputBytes :: nat where "maxOutputBytes = 65536"

definition deployPhaseMarker :: string where
  "deployPhaseMarker = ''[deploy-server] phase=deploying''"

record DeploymentInput =
  Service :: string
  Processes :: "string list"
  SkipTests :: bool
  KeepBackups :: int

record ProcessActionInput =
  ActionService :: string
  ActionProcesses :: "string list"

record ProcessStatus =
  Process :: string
  State :: string
  PID :: int
  Detail :: string

datatype DeploymentStatus =
    DeploymentCompiling
  | DeploymentDeploying
  | DeploymentSucceeded
  | DeploymentCompileFailed
  | DeploymentFailed
  | DeploymentCanceled

fun status_text :: "DeploymentStatus \<Rightarrow> string" where
  "status_text DeploymentCompiling = ''compiling''"
| "status_text DeploymentDeploying = ''deploying''"
| "status_text DeploymentSucceeded = ''succeeded''"
| "status_text DeploymentCompileFailed = ''compile_failed''"
| "status_text DeploymentFailed = ''failed''"
| "status_text DeploymentCanceled = ''canceled''"

record DeploymentNotification =
  n_Status :: DeploymentStatus
  n_Service :: string
  n_Processes :: "string list"
  n_SkipTests :: bool
  n_Duration :: int

datatype NotificationDelivery = DeliveryDisabled | DeliveryFailed string | DeliverySent

record DeploymentEvent =
  Notification :: DeploymentNotification
  Delivery :: NotificationDelivery

section \<open>Validation\<close>

definition selector_word :: "char \<Rightarrow> bool" where
  "selector_word c \<longleftrightarrow> alnum_cls c \<or> c = CHR ''_'' \<or> c = CHR ''.'' \<or> c = CHR ''-''"

definition selector_part :: "char \<Rightarrow> bool" where
  "selector_part c \<longleftrightarrow> alnum_cls c \<or> c = CHR ''_'' \<or> c = CHR ''-''"

definition selectorPattern :: re where
  "selectorPattern = whole (alts
    [lit ''all'', lit ''http'', lit ''rpc'',
     Cat (lit ''cmd.'') (Plus (Cls selector_word)),
     Cat (lit ''go.ps_'') (alts [lit ''http'', lit ''rpc'', Cat (lit ''cmd.'') (Plus (Cls selector_part))]),
     Cat (lit ''room.'') (alts [lit ''http'', lit ''rpc'', Cat (lit ''cmd.'') (Plus (Cls selector_word))])])"

datatype input_error = ServiceNotAllowed | NoProcess | BadSelector string | KeepBackupsRange

definition validateService :: "string \<Rightarrow> (input_error, unit) result" where
  "validateService service =
    guard_err (service \<noteq> ''psl-be-partystar'' \<and> service \<noteq> ''psl-be-room'') ServiceNotAllowed ok"

fun validate_selectors :: "string list \<Rightarrow> (input_error, unit) result" where
  "validate_selectors [] = ok"
| "validate_selectors (process # rest) =
    guard_err (\<not> match_string selectorPattern process) (BadSelector process) (validate_selectors rest)"

definition validateDeployment :: "DeploymentInput \<Rightarrow> (input_error, unit) result" where
  "validateDeployment input =
    bind_err id (validateService (Service input)) (\<lambda>_.
    guard_err (Processes input = []) NoProcess (
    bind_err id (validate_selectors (Processes input)) (\<lambda>_.
    guard_err (KeepBackups input < 0 \<or> 20 < KeepBackups input) KeepBackupsRange ok)))"

definition validateProcessAction :: "ProcessActionInput \<Rightarrow> (input_error, unit) result" where
  "validateProcessAction input = validateDeployment
    \<lparr>Service = ActionService input, Processes = ActionProcesses input, SkipTests = False, KeepBackups = 0\<rparr>"

section \<open>The output capture and the runner\<close>

text \<open>\<open>onDeploying\<close> being set, \<open>fired\<close> is the state of the \<open>sync.Once\<close>.\<close>

record commandOutputCapture =
  buffer :: string
  watching :: bool
  fired :: bool

text \<open>The capture after the write, and whether this write calls \<open>onDeploying\<close>.\<close>

definition capture_Write :: "commandOutputCapture \<Rightarrow> string \<Rightarrow> commandOutputCapture \<times> bool" where
  "capture_Write c p =
    (let b = buffer c @ p; deploying = (watching c \<and> contains b deployPhaseMarker) in
     (c\<lparr>buffer := b, fired := fired c \<or> deploying\<rparr>, deploying \<and> \<not> fired c))"

text \<open>All writes of a process: the calls of \<open>onDeploying\<close>, as the number of bytes written before.\<close>

fun capture_writes :: "commandOutputCapture \<Rightarrow> string list \<Rightarrow> commandOutputCapture \<times> nat list" where
  "capture_writes c [] = (c, [])"
| "capture_writes c (p # ps) =
    (case capture_Write c p of (c', call) \<Rightarrow>
      (case capture_writes c' ps of (c'', calls) \<Rightarrow>
        (c'', (if call then [length (buffer c')] else []) @ calls)))"

text \<open>
  What the script does when it runs with some arguments: the chunks it writes to its output and
  the error of \<open>cmd.Run\<close> (a killed process group and the wait delay included).
\<close>

record script_run =
  chunks :: "string list"
  exit_error :: "string option"

text \<open>
  What \<open>Run\<close> gives back: whether it called \<open>onDeploying\<close>, the output, and the error, which
  comes beside the output.
\<close>

record run_result =
  called :: bool
  run_output :: string
  run_err :: "string option"

definition commandRunner_Run :: "(string list \<Rightarrow> script_run) \<Rightarrow> bool \<Rightarrow> string list \<Rightarrow> run_result" where
  "commandRunner_Run script onDeploying args =
    (let proc = script args;
         (capture, calls) = capture_writes \<lparr>buffer = [], watching = onDeploying, fired = False\<rparr> (chunks proc);
         all = buffer capture;
         bounded = (if maxOutputBytes < length all then drop (length all - maxOutputBytes) all else all);
         message = trim_space bounded
     in case exit_error proc of
          None \<Rightarrow> \<lparr>called = (calls \<noteq> []), run_output = bounded, run_err = None\<rparr>
        | Some e \<Rightarrow>
          if message = [] then
            \<lparr>called = (calls \<noteq> []), run_output = [], run_err = Some (''deploy command failed: '' @ e)\<rparr>
          else
            \<lparr>called = (calls \<noteq> []), run_output = bounded,
              run_err = Some (''deploy command failed: '' @ e @ [CHR 0x0A] @ message)\<rparr>)"

section \<open>Deployments\<close>

text \<open>The runner of a service: the phase callback (set or not) and the arguments.\<close>

type_synonym runner = "bool \<Rightarrow> string list \<Rightarrow> run_result"

text \<open>A notifier, if there is one: the error of \<open>Notify\<close>.\<close>

type_synonym notifier = "(DeploymentNotification \<Rightarrow> string option) option"

datatype deploy_error = InvalidInput input_error | CommandFailed string

definition deployment_args :: "string \<Rightarrow> DeploymentInput \<Rightarrow> string list" where
  "deployment_args action input =
    [action, Service input] @ Processes input
      @ (if SkipTests input then [''--skip-tests''] else [])
      @ (if 0 < KeepBackups input then [''--keep-backups'', itoa (KeepBackups input)] else [])"

text \<open>The output, the error, and whether the deploy phase was announced.\<close>

definition runDeploymentCommand :: "runner \<Rightarrow> string \<Rightarrow> DeploymentInput \<Rightarrow> bool
    \<Rightarrow> string \<times> deploy_error option \<times> bool" where
  "runDeploymentCommand runner action input onDeploying =
    (case validateDeployment input of
       Inl e \<Rightarrow> ([], Some (InvalidInput e), False)
     | Inr _ \<Rightarrow>
       (let r = runner onDeploying (deployment_args action input) in
        (run_output r, map_option CommandFailed (run_err r), called r)))"

definition notify :: "notifier \<Rightarrow> DeploymentNotification \<Rightarrow> NotificationDelivery" where
  "notify notifier event =
    (case notifier of
       None \<Rightarrow> DeliveryDisabled
     | Some f \<Rightarrow> (case f event of Some e \<Rightarrow> DeliveryFailed e | None \<Rightarrow> DeliverySent))"

definition notification :: "DeploymentInput \<Rightarrow> DeploymentStatus \<Rightarrow> int \<Rightarrow> DeploymentNotification" where
  "notification input status duration =
    \<lparr>n_Status = status, n_Service = Service input, n_Processes = Processes input,
     n_SkipTests = SkipTests input, n_Duration = duration\<rparr>"

definition notifyAndObserve :: "notifier \<Rightarrow> DeploymentNotification \<Rightarrow> DeploymentEvent" where
  "notifyAndObserve notifier event = \<lparr>Notification = event, Delivery = notify notifier event\<rparr>"

text \<open>
  The status a deployment ends with: canceled if its context is by then, otherwise by the error
  and by whether the deploy phase had begun.
\<close>

definition final_status :: "bool \<Rightarrow> bool \<Rightarrow> bool \<Rightarrow> DeploymentStatus" where
  "final_status canceled failed deploying =
    (if canceled then DeploymentCanceled
     else if failed then (if deploying then DeploymentFailed else DeploymentCompileFailed)
     else DeploymentSucceeded)"

text \<open>
  \<open>deploy\<close>: the observed events in their order, the output and the error. \<open>canceled\<close> tells whether
  the context is canceled when the command has returned.
\<close>

definition deploy :: "runner \<Rightarrow> notifier \<Rightarrow> bool \<Rightarrow> int \<Rightarrow> DeploymentInput
    \<Rightarrow> DeploymentEvent list \<times> string \<times> deploy_error option" where
  "deploy runner notifier canceled duration input =
    (case validateDeployment input of
       Inl e \<Rightarrow> ([], [], Some (InvalidInput e))
     | Inr _ \<Rightarrow>
       (case runDeploymentCommand runner ''deploy'' input True of
          (output, err, deploying) \<Rightarrow>
            ([notifyAndObserve notifier (notification input DeploymentCompiling 0)]
              @ (if deploying then [notifyAndObserve notifier (notification input DeploymentDeploying 0)] else [])
              @ [notifyAndObserve notifier
                   (notification input (final_status canceled (err \<noteq> None) deploying) duration)],
             output, err)))"

definition Plan :: "runner \<Rightarrow> DeploymentInput \<Rightarrow> string \<times> deploy_error option" where
  "Plan runner input = (case runDeploymentCommand runner ''plan'' input False of (output, err, _) \<Rightarrow> (output, err))"

definition Deploy :: "runner \<Rightarrow> notifier \<Rightarrow> bool \<Rightarrow> int \<Rightarrow> DeploymentInput \<Rightarrow> string \<times> deploy_error option" where
  "Deploy runner notifier canceled duration input = snd (deploy runner notifier canceled duration input)"

text \<open>The service itself: what its constructors put together (\<open>script\<close> is what runs at \<open>defaultScriptPath\<close>).\<close>

record deploy_service =
  ds_runner :: runner
  ds_logger :: bool
  ds_notifier :: notifier

definition NewDeployService :: "(string list \<Rightarrow> script_run) \<Rightarrow> bool \<Rightarrow> deploy_service" where
  "NewDeployService script logger = \<lparr>ds_runner = commandRunner_Run script, ds_logger = logger, ds_notifier = None\<rparr>"

definition NewServiceWithRunner :: "runner \<Rightarrow> bool \<Rightarrow> deploy_service" where
  "NewServiceWithRunner runner logger = \<lparr>ds_runner = runner, ds_logger = logger, ds_notifier = None\<rparr>"

definition NewServiceWithNotifier :: "(string list \<Rightarrow> script_run) \<Rightarrow> notifier \<Rightarrow> bool \<Rightarrow> deploy_service" where
  "NewServiceWithNotifier script notifier logger =
    \<lparr>ds_runner = commandRunner_Run script, ds_logger = logger, ds_notifier = notifier\<rparr>"

definition NewServiceWithRunnerAndNotifier :: "runner \<Rightarrow> notifier \<Rightarrow> bool \<Rightarrow> deploy_service" where
  "NewServiceWithRunnerAndNotifier runner notifier logger =
    \<lparr>ds_runner = runner, ds_logger = logger, ds_notifier = notifier\<rparr>"

section \<open>Listing and states\<close>

definition nonEmptyLines :: "string \<Rightarrow> string list" where
  "nonEmptyLines output = filter (\<lambda>l. l \<noteq> []) (map trim_space (split_at newline output))"

definition ListServices :: "runner \<Rightarrow> (deploy_error, string list) result" where
  "ListServices runner =
    (let r = runner False [''list''] in
     case run_err r of Some e \<Rightarrow> Inl (CommandFailed e) | None \<Rightarrow> Inr (nonEmptyLines (run_output r)))"

definition ListProcesses :: "runner \<Rightarrow> string \<Rightarrow> (deploy_error, string list) result" where
  "ListProcesses runner service =
    bind_err InvalidInput (validateService service) (\<lambda>_.
    let r = runner False [''processes'', service] in
    case run_err r of Some e \<Rightarrow> Inl (CommandFailed e) | None \<Rightarrow> Inr (nonEmptyLines (run_output r)))"

definition parse_status_line :: "string \<Rightarrow> ProcessStatus option" where
  "parse_status_line line =
    (let fs = str_fields line in
     if length fs < 2 \<or> \<not> match_string selectorPattern (fs ! 0) then None
     else Some
       \<lparr>Process = fs ! 0, State = fs ! 1,
        PID = (if fs ! 1 = ''RUNNING'' \<and> 4 \<le> length fs \<and> fs ! 2 = ''pid''
               then atoi_value (trim_suffix (fs ! 3) '','') else 0),
        Detail = (if 2 < length fs then join '' '' (drop 2 fs) else [])\<rparr>)"

definition parseProcessStatuses :: "string \<Rightarrow> ProcessStatus list" where
  "parseProcessStatuses output = List.map_filter parse_status_line (nonEmptyLines output)"

definition action_args :: "string \<Rightarrow> ProcessActionInput \<Rightarrow> string list" where
  "action_args action input = [action, ActionService input] @ ActionProcesses input"

definition Service_Status :: "runner \<Rightarrow> ProcessActionInput \<Rightarrow> (deploy_error, ProcessStatus list) result" where
  "Service_Status runner input =
    bind_err InvalidInput (validateProcessAction input) (\<lambda>_.
    let r = runner False (action_args ''status'' input) in
    case run_err r of Some e \<Rightarrow> Inl (CommandFailed e) | None \<Rightarrow> Inr (parseProcessStatuses (run_output r)))"

section \<open>Facts\<close>

text \<open>The selectors, as a language.\<close>

definition selector_ok :: "string \<Rightarrow> bool" where
  "selector_ok s \<longleftrightarrow> s \<in> {''all'', ''http'', ''rpc'', ''go.ps_http'', ''go.ps_rpc'', ''room.http'', ''room.rpc''} \<or>
    (\<exists>w. w \<noteq> [] \<and> (\<forall>c \<in> set w. selector_word c) \<and> (s = ''cmd.'' @ w \<or> s = ''room.cmd.'' @ w)) \<or>
    (\<exists>w. w \<noteq> [] \<and> (\<forall>c \<in> set w. selector_part c) \<and> s = ''go.ps_cmd.'' @ w)"

lemma takes_lit_Cat: "takes (Cat (lit v) r) q w t \<longleftrightarrow> (\<exists>u. w = v @ u \<and> takes r (prev_after q v) u t)"
  by (auto simp: takes_Cat takes_lit)

lemma selector_takes:
  "match_string selectorPattern s \<longleftrightarrow>
    s = ''all'' \<or> s = ''http'' \<or> s = ''rpc'' \<or>
    (\<exists>w. s = ''cmd.'' @ w \<and> w \<noteq> [] \<and> (\<forall>c \<in> set w. selector_word c)) \<or>
    (\<exists>u. s = ''go.ps_'' @ u \<and> (u = ''http'' \<or> u = ''rpc'' \<or>
      (\<exists>w. u = ''cmd.'' @ w \<and> w \<noteq> [] \<and> (\<forall>c \<in> set w. selector_part c)))) \<or>
    (\<exists>u. s = ''room.'' @ u \<and> (u = ''http'' \<or> u = ''rpc'' \<or>
      (\<exists>w. u = ''cmd.'' @ w \<and> w \<noteq> [] \<and> (\<forall>c \<in> set w. selector_word c))))"
  unfolding selectorPattern_def match_whole takes_alts
  by (simp only: list.set bex_simps insert_iff empty_iff bex_empty takes_lit takes_lit_Cat takes_alts
      takes_plus_cls disj_assoc simp_thms)

lemma selector_iff: "match_string selectorPattern s \<longleftrightarrow> selector_ok s"
proof
  assume "match_string selectorPattern s"
  then show "selector_ok s"
    unfolding selector_takes selector_ok_def by (elim disjE exE conjE; hypsubst; simp)
next
  assume "selector_ok s"
  then show "match_string selectorPattern s"
    unfolding selector_takes selector_ok_def insert_iff empty_iff by (elim disjE exE conjE; hypsubst?; simp)
qed

lemma selector_part_word: "selector_part c \<Longrightarrow> selector_word c"
  by (auto simp: selector_part_def selector_word_def)

lemma selector_bytes:
  assumes "selector_ok s"
  shows "s \<noteq> [] \<and> hd s \<noteq> CHR ''-'' \<and> (\<forall>c \<in> set s. selector_word c)"
proof -
  have words: "\<forall>s \<in> set [''all'', ''http'', ''rpc'', ''go.ps_http'', ''go.ps_rpc'', ''room.http'', ''room.rpc''].
      s \<noteq> [] \<and> hd s \<noteq> CHR ''-'' \<and> (\<forall>c \<in> set s. selector_word c)"
    "\<forall>p \<in> set [''cmd.'', ''room.cmd.'', ''go.ps_cmd.'']. p \<noteq> [] \<and> hd p \<noteq> CHR ''-'' \<and> (\<forall>c \<in> set p. selector_word c)"
    by code_simp+
  have pre: "p @ w \<noteq> [] \<and> hd (p @ w) \<noteq> CHR ''-'' \<and> (\<forall>c \<in> set (p @ w). selector_word c)"
    if "p \<in> set [''cmd.'', ''room.cmd.'', ''go.ps_cmd.'']" "\<forall>c \<in> set w. selector_word c" for p w
    using bspec[OF words(2) that(1)] that(2) by auto
  from assms show ?thesis
    unfolding selector_ok_def list.set
  proof (elim disjE exE conjE)
    assume "s \<in> {''all'', ''http'', ''rpc'', ''go.ps_http'', ''go.ps_rpc'', ''room.http'', ''room.rpc''}"
    then show ?thesis by (rule bspec[OF words(1)[unfolded list.set]])
  next
    fix w assume "s = ''cmd.'' @ w" "\<forall>c \<in> set w. selector_word c"
    then show ?thesis by (simp only:) (rule pre; simp)
  next
    fix w assume "s = ''room.cmd.'' @ w" "\<forall>c \<in> set w. selector_word c"
    then show ?thesis by (simp only:) (rule pre; simp)
  next
    fix w assume "s = ''go.ps_cmd.'' @ w" "\<forall>c \<in> set w. selector_part c"
    then show ?thesis using selector_part_word by (simp only:) (rule pre; simp)
  qed
qed

lemma validate_selectors_ok: "validate_selectors ps = ok \<longleftrightarrow> (\<forall>p \<in> set ps. selector_ok p)"
  by (induction ps) (auto simp: selector_iff)

lemma validateDeployment_ok:
  "validateDeployment input = ok \<longleftrightarrow>
    Service input \<in> {''psl-be-partystar'', ''psl-be-room''} \<and> Processes input \<noteq> []
    \<and> (\<forall>p \<in> set (Processes input). selector_ok p) \<and> 0 \<le> KeepBackups input \<and> KeepBackups input \<le> 20"
  by (auto simp: validateDeployment_def validateService_def validate_selectors_ok not_less)

text \<open>The capture: what all writes together leave and how often they call.\<close>

lemma contains_append: "contains s m \<Longrightarrow> contains (s @ t) m"
  by (metis sublist_appendI sublist_def sublist_order.order_trans append_assoc)

definition capture_consistent :: "commandOutputCapture \<Rightarrow> bool" where
  "capture_consistent c \<longleftrightarrow> (fired c \<longleftrightarrow> watching c \<and> contains (buffer c) deployPhaseMarker)"

lemma capture_Write_spec:
  assumes "capture_consistent c" "capture_Write c p = (c', call)"
  shows "buffer c' = buffer c @ p \<and> watching c' = watching c \<and> capture_consistent c'
    \<and> (call \<longleftrightarrow> fired c' \<and> \<not> fired c) \<and> (fired c \<longrightarrow> fired c')"
proof -
  have "contains (buffer c) deployPhaseMarker \<longrightarrow> contains (buffer c @ p) deployPhaseMarker"
    using contains_append by blast
  then show ?thesis
    using assms unfolding capture_Write_def capture_consistent_def Let_def by fastforce
qed

lemma capture_writes_spec:
  assumes "capture_consistent c" "capture_writes c ps = (c', calls)"
  shows "buffer c' = buffer c @ concat ps \<and> watching c' = watching c \<and> capture_consistent c'
    \<and> length calls = (if fired c' \<and> \<not> fired c then 1 else 0) \<and> (fired c \<longrightarrow> fired c')"
  using assms
proof (induction ps arbitrary: c calls)
  case (Cons p ps)
  obtain c1 call where w: "capture_Write c p = (c1, call)" by fastforce
  obtain calls2 where rest: "capture_writes c1 ps = (c', calls2)"
    and calls: "calls = (if call then [length (buffer c1)] else []) @ calls2"
    using Cons.prems(2) w by (auto split: prod.splits)
  note one = capture_Write_spec[OF Cons.prems(1) w]
  show ?case using one Cons.IH[OF _ rest] calls by auto
qed simp

lemma runner_called:
  "called (commandRunner_Run script watch args) \<longleftrightarrow> watch \<and> contains (concat (chunks (script args))) deployPhaseMarker"
proof -
  obtain c calls where run: "capture_writes \<lparr>buffer = [], watching = watch, fired = False\<rparr> (chunks (script args)) = (c, calls)"
    by fastforce
  have "capture_consistent \<lparr>buffer = [], watching = watch, fired = False\<rparr>"
    by (simp add: deployPhaseMarker_def capture_consistent_def)
  from capture_writes_spec[OF this run] have "calls \<noteq> [] \<longleftrightarrow> watch \<and> contains (concat (chunks (script args))) deployPhaseMarker"
    by (auto simp: capture_consistent_def split: if_splits)
  then show ?thesis
    by (simp add: commandRunner_Run_def run Let_def split: option.split)
qed

lemma runner_output:
  "length (run_output (commandRunner_Run script watch args)) \<le> maxOutputBytes
   \<and> suffix (run_output (commandRunner_Run script watch args)) (concat (chunks (script args)))"
proof -
  obtain c calls where run: "capture_writes \<lparr>buffer = [], watching = watch, fired = False\<rparr> (chunks (script args)) = (c, calls)"
    by fastforce
  have "capture_consistent \<lparr>buffer = [], watching = watch, fired = False\<rparr>"
    by (simp add: deployPhaseMarker_def capture_consistent_def)
  from capture_writes_spec[OF this run] have "buffer c = concat (chunks (script args))" by simp
  then show ?thesis
    by (auto simp: commandRunner_Run_def run Let_def suffix_drop split: option.split)
qed

lemma selector_word_plain: "selector_word c \<Longrightarrow> ascii c \<and> \<not> is_space (byte_val c)"
proof -
  have "\<forall>c \<in> {CHR ''_'', CHR ''.'', CHR ''-''}. ascii c \<and> \<not> is_space (byte_val c)" by code_simp
  moreover have "alnum_cls c \<Longrightarrow> ascii c \<and> \<not> is_space (byte_val c)"
    by (auto simp: alnum_cls_def alpha_cls_def digit_cls_def ascii_def is_space_def Let_def)
  ultimately show "selector_word c \<Longrightarrow> ascii c \<and> \<not> is_space (byte_val c)"
    by (auto simp: selector_word_def)
qed

lemma comma_plain: "ascii CHR '','' \<and> \<not> is_space (byte_val CHR '','')"
  by code_simp

section \<open>Properties\<close>

text \<open>C19: The pattern accepts exactly the documented process selectors, and none of them can be read as
  an option or leave its argument: the first byte is not a dash and every byte is a letter, a
  digit, a dot, a dash or an underscore.\<close>

theorem selector_language:
  "match_string selectorPattern s = selector_ok s \<and>
   (selector_ok s \<longrightarrow> s \<noteq> [] \<and> hd s \<noteq> CHR ''-'' \<and> (\<forall>c \<in> set s. selector_word c))"
  using selector_bytes by (simp add: selector_iff)

theorem selector_language_witness:
  "''room.cmd.a-b_1'' \<noteq> [] \<and> hd ''room.cmd.a-b_1'' \<noteq> CHR ''-'' \<and> \<not> selector_ok ''cmd.a;b''"
proof -
  have "match_string selectorPattern ''room.cmd.a-b_1''" "\<not> match_string selectorPattern ''cmd.a;b''"
    by code_simp+
  then show ?thesis
    using selector_language[of "''room.cmd.a-b_1''"] selector_language[of "''cmd.a;b''"] by blast
qed

text \<open>C20: What a validated deployment makes the script run: the action, one of the two services, the
  selectors (none of which starts with a dash), then only the two known options, the backups
  being a number from 1 to 20.\<close>

theorem deployment_args_safe:
  assumes "validateDeployment input = ok"
  shows "\<exists>flags. deployment_args action input = [action, Service input] @ Processes input @ flags
    \<and> Service input \<in> {''psl-be-partystar'', ''psl-be-room''} \<and> Processes input \<noteq> []
    \<and> (\<forall>p \<in> set (Processes input). selector_ok p \<and> hd p \<noteq> CHR ''-'')
    \<and> flags \<in> {[], [''--skip-tests'']} \<union> (\<Union>n \<in> {1..20}.
        {[''--keep-backups'', itoa n], [''--skip-tests'', ''--keep-backups'', itoa n]})"
proof -
  have v: "Service input \<in> {''psl-be-partystar'', ''psl-be-room''}" "Processes input \<noteq> []"
    "\<forall>p \<in> set (Processes input). selector_ok p" "0 \<le> KeepBackups input" "KeepBackups input \<le> 20"
    using assms unfolding validateDeployment_ok by blast+
  let ?flags = "(if SkipTests input then [''--skip-tests''] else [])
      @ (if 0 < KeepBackups input then [''--keep-backups'', itoa (KeepBackups input)] else [])"
  have "?flags \<in> {[], [''--skip-tests'']} \<union> (\<Union>n \<in> {1..20}.
        {[''--keep-backups'', itoa n], [''--skip-tests'', ''--keep-backups'', itoa n]})"
  proof (cases "0 < KeepBackups input")
    case True
    then have "KeepBackups input \<in> {1..20}" using v(5) by simp
    then show ?thesis using True by auto
  qed simp
  moreover have "\<forall>p \<in> set (Processes input). selector_ok p \<and> hd p \<noteq> CHR ''-''"
    using v(3) selector_bytes by blast
  moreover have "deployment_args action input = [action, Service input] @ Processes input @ ?flags"
    by (simp add: deployment_args_def)
  ultimately show ?thesis using v(1,2) by blast
qed

definition sample_input :: DeploymentInput where
  "sample_input = \<lparr>Service = ''psl-be-room'', Processes = [''room.http'', ''cmd.job-1''], SkipTests = True,
     KeepBackups = 3\<rparr>"

theorem deployment_args_safe_witness:
  "\<exists>flags. deployment_args ''deploy'' sample_input = [''deploy'', ''psl-be-room'', ''room.http'', ''cmd.job-1''] @ flags"
proof -
  have "validateDeployment sample_input = ok" by code_simp
  from deployment_args_safe[OF this, of "''deploy''"] show ?thesis by (auto simp: sample_input_def)
qed

text \<open>C18: However the script's output is cut into writes, the deploy phase is announced exactly when the
  output contains the marker, at most once; and the output handed back is at most the last 64
  KiB of what was written.\<close>

theorem runner_phase_and_bound:
  "called (commandRunner_Run script watch args) = (watch \<and> contains (concat (chunks (script args))) deployPhaseMarker)
   \<and> length (snd (capture_writes \<lparr>buffer = [], watching = watch, fired = False\<rparr> (chunks (script args)))) \<le> 1
   \<and> length (run_output (commandRunner_Run script watch args)) \<le> 65536
   \<and> suffix (run_output (commandRunner_Run script watch args)) (concat (chunks (script args)))"
proof -
  have c: "capture_consistent \<lparr>buffer = [], watching = watch, fired = False\<rparr>"
    by (simp add: deployPhaseMarker_def capture_consistent_def)
  show ?thesis
    using runner_called[of script watch args] runner_output[of script watch args]
      capture_writes_spec[OF c surjective_pairing, of "chunks (script args)"]
    by (simp add: maxOutputBytes_def)
qed

text \<open>The events of one deployment: none for an invalid input, otherwise compiling, then deploying if
  the phase was announced, then one terminal status that says how the command ended; the
  notifier changes neither the output nor the error.\<close>

theorem deploy_event_sequence:
  "case deploy runner notifier canceled duration input of (events, out, err) \<Rightarrow>
     (out, err) = snd (deploy runner None canceled duration input)
     \<and> (if validateDeployment input \<noteq> ok then events = [] \<and> err \<noteq> None
        else (let r = runner True (deployment_args ''deploy'' input) in
          map (\<lambda>e. n_Status (Notification e)) events =
            [DeploymentCompiling] @ (if called r then [DeploymentDeploying] else [])
              @ [if canceled then DeploymentCanceled
                 else if run_err r = None then DeploymentSucceeded
                 else if called r then DeploymentFailed else DeploymentCompileFailed]
          \<and> list_all (\<lambda>e. n_Service (Notification e) = Service input
               \<and> n_Processes (Notification e) = Processes input) events))"
  by (cases "validateDeployment input")
    (auto simp: deploy_def runDeploymentCommand_def notifyAndObserve_def notification_def final_status_def Let_def)

text \<open>A reported process state always belongs to a selector of the allowlist and has a state, and a
  supervisor line for a running process is read back exactly: name, state, number and detail.\<close>

theorem process_status_lines:
  assumes "p \<in> set (parseProcessStatuses out)" "selector_ok name" "0 \<le> pid" "pid < 2 ^ 63"
  shows "selector_ok (Process p) \<and> State p \<noteq> []
    \<and> parse_status_line (name @ '' RUNNING pid '' @ itoa pid @ '', uptime'') =
       Some \<lparr>Process = name, State = ''RUNNING'', PID = pid, Detail = ''pid '' @ itoa pid @ '', uptime''\<rparr>"
proof (intro conjI)
  obtain line where l: "parse_status_line line = Some p"
    using assms(1) by (auto simp: parseProcessStatuses_def List.map_filter_def)
  then have fs: "2 \<le> length (str_fields line)" "match_string selectorPattern (str_fields line ! 0)"
    "Process p = str_fields line ! 0" "State p = str_fields line ! 1"
    by (auto simp: parse_status_line_def Let_def split: if_splits)
  show "selector_ok (Process p)" using fs by (simp add: selector_iff)
  have "str_fields line ! 1 \<in> set (str_fields line)" using fs(1) by simp
  then show "State p \<noteq> []" using str_fields_words fs(4) by simp
  have words: "name \<noteq> []" "no_space name"
    using selector_bytes[OF assms(2)] selector_word_plain by (auto intro: no_space_ascii)
  let ?n = "itoa pid @ '',''"
  have n: "no_space ?n" "?n \<noteq> []"
  proof -
    have "\<forall>c \<in> set ?n. ascii c \<and> \<not> is_space (byte_val c)"
      using format_nat_digits[OF assms(3)] digit_byte_ascii comma_plain assms(3) by (auto simp: itoa_nonneg)
    then show "no_space ?n" by (rule no_space_ascii)
  qed simp
  have c: "no_space ''RUNNING''" "no_space ''pid''" "no_space ''uptime''" by code_simp+
  have fields: "str_fields (join '' '' [name, ''RUNNING'', ''pid'', ?n, ''uptime'']) = [name, ''RUNNING'', ''pid'', ?n, ''uptime'']"
    using words n c by (intro fields_join) auto
  have join: "join '' '' [name, ''RUNNING'', ''pid'', ?n, ''uptime''] = name @ '' RUNNING pid '' @ itoa pid @ '', uptime''"
    by simp
  have "trim_suffix ?n '','' = format_nat pid" using assms(3) by (simp add: trim_suffix_def itoa_nonneg)
  then have "atoi_value (trim_suffix ?n '','') = pid" using atoi_value_format assms(3,4) by simp
  moreover have "match_string selectorPattern name" using assms(2) by (simp add: selector_iff)
  ultimately show "parse_status_line (name @ '' RUNNING pid '' @ itoa pid @ '', uptime'') =
       Some \<lparr>Process = name, State = ''RUNNING'', PID = pid, Detail = ''pid '' @ itoa pid @ '', uptime''\<rparr>"
    unfolding parse_status_line_def fields[unfolded join] Let_def by (simp add: eval_nat_numeral)
qed

theorem process_status_lines_witness:
  "parse_status_line ''room.http RUNNING pid 42, uptime'' =
     Some \<lparr>Process = ''room.http'', State = ''RUNNING'', PID = 42, Detail = ''pid 42, uptime''\<rparr>"
proof -
  have p: "\<lparr>Process = ''rpc'', State = ''STOPPED'', PID = 0, Detail = []\<rparr> \<in> set (parseProcessStatuses ''rpc STOPPED'')"
    by code_simp
  have s: "selector_ok ''room.http''" by (simp add: selector_ok_def)
  have i: "itoa 42 = ''42''" by code_simp
  show ?thesis using process_status_lines[OF p s, of 42] by (simp add: i)
qed

end
