(* ===== verification/SlackNotify.thy ===== *)
theory SlackNotify
  imports DeployService GoHttp
begin

text \<open>
  \<open>internal/slacknotify/webhook.go\<close>: the webhook, the message of a deployment notification (with
  \<open>time.Duration\<close>'s rounding and text) and its delivery.
\<close>

section \<open>Durations\<close>

text \<open>\<open>Duration.Round\<close> for a positive unit: half away from zero, saturating.\<close>

definition round_duration :: "int \<Rightarrow> int \<Rightarrow> int" where
  "round_duration d m =
    (let r = \<bar>d\<bar> mod m in
     if d < 0 then (if 2 * r < m then d + r else max (d - m + r) (- (2 ^ 63)))
     else (if 2 * r < m then d - r else min (d + m - r) (2 ^ 63 - 1)))"

fun low_digits :: "nat \<Rightarrow> int \<Rightarrow> string" where
  "low_digits 0 v = []"
| "low_digits (Suc n) v = low_digits n (v div 10) @ [byte_chr (0x30 + v mod 10)]"

text \<open>\<open>fmtFrac\<close>: the last \<open>prec\<close> digits after a point, without zeros at the end.\<close>

definition fraction_text :: "int \<Rightarrow> nat \<Rightarrow> string" where
  "fraction_text v prec =
    (let kept = rev (dropWhile (\<lambda>c. c = CHR ''0'') (rev (low_digits prec v))) in if kept = [] then [] else ''.'' @ kept)"

definition seconds_text :: "int \<Rightarrow> string" where
  "seconds_text u =
    (let s = u div 10 ^ 9; m = s div 60; h = m div 60 in
     (if 0 < h then format_nat h @ ''h'' else [])
     @ (if 0 < m then format_nat (m mod 60) @ ''m'' else [])
     @ format_nat (s mod 60) @ fraction_text u 9 @ ''s'')"

text \<open>\<open>Duration.String\<close>.\<close>

definition duration_text :: "int \<Rightarrow> string" where
  "duration_text d =
    (let u = \<bar>d\<bar> in
     (if d < 0 then ''-'' else []) @
     (if u = 0 then ''0s''
      else if u < 10 ^ 3 then format_nat u @ ''ns''
      else if u < 10 ^ 6 then format_nat (u div 10 ^ 3) @ fraction_text u 3 @ [CHR 0xC2, CHR 0xB5, CHR ''s'']
      else if u < 10 ^ 9 then format_nat (u div 10 ^ 6) @ fraction_text u 6 @ ''ms''
      else seconds_text u))"

section \<open>The message\<close>

fun status_line :: "DeploymentStatus \<Rightarrow> string" where
  "status_line DeploymentCompiling = encode_runes
    [0x1F6E0, 0xFE0F, 0x20, 0x2A, 0x3010, 0x5F00, 0x59CB, 0x7F16, 0x8BD1, 0x3011, 0x65E7, 0x670D, 0x52A1, 0x6784, 0x5EFA,
     0x4EFB, 0x52A1, 0x5DF2, 0x542F, 0x52A8, 0x2A]"
| "status_line DeploymentDeploying = encode_runes
    [0x1F680, 0x20, 0x2A, 0x3010, 0x5F00, 0x59CB, 0x90E8, 0x7F72, 0x3011, 0x7F16, 0x8BD1, 0x5B8C, 0x6210, 0xFF0C, 0x6B63,
     0x5728, 0x5907, 0x4EFD, 0x65E7, 0x7248, 0x672C, 0x3001, 0x66FF, 0x6362, 0x65B0, 0x7248, 0x672C, 0x5E76, 0x91CD, 0x542F,
     0x670D, 0x52A1, 0x2A]"
| "status_line DeploymentSucceeded = encode_runes
    [0x2705, 0x20, 0x2A, 0x3010, 0x90E8, 0x7F72, 0x6210, 0x529F, 0x3011, 0x65B0, 0x7248, 0x672C, 0x5DF2, 0x4E0A, 0x7EBF,
     0xFF0C, 0x670D, 0x52A1, 0x8FD0, 0x884C, 0x6B63, 0x5E38, 0x2A]"
| "status_line DeploymentCompileFailed = encode_runes
    [0x274C, 0x20, 0x2A, 0x3010, 0x7F16, 0x8BD1, 0x5931, 0x8D25, 0x3011, 0x6784, 0x5EFA, 0x672A, 0x901A, 0x8FC7, 0xFF0C,
     0x65E7, 0x670D, 0x52A1, 0x672A, 0x53D7, 0x5F71, 0x54CD, 0x2A]"
| "status_line DeploymentFailed = encode_runes
    [0x1F6A8, 0x20, 0x2A, 0x3010, 0x90E8, 0x7F72, 0x5931, 0x8D25, 0x3011, 0x65B0, 0x7248, 0x672C, 0x4E0A, 0x7EBF, 0x672A,
     0x5B8C, 0x6210, 0xFF0C, 0x65E7, 0x7248, 0x672C, 0x4FDD, 0x62A4, 0x673A, 0x5236, 0x5DF2, 0x751F, 0x6548, 0x2A]"
| "status_line DeploymentCanceled = encode_runes
    [0x23F9, 0xFE0F, 0x20, 0x2A, 0x3010, 0x90E8, 0x7F72, 0x53D6, 0x6D88, 0x3011, 0x4EFB, 0x52A1, 0x5DF2, 0x7EC8, 0x6B62,
     0xFF0C, 0x65E7, 0x7248, 0x672C, 0x4FDD, 0x62A4, 0x673A, 0x5236, 0x5DF2, 0x751F, 0x6548, 0x2A]"

definition label_service :: string where
  "label_service = encode_runes [0x2022, 0x20, 0x670D, 0x52A1, 0xFF1A, 0x60]"

definition label_processes :: string where
  "label_processes = encode_runes [0x2022, 0x20, 0x8FDB, 0x7A0B, 0xFF1A, 0x60]"

definition label_duration :: string where
  "label_duration = encode_runes [0x2022, 0x20, 0x8017, 0x65F6, 0xFF1A, 0x60]"

definition formatMessage :: "DeploymentNotification \<Rightarrow> string" where
  "formatMessage event =
    status_line (n_Status event) @ newline # label_service @ n_Service event @ CHR 0x60 # newline # label_processes
      @ join '', '' (n_Processes event) @ [CHR 0x60]
      @ (if n_Status event \<in> {DeploymentSucceeded, DeploymentCompileFailed, DeploymentFailed, DeploymentCanceled}
         then newline # label_duration @ duration_text (round_duration (n_Duration event) 100000000) @ [CHR 0x60] else [])"

section \<open>The webhook\<close>

definition slack_maxResponseBytes :: nat where "slack_maxResponseBytes = 4096"

record Webhook =
  wh_url :: string

datatype webhook_error = WebhookURLInvalid | WebhookClientRequired

definition isSupportedWebhookPath :: "string \<Rightarrow> bool" where
  "isSupportedWebhookPath path \<longleftrightarrow> has_prefix path ''/services/'' \<or> has_prefix path ''/triggers/''"

definition NewWebhook :: "urls \<Rightarrow> string \<Rightarrow> bool \<Rightarrow> (webhook_error, Webhook) result" where
  "NewWebhook W rawURL client =
    (case url_parse W (trim_space rawURL) of
       None \<Rightarrow> Inl WebhookURLInvalid
     | Some parsed \<Rightarrow>
       guard_err (u_scheme parsed \<noteq> ''https'' \<or> u_host parsed \<noteq> ''hooks.slack.com'' \<or> \<not> isSupportedWebhookPath (u_path parsed))
         WebhookURLInvalid (
       guard_err (\<not> client) WebhookClientRequired (
       Inr \<lparr>wh_url = url_string W parsed\<rparr>)))"

datatype notify_error = NotifyNotCreated | NotifyNotSent string | NotifyRefused int string

definition notify_request :: "Webhook \<Rightarrow> DeploymentNotification \<Rightarrow> http_request" where
  "notify_request w event =
    \<lparr>Method = ''POST'', URL = wh_url w, ReqHeaders = set_header ''Content-Type'' ''application/json'' [],
     ReqBody = [CHR 0x7B] @ quote ''text'' @ '':'' @ quote (formatMessage event) @ [CHR 0x7D]\<rparr>"

text \<open>The error of reading the response is dropped: what arrived is quoted in the error.\<close>

definition notify_response :: "http_response \<Rightarrow> notify_error option" where
  "notify_response resp =
    (if StatusCode resp < 200 \<or> 300 \<le> StatusCode resp
     then Some (NotifyRefused (StatusCode resp) (trim_space (take slack_maxResponseBytes (BodyBytes resp)))) else None)"

definition Notify :: "urls \<Rightarrow> Webhook \<Rightarrow> (http_request, string, http_response) remote \<Rightarrow> DeploymentNotification
    \<Rightarrow> (http_request, 'l) session \<Rightarrow> notify_error option \<times> (http_request, 'l) session" where
  "Notify W w net event st =
    (if url_parse W (wh_url w) = None then (Some NotifyNotCreated, st)
     else (case send net (notify_request w event) st of
       (Inl e, st') \<Rightarrow> (Some (NotifyNotSent e), st')
     | (Inr resp, st') \<Rightarrow> (notify_response resp, st')))"

section \<open>Facts\<close>

lemma split_once: "c \<notin> set xs \<Longrightarrow> c \<notin> set xs' \<Longrightarrow> xs @ c # ys = xs' @ c # ys' \<Longrightarrow> xs = xs' \<and> ys = ys'"
  by (induction xs arbitrary: xs') (auto simp: Cons_eq_append_conv append_eq_Cons_conv)

lemma join_inj:
  assumes "\<forall>p \<in> set ps \<union> set qs. CHR '','' \<notin> set p" "ps \<noteq> []" "qs \<noteq> []" "join '', '' ps = join '', '' qs"
  shows "ps = qs"
  using assms(2,1,3,4)
proof (induction ps arbitrary: qs rule: list_nonempty_induct)
  case (single p)
  then show ?case by (cases qs; cases "tl qs") auto
next
  case (cons p ps)
  obtain q qs' where qs: "qs = q # qs'" using cons.prems(2) by (cases qs) auto
  have p: "join '', '' (p # ps) = p @ CHR '','' # CHR '' '' # join '', '' ps"
    using cons.hyps by (cases ps) simp_all
  have "qs' \<noteq> []" using cons.prems(1,3) unfolding qs p by (cases qs') auto
  then have q: "join '', '' (q # qs') = q @ CHR '','' # CHR '' '' # join '', '' qs'" by (cases qs') simp_all
  have "p = q \<and> CHR '' '' # join '', '' ps = CHR '' '' # join '', '' qs'"
    using cons.prems(1,3) unfolding qs p q by (intro split_once[of "CHR '',''"]) auto
  then show ?case using cons.IH[of qs'] cons.prems(1) \<open>qs' \<noteq> []\<close> by (auto simp: qs)
qed

lemma status_lines:
  "newline \<notin> set (status_line st)" "status_line st = status_line st' \<Longrightarrow> st = st'"
proof -
  let ?all = "[DeploymentCompiling, DeploymentDeploying, DeploymentSucceeded, DeploymentCompileFailed, DeploymentFailed, DeploymentCanceled]"
  have all: "st \<in> set ?all" for st by (cases st) simp_all
  have "list_all (\<lambda>a. newline \<notin> set (status_line a) \<and> list_all (\<lambda>b. status_line a = status_line b \<longrightarrow> a = b) ?all) ?all"
    by code_simp
  then show "newline \<notin> set (status_line st)" "status_line st = status_line st' \<Longrightarrow> st = st'"
    using all[of st] all[of st'] unfolding list_all_iff by blast+
qed

lemma deployment_bytes:
  assumes "validateDeployment i = ok"
  shows "CHR 0x60 \<notin> set (Service i)" "CHR 0x60 \<notin> set (join '', '' (Processes i))"
    "\<forall>p \<in> set (Processes i). CHR '','' \<notin> set p" "Processes i \<noteq> []"
proof -
  note v = assms[unfolded validateDeployment_ok]
  have w: "\<not> selector_word CHR 0x60" "\<not> selector_word CHR '',''" by code_simp+
  have set_join: "set (join sep ps) \<subseteq> set sep \<union> \<Union> (set ` set ps)" for sep ps
    by (induction sep ps rule: join.induct) auto
  have "CHR 0x60 \<notin> \<Union> (set ` set (Processes i))" using v w(1) selector_bytes by fast
  then show "CHR 0x60 \<notin> set (join '', '' (Processes i))" using set_join[of "'', ''" "Processes i"] by auto
  show "CHR 0x60 \<notin> set (Service i)" using v by auto
  show "\<forall>p \<in> set (Processes i). CHR '','' \<notin> set p" using v w(2) selector_bytes by fast
  show "Processes i \<noteq> []" using v by blast
qed

section \<open>Properties\<close>

text \<open>C35: What Slack is told identifies the deployment: the messages of two validated deployments, at
  whatever stage and after whatever time, are equal only if the stage, the service and the processes
  are; no input can make one message read as another.\<close>

theorem slack_message_identifies:
  assumes "validateDeployment i = ok" "validateDeployment i' = ok"
    and "formatMessage (notification i st d) = formatMessage (notification i' st' d')"
  shows "st = st' \<and> Service i = Service i' \<and> Processes i = Processes i'"
proof -
  note b = deployment_bytes[OF assms(1)] deployment_bytes[OF assms(2)]
  note eq = assms(3)[unfolded formatMessage_def notification_def DeploymentNotification.simps]
  note one = split_once[OF status_lines(1) status_lines(1) eq]
  have st: "st = st'" by (rule status_lines(2)) (rule conjunct1[OF one])
  note two = split_once[OF b(1,5) conjunct2[OF one, unfolded same_append_eq]]
  note three = split_once[OF b(2,6), OF conjunct2[OF two, unfolded list.inject same_append_eq append_Cons, THEN conjunct2]]
  show ?thesis using st conjunct1[OF two] join_inj[OF _ b(4,8) conjunct1[OF three]] b(3,7) by blast
qed

theorem slack_message_identifies_witness:
  "formatMessage (notification \<lparr>Service = ''psl-be-room'', Processes = [''http'', ''rpc''], SkipTests = False, KeepBackups = 0\<rparr>
      DeploymentSucceeded 61250000000)
   \<noteq> formatMessage (notification \<lparr>Service = ''psl-be-room'', Processes = [''all''], SkipTests = False, KeepBackups = 0\<rparr>
      DeploymentSucceeded 0)"
proof -
  let ?i = "\<lparr>Service = ''psl-be-room'', Processes = [''http'', ''rpc''], SkipTests = False, KeepBackups = 0\<rparr>"
  let ?i' = "\<lparr>Service = ''psl-be-room'', Processes = [''all''], SkipTests = False, KeepBackups = 0\<rparr>"
  have "validateDeployment ?i = ok" "validateDeployment ?i' = ok" by code_simp+
  then show ?thesis
    using slack_message_identifies[of ?i ?i' DeploymentSucceeded 61250000000 DeploymentSucceeded 0] by auto
qed

text \<open>The text of the duration: tenths of a second, as \<open>Duration.String\<close> writes it.\<close>

lemma duration_samples:
  "duration_text (round_duration 61250000000 100000000) = ''1m1.3s''"
  "duration_text (round_duration 49999999 100000000) = ''0s''"
  "duration_text (round_duration 3600000000000 100000000) = ''1h0m0s''"
  "duration_text (- 1500000) = ''-1.5ms''"
  by code_simp+


definition slack_urls :: urls where
  "slack_urls = \<lparr>url_parse = (\<lambda>_. Some \<lparr>u_scheme = ''https'', u_host = ''hooks.slack.com'', u_has_user = False,
      u_path = ''/services/T/B'', u_raw_query = [], u_fragment = []\<rparr>),
     url_string = (\<lambda>u. u_scheme u @ ''://'' @ u_host u @ u_path u)\<rparr>"


end
