(* ===== verification/JsonRoundtrip.thy ===== *)
theory JsonRoundtrip
  imports GoJson
begin

text \<open>
  What \<open>json.Marshal\<close> writes, \<open>json.Unmarshal\<close> reads back: strings with their invalid bytes replaced,
  numbers by their literal, arrays, and objects with their members in the order they were written.
  The lemmas work on the scanner's stack, so that they compose for every nesting.
\<close>

section \<open>Strings\<close>

text \<open>A string as JSON carries it: each byte that is no part of a valid rune becomes U+FFFD.\<close>

definition utf8_clean :: "string \<Rightarrow> string" where
  "utf8_clean s = encode_runes (runes s)"

lemma utf8_clean_id: "\<forall>r \<in> set rs. valid_rune r \<Longrightarrow> utf8_clean (encode_runes rs) = encode_runes rs"
  by (simp add: utf8_clean_def runes_encode)

lemma decode_rune_valid: "valid_rune (fst (decode_rune s))"
proof (cases s)
  case Nil
  then show ?thesis by (simp add: rune_error_def valid_rune_def)
next
  case (Cons c cs)
  have c: "0 \<le> byte_val c" "byte_val c < 256" using byte_val_range .
  have two: "valid_rune ((b - 0xC0) * 64 + cont_bits c1)" if "0xC2 \<le> b" "b < 0xE0" "cont_in 0x80 0xBF c1" for b c1
    using that by (auto simp: valid_rune_def cont_in_def cont_bits_def)
  have three: "valid_rune ((b - 0xE0) * 4096 + cont_bits c1 * 64 + cont_bits c2)"
    if "0xE0 \<le> b" "b < 0xF0" "cont_in (if b = 0xE0 then 0xA0 else 0x80) (if b = 0xED then 0x9F else 0xBF) c1"
      "cont_in 0x80 0xBF c2" for b c1 c2
  proof -
    have x: "0 \<le> cont_bits c1" "cont_bits c1 \<le> 63" "0 \<le> cont_bits c2" "cont_bits c2 \<le> 63"
      "b = 0xED \<Longrightarrow> cont_bits c1 \<le> 31"
      using that(3,4) by (auto simp: cont_in_def cont_bits_def split: if_splits)
    consider "b < 0xED" | "b = 0xED" | "0xEE \<le> b" by linarith
    then show ?thesis using x that(1,2) by cases (auto simp: valid_rune_def)
  qed
  have four: "valid_rune ((b - 0xF0) * 262144 + cont_bits c1 * 4096 + cont_bits c2 * 64 + cont_bits c3)"
    if "0xF0 \<le> b" "b < 0xF5" "cont_in (if b = 0xF0 then 0x90 else 0x80) (if b = 0xF4 then 0x8F else 0xBF) c1"
      "cont_in 0x80 0xBF c2" "cont_in 0x80 0xBF c3" for b c1 c2 c3
  proof -
    have x: "0 \<le> cont_bits c2" "cont_bits c2 \<le> 63" "0 \<le> cont_bits c3" "cont_bits c3 \<le> 63" "cont_bits c1 \<le> 63"
      "b = 0xF0 \<Longrightarrow> 16 \<le> cont_bits c1" "0 \<le> cont_bits c1" "b = 0xF4 \<Longrightarrow> cont_bits c1 \<le> 15"
      using that(3-5) by (auto simp: cont_in_def cont_bits_def split: if_splits)
    have "b = 0xF0 \<or> 0xF1 \<le> b \<and> b \<le> 0xF3 \<or> b = 0xF4" using that(1,2) by linarith
    then consider "b = 0xF0" | "0xF1 \<le> b" "b \<le> 0xF3" | "b = 0xF4" by blast
    then show ?thesis using x by cases (auto simp: valid_rune_def)
  qed
  have err: "valid_rune rune_error" by (simp add: rune_error_def valid_rune_def)
  have err1: "valid_rune (fst (rune_error, n))" for n :: nat using err by simp
  have two': "valid_rune (fst (if cont_in 0x80 0xBF c1 then ((byte_val c - 0xC0) * 64 + cont_bits c1, 2) else (rune_error, 1 :: nat)))"
    if "0xC2 \<le> byte_val c" "byte_val c < 0xE0" for c1
    using two[OF that] err by (cases "cont_in 0x80 0xBF c1") (simp_all only: fst_conv if_True if_False simp_thms)
  have three': "valid_rune (fst (if cont_in (if byte_val c = 0xE0 then 0xA0 else 0x80) (if byte_val c = 0xED then 0x9F else 0xBF) c1
       \<and> cont_in 0x80 0xBF c2 then ((byte_val c - 0xE0) * 4096 + cont_bits c1 * 64 + cont_bits c2, 3) else (rune_error, 1 :: nat)))"
    if "0xE0 \<le> byte_val c" "byte_val c < 0xF0" for c1 c2
    using three[OF that] err by (cases "cont_in (if byte_val c = 0xE0 then 0xA0 else 0x80) (if byte_val c = 0xED then 0x9F else 0xBF) c1
       \<and> cont_in 0x80 0xBF c2") (simp_all only: fst_conv if_True if_False simp_thms)
  have four': "valid_rune (fst (if cont_in (if byte_val c = 0xF0 then 0x90 else 0x80) (if byte_val c = 0xF4 then 0x8F else 0xBF) c1
       \<and> cont_in 0x80 0xBF c2 \<and> cont_in 0x80 0xBF c3
       then ((byte_val c - 0xF0) * 262144 + cont_bits c1 * 4096 + cont_bits c2 * 64 + cont_bits c3, 4) else (rune_error, 1 :: nat)))"
    if "0xF0 \<le> byte_val c" "byte_val c < 0xF5" for c1 c2 c3
    using four[OF that] err by (cases "cont_in (if byte_val c = 0xF0 then 0x90 else 0x80) (if byte_val c = 0xF4 then 0x8F else 0xBF) c1
       \<and> cont_in 0x80 0xBF c2 \<and> cont_in 0x80 0xBF c3") (simp_all only: fst_conv if_True if_False simp_thms)
  have one: "byte_val c < 0x80 \<Longrightarrow> valid_rune (byte_val c)" using c by (simp add: valid_rune_def)
  note simps = Cons decode_rune.simps(2) Let_def
  consider "byte_val c < 0x80" | "\<not> byte_val c < 0x80" "byte_val c < 0xC2"
    | "\<not> byte_val c < 0x80" "\<not> byte_val c < 0xC2" "byte_val c < 0xE0"
    | "\<not> byte_val c < 0x80" "\<not> byte_val c < 0xC2" "\<not> byte_val c < 0xE0" "byte_val c < 0xF0"
    | "\<not> byte_val c < 0x80" "\<not> byte_val c < 0xC2" "\<not> byte_val c < 0xE0" "\<not> byte_val c < 0xF0" "byte_val c < 0xF5"
    | "\<not> byte_val c < 0x80" "\<not> byte_val c < 0xC2" "\<not> byte_val c < 0xE0" "\<not> byte_val c < 0xF0" "\<not> byte_val c < 0xF5"
    by blast
  then show ?thesis
  proof cases
    case 1
    then show ?thesis using one by (simp only: simps if_True fst_conv)
  next
    case 3
    then have "0xC2 \<le> byte_val c" by simp
    from two'[OF this 3(3)] 3 err1 show ?thesis
      by (simp only: simps if_True if_False simp_thms split: list.split)
  next
    case 4
    then have "0xE0 \<le> byte_val c" by simp
    from three'[OF this 4(4)] 4 err1 show ?thesis
      by (simp only: simps if_True if_False simp_thms split: list.split)
  next
    case 5
    then have "0xF0 \<le> byte_val c" by simp
    from four'[OF this 5(5)] 5 err1 show ?thesis
      by (simp only: simps if_True if_False simp_thms split: list.split)
  qed (simp_all only: simps if_True if_False err1)
qed

lemma get_u4_digits:
  assumes "0 \<le> w" "w < 16" "0 \<le> x" "x < 16" "0 \<le> y" "y < 16" "0 \<le> z" "z < 16"
  shows "get_u4 (CHR ''u'' # map hex_digit [w, x, y, z] @ t) = Some (((w * 16 + x) * 16 + y) * 16 + z, t)"
  using assms by (simp add: hex_digit_value)

lemma get_u4_escape:
  assumes "0 \<le> r" "r < 65536"
  shows "get_u4 (tl (u_escape r) @ t) = Some (r, t)"
proof -
  have d: "r div 256 = r div 16 div 16" "r div 4096 = r div 16 div 16 div 16"
    by (simp_all add: zdiv_zmult2_eq[symmetric])
  have top: "r div 4096 mod 16 = r div 4096" using assms by (intro mod_pos_pos_trivial) auto
  have "((r div 4096 mod 16 * 16 + r div 256 mod 16) * 16 + r div 16 mod 16) * 16 + r mod 16 = r"
    using div_mult_mod_eq[of r 16] div_mult_mod_eq[of "r div 16" 16] div_mult_mod_eq[of "r div 16 div 16" 16]
    unfolding top unfolding d by (simp only: div_mult_mod_eq)
  then show ?thesis
    using get_u4_digits[of "r div 4096 mod 16" "r div 256 mod 16" "r div 16 mod 16" "r mod 16" t]
    unfolding u_escape_def list.sel append_Cons by (simp only: pos_mod_bound pos_mod_sign zero_less_numeral)
qed

text \<open>One rune as it is escaped: the scanner passes it whole, and \<open>unquote\<close> gives the rune.\<close>

definition passes :: "string \<Rightarrow> rune \<Rightarrow> bool" where
  "passes p r \<longleftrightarrow> (\<forall>t. lex_string (p @ t) = map_option (\<lambda>(b, q). (p @ b, q)) (lex_string t))
    \<and> (\<forall>b. unquote (p @ b) = encode_rune r @ unquote b)"

lemma passes_u_escape:
  assumes "0 \<le> r" "r < 65536" "valid_rune r"
  shows "passes (u_escape r) r"
proof -
  obtain h where h: "u_escape r = CHR 0x5C # CHR ''u'' # h" "length h = 4" by (simp add: u_escape_def)
  have "simple_escape (CHR ''u'') = None" by code_simp
  moreover have "get_u4 (CHR ''u'' # h @ t) = Some (r, t)" for t using get_u4_escape[OF assms(1,2), of t] by (simp add: h(1))
  moreover have "escaped_rune r t = (r, t)" for t using assms(3) by (auto simp: escaped_rune_def valid_rune_def)
  moreover have "CHR 0x5C \<noteq> (CHR 0x22 :: char)" by simp
  ultimately show ?thesis using h(2) by (simp add: passes_def h(1))
qed

lemma passes_simple:
  assumes "simple_escape e = Some c" "encode_rune r = [c]"
  shows "passes [CHR 0x5C, e] r"
  using assms by (simp add: passes_def)

lemma encode_rune_bytes:
  assumes "valid_rune r" "0x20 \<le> r" "r \<noteq> 0x22" "r \<noteq> 0x5C" "c \<in> set (encode_rune r)"
  shows "c \<noteq> CHR 0x22 \<and> c \<noteq> CHR 0x5C \<and> 0x20 \<le> byte_val c"
proof -
  have v: "byte_val CHR 0x22 = 0x22" "byte_val CHR 0x5C = 0x5C" by code_simp+
  have high: "c \<noteq> CHR 0x22 \<and> c \<noteq> CHR 0x5C \<and> 0x20 \<le> byte_val c" if "0x80 \<le> byte_val c" for c using that v by auto
  show ?thesis
  proof (cases "r < 0x80")
    case True
    then have "encode_rune r = [byte_chr r]" using assms(2) by (intro encode_rune_ascii) auto
    moreover have "byte_val (byte_chr r) = r" using True assms(2) by (intro byte_val_chr) auto
    ultimately show ?thesis using assms(2-5) v by auto
  next
    case False
    have range: "r \<le> 0x10FFFF" "0 \<le> r" using assms(1) by (auto simp: valid_rune_def)
    have b: "byte_val (byte_chr (k + x)) = k + x" if "0x80 \<le> k" "0 \<le> x" "k + x < 256" for k x
      using that by (intro byte_val_chr) auto
    have "0x80 \<le> byte_val c"
      using assms(1,5) False range unfolding encode_rune_def Let_def
      by (auto split: if_splits simp: b)
    then show ?thesis by (rule high)
  qed
qed

lemma passes_plain:
  assumes "valid_rune r" "0x20 \<le> r" "r \<noteq> 0x22" "r \<noteq> 0x5C"
  shows "passes (encode_rune r) r"
proof -
  note bytes = encode_rune_bytes[OF assms]
  have lex: "(\<forall>c \<in> set p. c \<noteq> CHR 0x22 \<and> c \<noteq> CHR 0x5C \<and> 0x20 \<le> byte_val c) \<Longrightarrow>
      lex_string (p @ t) = map_option (\<lambda>(b, q). (p @ b, q)) (lex_string t)" for p t
  proof (induction p)
    case Nil
    show ?case by (cases "lex_string t") auto
  next
    case (Cons c p)
    then show ?case by (cases "lex_string t") auto
  qed
  obtain c w where cw: "encode_rune r = c # w" by (cases "encode_rune r") simp_all
  have "c \<noteq> CHR 0x5C" using bytes[of c] by (simp add: cw)
  moreover have "decode_rune (c # w @ b) = (r, Suc (length w))" for b
    using decode_encode_rune[OF assms(1), of b] by (simp add: cw)
  ultimately have "unquote (encode_rune r @ b) = encode_rune r @ unquote b" for b by (simp add: cw)
  then show ?thesis using lex bytes by (simp add: passes_def)
qed

lemma passes_escape_rune:
  assumes "valid_rune r"
  shows "passes (escape_rune r) r"
proof -
  have simple: "simple_escape (CHR 0x22) = Some (CHR 0x22)" "simple_escape (CHR 0x5C) = Some (CHR 0x5C)"
    "simple_escape (CHR ''b'') = Some (CHR 0x08)" "simple_escape (CHR ''t'') = Some (CHR 0x09)"
    "simple_escape (CHR ''n'') = Some (CHR 0x0A)" "simple_escape (CHR ''f'') = Some (CHR 0x0C)"
    "simple_escape (CHR ''r'') = Some (CHR 0x0D)"
    by code_simp+
  have enc: "encode_rune 0x22 = [CHR 0x22]" "encode_rune 0x5C = [CHR 0x5C]" "encode_rune 8 = [CHR 0x08]"
    "encode_rune 9 = [CHR 0x09]" "encode_rune 10 = [CHR 0x0A]" "encode_rune 12 = [CHR 0x0C]" "encode_rune 13 = [CHR 0x0D]"
    "byte_chr 0x22 = CHR 0x22" "byte_chr 0x5C = CHR 0x5C"
    by code_simp+
  have r0: "0 \<le> r" using assms by (auto simp: valid_rune_def)
  have vr: "valid_rune 0x3C" "valid_rune 0x3E" "valid_rune 0x26" "valid_rune 0x2028" "valid_rune 0x2029" by code_simp+
  show ?thesis
    unfolding escape_rune_def
    by (auto simp: enc vr intro!: passes_simple[OF simple(1)] passes_simple[OF simple(2)] passes_simple[OF simple(3)]
        passes_simple[OF simple(4)] passes_simple[OF simple(5)] passes_simple[OF simple(6)] passes_simple[OF simple(7)]
        passes_u_escape passes_plain assms r0)
qed

lemma lex_escape_string:
  "lex_string (escape_string s @ CHR 0x22 # t) = Some (escape_string s, t) \<and> unquote (escape_string s) = utf8_clean s"
proof (induction s rule: escape_string.induct)
  case (1 s)
  show ?case
  proof (cases "s = []")
    case True
    then show ?thesis by (simp add: escape_string.simps utf8_clean_def encode_runes_def)
  next
    case False
    let ?r = "fst (decode_rune s)"
    let ?p = "if ?r = rune_error \<and> snd (decode_rune s) = 1 then u_escape rune_error else escape_rune ?r"
    have v: "valid_rune ?r" by (rule decode_rune_valid)
    have "passes ?p ?r" using passes_escape_rune[OF v] passes_u_escape[of rune_error] by (auto simp: rune_error_def valid_rune_def)
    moreover have "escape_string s = ?p @ escape_string (drop (snd (decode_rune s)) s)"
      using False by (subst escape_string.simps) simp
    moreover have "utf8_clean s = encode_rune ?r @ utf8_clean (drop (snd (decode_rune s)) s)"
      using False by (simp add: utf8_clean_def runes.simps[of s] encode_runes_def)
    ultimately show ?thesis using "1.IH"[OF False] by (simp add: passes_def)
  qed
qed

lemma unquote_escape: "unquote (escape_string s) = utf8_clean s"
  using lex_escape_string by blast

section \<open>Tokens\<close>

text \<open>What may follow a value inside a text.\<close>

definition follow :: "string \<Rightarrow> bool" where
  "follow r \<longleftrightarrow> (case r of [] \<Rightarrow> True | c # _ \<Rightarrow> c = CHR '','' \<or> c = CHR '']'' \<or> c = CHR 0x7D)"

lemma follow_simps [simp]: "follow []" "follow (CHR '','' # r)" "follow (CHR '']'' # r)" "follow (CHR 0x7D # r)"
  by (simp_all add: follow_def)

lemma lex_punctuation:
  "lex_token (CHR ''['' # r) = Some (TOpenArr, r)" "lex_token (CHR '']'' # r) = Some (TCloseArr, r)"
  "lex_token (CHR 0x7B # r) = Some (TOpenObj, r)" "lex_token (CHR 0x7D # r) = Some (TCloseObj, r)"
  "lex_token (CHR '','' # r) = Some (TComma, r)" "lex_token (CHR '':'' # r) = Some (TColon, r)"
  by (simp_all add: lex_token_def json_space_def)

lemma lex_words:
  "lex_token (''null'' @ r) = Some (TWord JNull, r)" "lex_token (''true'' @ r) = Some (TWord (JBool True), r)"
  "lex_token (''false'' @ r) = Some (TWord (JBool False), r)"
  by (simp_all add: lex_token_def json_space_def)

lemma lex_quote: "lex_token (quote s @ r) = Some (TStr (escape_string s), r)"
  using lex_escape_string[of s r] by (simp add: lex_token_def json_space_def quote_def)

lemma follow_not:
  "follow (c # r) \<Longrightarrow> digit_value c = None \<and> c \<noteq> CHR ''.'' \<and> c \<noteq> CHR ''e'' \<and> c \<noteq> CHR ''E''"
proof -
  have "digit_value (CHR '','') = None" "digit_value (CHR '']'') = None" "digit_value (CHR 0x7D) = None" by code_simp+
  then show "follow (c # r) \<Longrightarrow> digit_value c = None \<and> c \<noteq> CHR ''.'' \<and> c \<noteq> CHR ''e'' \<and> c \<noteq> CHR ''E''"
    by (auto simp: follow_def)
qed

lemma while_append:
  "takeWhile P r = [] \<Longrightarrow> takeWhile P (s @ r) = takeWhile P s"
  "takeWhile P r = [] \<Longrightarrow> dropWhile P (s @ r) = dropWhile P s @ r"
proof -
  assume stop: "takeWhile P r = []"
  then have "dropWhile P r = r" by (cases r) (auto split: if_splits)
  with stop show "takeWhile P (s @ r) = takeWhile P s" "dropWhile P (s @ r) = dropWhile P s @ r"
    by (induction s) auto
qed

lemma digits1_append:
  assumes "digits1 s = Some (d, q)" "follow r"
  shows "digits1 (s @ r) = Some (d, q @ r)"
proof -
  have "takeWhile (\<lambda>c. digit_value c \<noteq> None) r = []" using follow_not assms(2) by (cases r) auto
  then show ?thesis using assms(1) unfolding digits1_def Let_def by (simp only: while_append split: if_splits) auto
qed

lemma lex_number_append:
  assumes "lex_number s = Some (n, q)" "follow r"
  shows "lex_number (s @ r) = Some (n, q @ r)"
proof -
  define sign where "sign = (if has_prefix s ''-'' then ''-'' else [] :: string)"
  obtain i r1 f r2 e where parts: "lex_integer (drop (length sign) s) = Some (i, r1)" "lex_fraction r1 = Some (f, r2)"
    "lex_exponent r2 = Some (e, q)" "n = sign @ i @ f @ e"
    using assms(1) unfolding lex_number_def Let_def sign_def[symmetric] by (auto split: option.splits)
  have int: "lex_integer (w @ r) = Some (i, q' @ r)" if "lex_integer w = Some (i, q')" for w i q'
    using that digits1_append[OF _ assms(2), of w] by (cases w) (auto simp: lex_integer_def split: if_splits)
  have frac: "lex_fraction (w @ r) = Some (i, q' @ r)" if "lex_fraction w = Some (i, q')" for w i q'
  proof (cases w)
    case Nil
    then show ?thesis using that follow_not assms(2) by (cases r) (auto simp: lex_fraction_def)
  next
    case (Cons c w')
    then show ?thesis using that digits1_append[OF _ assms(2), of w'] by (auto simp: lex_fraction_def split: if_splits)
  qed
  have exp: "lex_exponent (w @ r) = Some (i, q' @ r)" if "lex_exponent w = Some (i, q')" for w i q'
  proof (cases w)
    case Nil
    then show ?thesis using that follow_not assms(2) by (cases r) (auto simp: lex_exponent_def)
  next
    case (Cons c w')
    then show ?thesis using that digits1_append[OF _ assms(2), of w'] digits1_append[OF _ assms(2), of "tl w'"]
      by (cases w') (auto simp: lex_exponent_def split: if_splits)
  qed
  have "s \<noteq> []" using parts(1) by (auto simp: lex_integer_def)
  then have "has_prefix (s @ r) ''-'' = has_prefix s ''-''" "drop (length sign) (s @ r) = drop (length sign) s @ r"
    by (cases s; simp add: sign_def)+
  then show ?thesis
    unfolding lex_number_def Let_def sign_def[symmetric] using int[OF parts(1)] frac[OF parts(2)] exp[OF parts(3)] parts(4)
    by (simp add: sign_def)
qed

text \<open>A number literal, complete.\<close>

definition number_literal :: "string \<Rightarrow> bool" where
  "number_literal n \<longleftrightarrow> lex_number n = Some (n, [])"

lemma number_literal_start:
  assumes "number_literal n"
  shows "\<exists>c w. n = c # w \<and> (c = CHR ''-'' \<or> digit_value c \<noteq> None)"
proof -
  have "lex_number [] = None" by code_simp
  then obtain c w where n: "n = c # w" using assms by (cases n) (auto simp: number_literal_def)
  have zero: "digit_value (CHR ''0'') \<noteq> None" by code_simp
  show ?thesis
  proof (cases "c = CHR ''-''")
    case False
    then have "lex_integer n \<noteq> None"
      using assms by (auto simp: n number_literal_def lex_number_def split: option.splits)
    then have "digit_value c \<noteq> None"
      using zero by (auto simp: n lex_integer_def digits1_def Let_def split: if_splits)
    then show ?thesis using n by blast
  qed (use n in blast)
qed

lemma lex_number_token:
  assumes "number_literal n" "follow r"
  shows "lex_token (n @ r) = Some (TWord (JNum n), r)"
proof -
  obtain c w where n: "n = c # w" "c = CHR ''-'' \<or> digit_value c \<noteq> None" using number_literal_start[OF assms(1)] by blast
  let ?others = "[CHR '' '', CHR 0x09, CHR 0x0A, CHR 0x0D, CHR ''['', CHR '']'', CHR 0x7B, CHR 0x7D, CHR '','', CHR '':'',
      CHR 0x22, CHR ''n'', CHR ''t'', CHR ''f'']"
  have no: "\<forall>x \<in> set ?others. x \<noteq> CHR ''-'' \<and> digit_value x = None" by code_simp
  have ne: "c \<noteq> x" if "x \<in> set ?others" for x using bspec[OF no that] n(2) by auto
  have c: "list_all (\<lambda>x. c \<noteq> x) ?others" unfolding list_all_iff using ne by (intro ballI)
  have lex: "lex_number (c # w @ r) = Some (n, r)"
    using lex_number_append[OF assms(1)[unfolded number_literal_def] assms(2)] by (simp add: n(1))
  have "dropWhile json_space (c # w @ r) = c # w @ r" using c by (simp add: json_space_def)
  then show ?thesis using c lex by (auto simp: n(1) lex_token_def Let_def)
qed

section \<open>Values\<close>

definition proceed :: "outcome \<Rightarrow> string \<Rightarrow> (json \<times> string) option" where
  "proceed o' r = (case o' of Done v \<Rightarrow> Some (v, r) | More fs m \<Rightarrow> parse_from fs m r | Fail \<Rightarrow> None)"

lemma parse_step: "lex_token s = Some (t, r) \<Longrightarrow> parse_from fs m s = proceed (advance fs m t) r"
  by (subst parse_from.simps) (simp add: proceed_def)

text \<open>
  A text reads as a value: wherever the scanner expects one, below \<open>d\<close> of the depth limit, it takes exactly
  this text and has the value.
\<close>

definition reads :: "nat \<Rightarrow> string \<Rightarrow> json \<Rightarrow> bool" where
  "reads d s v \<longleftrightarrow> (\<forall>r. follow r \<longrightarrow> (\<exists>t q. lex_token (s @ r) = Some (t, q) \<and> t \<noteq> TCloseArr)) \<and>
    (\<forall>fs r. length fs + d \<le> maxNestingDepth \<longrightarrow> follow r \<longrightarrow> parse_from fs Value (s @ r) = proceed (completed fs v) r)"

lemma reads_word:
  assumes "\<And>r. follow r \<Longrightarrow> lex_token (s @ r) = Some (t, r)" "\<And>fs. begin_value fs t = completed fs v" "t \<noteq> TCloseArr"
  shows "reads d s v"
  using assms by (auto simp: reads_def parse_step)

lemma reads_basic:
  "reads d ''null'' JNull" "reads d ''true'' (JBool True)" "reads d ''false'' (JBool False)"
  "reads d (quote s) (JStr (escape_string s))" "number_literal n \<Longrightarrow> reads d n (JNum n)"
proof -
  show "reads d ''null'' JNull" by (rule reads_word[OF lex_words(1)]) simp_all
  show "reads d ''true'' (JBool True)" by (rule reads_word[OF lex_words(2)]) simp_all
  show "reads d ''false'' (JBool False)" by (rule reads_word[OF lex_words(3)]) simp_all
  show "reads d (quote s) (JStr (escape_string s))" by (rule reads_word[OF lex_quote]) simp_all
  show "number_literal n \<Longrightarrow> reads d n (JNum n)" by (rule reads_word[OF lex_number_token]) simp_all
qed

lemma reads_mode:
  assumes "reads d s v" "follow r" "length fs + d \<le> maxNestingDepth"
  shows "parse_from fs Value (s @ r) = proceed (completed fs v) r"
    and "parse_from (InArr vs # fs') ValueOrClose (s @ r) = parse_from (InArr vs # fs') Value (s @ r)"
proof -
  show "parse_from fs Value (s @ r) = proceed (completed fs v) r" using assms by (simp add: reads_def)
  obtain t q where t: "lex_token (s @ r) = Some (t, q)" "t \<noteq> TCloseArr" using assms(1,2) by (auto simp: reads_def)
  then show "parse_from (InArr vs # fs') ValueOrClose (s @ r) = parse_from (InArr vs # fs') Value (s @ r)"
    by (cases t) (simp_all add: parse_step)
qed

text \<open>The elements of an array, and the members of an object, one after the other.\<close>

lemma reads_elements:
  assumes "list_all (\<lambda>(s, v). reads d s v) es" "es \<noteq> []" "Suc (length fs) + d \<le> maxNestingDepth"
  shows "parse_from (InArr vs # fs) Value (join '','' (map fst es) @ CHR '']'' # r)
    = proceed (completed fs (JArr (vs @ map snd es))) r"
  using assms(2,1)
proof (induction es arbitrary: vs rule: list_nonempty_induct)
  case (single e)
  obtain s v where e: "e = (s, v)" by force
  have "parse_from (InArr vs # fs) Value (s @ CHR '']'' # r) = parse_from (InArr vs # fs) (After v) (CHR '']'' # r)"
    using reads_mode(1)[of d s v "CHR '']'' # r" "InArr vs # fs"] single assms(3) by (simp add: e proceed_def completed_def)
  then show ?case by (simp add: e parse_step[OF lex_punctuation(2)])
next
  case (cons e es)
  obtain s v where e: "e = (s, v)" by force
  let ?rest = "CHR '','' # join '','' (map fst es) @ CHR '']'' # r"
  have j: "join '','' (map fst (e # es)) @ CHR '']'' # r = s @ ?rest"
    using cons.hyps by (cases es) (simp_all add: e)
  have "parse_from (InArr vs # fs) Value (s @ ?rest) = parse_from (InArr vs # fs) (After v) ?rest"
    using reads_mode(1)[of d s v ?rest "InArr vs # fs"] cons.prems assms(3) by (simp add: e proceed_def completed_def)
  also have "\<dots> = parse_from (InArr (vs @ [v]) # fs) Value (join '','' (map fst es) @ CHR '']'' # r)"
    by (simp add: parse_step[OF lex_punctuation(5)] proceed_def)
  also have "\<dots> = proceed (completed fs (JArr ((vs @ [v]) @ map snd es))) r" using cons by simp
  finally show ?case unfolding j by (simp add: e)
qed

definition member_text :: "string \<times> string \<Rightarrow> string" where
  "member_text e = quote (fst e) @ '':'' @ snd e"

lemma reads_members:
  assumes "list_all (\<lambda>(k, s, v). reads d s v) es" "es \<noteq> []" "Suc (length fs) + d \<le> maxNestingDepth"
    "mo = Key ms \<or> mo = KeyOrClose ms"
  shows "parse_from (f # fs) mo (join '','' (map (\<lambda>(k, s, v). member_text (k, s)) es) @ CHR 0x7D # r)
    = proceed (completed fs (JObj (ms @ map (\<lambda>(k, s, v). (escape_string k, v)) es))) r"
  using assms(2,1,4)
proof (induction es arbitrary: ms mo f rule: list_nonempty_induct)
  case (single e)
  obtain k s v where e: "e = (k, s, v)" by (cases e)
  have "parse_from (f # fs) mo (quote k @ CHR '':'' # s @ CHR 0x7D # r)
      = parse_from (f # fs) (Colon ms (escape_string k)) (CHR '':'' # s @ CHR 0x7D # r)"
    using single(2) by (auto simp: parse_step[OF lex_quote] proceed_def)
  also have "\<dots> = parse_from (InObj ms (escape_string k) # fs) Value (s @ CHR 0x7D # r)"
    by (simp add: parse_step[OF lex_punctuation(6)] proceed_def)
  also have "\<dots> = parse_from (InObj ms (escape_string k) # fs) (After v) (CHR 0x7D # r)"
    using reads_mode(1)[of d s v "CHR 0x7D # r" "InObj ms (escape_string k) # fs"] single assms(3)
    by (simp add: e proceed_def completed_def)
  also have "\<dots> = proceed (completed fs (JObj (ms @ [(escape_string k, v)]))) r"
    by (simp add: parse_step[OF lex_punctuation(4)])
  finally show ?case by (simp add: e member_text_def)
next
  case (cons e es)
  obtain k s v where e: "e = (k, s, v)" by (cases e)
  let ?tail = "join '','' (map (\<lambda>(k, s, v). member_text (k, s)) es) @ CHR 0x7D # r"
  have j: "join '','' (map (\<lambda>(k, s, v). member_text (k, s)) (e # es)) @ CHR 0x7D # r = quote k @ CHR '':'' # s @ CHR '','' # ?tail"
    using cons.hyps by (cases es) (simp_all add: e member_text_def)
  have "parse_from (f # fs) mo (quote k @ CHR '':'' # s @ CHR '','' # ?tail)
      = parse_from (f # fs) (Colon ms (escape_string k)) (CHR '':'' # s @ CHR '','' # ?tail)"
    using cons.prems(2) by (auto simp: parse_step[OF lex_quote] proceed_def)
  also have "\<dots> = parse_from (InObj ms (escape_string k) # fs) Value (s @ CHR '','' # ?tail)"
    by (simp add: parse_step[OF lex_punctuation(6)] proceed_def)
  also have "\<dots> = parse_from (InObj ms (escape_string k) # fs) (After v) (CHR '','' # ?tail)"
    using reads_mode(1)[of d s v "CHR '','' # ?tail" "InObj ms (escape_string k) # fs"] cons.prems assms(3)
    by (simp add: e proceed_def completed_def)
  also have "\<dots> = parse_from (InObj ms (escape_string k) # fs) (Key (ms @ [(escape_string k, v)])) ?tail"
    by (simp add: parse_step[OF lex_punctuation(5)] proceed_def)
  also have "\<dots> = proceed (completed fs (JObj ((ms @ [(escape_string k, v)]) @ map (\<lambda>(k, s, v). (escape_string k, v)) es))) r"
    using cons.prems by (intro cons.IH) simp_all
  finally show ?case unfolding j by (simp add: e)
qed

text \<open>A struct is written with its fields in their order; each field comes with its encoded value.\<close>

definition marshal_struct :: "(string \<times> string) list \<Rightarrow> string" where
  "marshal_struct fs = [CHR 0x7B] @ join '','' (map member_text fs) @ [CHR 0x7D]"

definition marshal_array :: "string list \<Rightarrow> string" where
  "marshal_array vs = ''['' @ join '','' vs @ '']''"

lemma reads_object:
  assumes "list_all (\<lambda>(k, s, v). reads d s v) es"
  shows "reads (Suc d) (marshal_struct (map (\<lambda>(k, s, v). (k, s)) es)) (JObj (map (\<lambda>(k, s, v). (escape_string k, v)) es))"
  unfolding reads_def
proof (intro conjI allI impI)
  let ?text = "marshal_struct (map (\<lambda>(k, s, v). (k, s)) es)"
  have written: "?text @ r = CHR 0x7B # join '','' (map (\<lambda>(k, s, v). member_text (k, s)) es) @ CHR 0x7D # r" for r
    by (simp add: marshal_struct_def comp_def case_prod_unfold)
  show "\<exists>t q. lex_token (?text @ r) = Some (t, q) \<and> t \<noteq> TCloseArr" for r
    unfolding written lex_punctuation by blast
  fix fs :: "frame list" and r
  assume depth: "length fs + Suc d \<le> maxNestingDepth"
  then have "opened_container fs (KeyOrClose []) (InObj [] []) = More (InObj [] [] # fs) (KeyOrClose [])"
    by (simp add: opened_container_def)
  then have opened: "parse_from fs Value (?text @ r) = parse_from (InObj [] [] # fs) (KeyOrClose [])
      (join '','' (map (\<lambda>(k, s, v). member_text (k, s)) es) @ CHR 0x7D # r)"
    unfolding written by (simp add: parse_step[OF lex_punctuation(3)] proceed_def)
  show "parse_from fs Value (?text @ r) = proceed (completed fs (JObj (map (\<lambda>(k, s, v). (escape_string k, v)) es))) r"
  proof (cases "es = []")
    case True
    then show ?thesis unfolding opened by (simp add: parse_step[OF lex_punctuation(4)])
  next
    case False
    then show ?thesis unfolding opened using reads_members[OF assms, where ms = "[]"] depth by simp
  qed
qed

lemma reads_array:
  assumes "list_all (\<lambda>(s, v). reads d s v) es"
  shows "reads (Suc d) (marshal_array (map fst es)) (JArr (map snd es))"
  unfolding reads_def
proof (intro conjI allI impI)
  have written: "marshal_array (map fst es) @ r = CHR ''['' # join '','' (map fst es) @ CHR '']'' # r" for r
    by (simp add: marshal_array_def)
  show "\<exists>t q. lex_token (marshal_array (map fst es) @ r) = Some (t, q) \<and> t \<noteq> TCloseArr" for r
    unfolding written lex_punctuation by blast
  fix fs :: "frame list" and r
  assume depth: "length fs + Suc d \<le> maxNestingDepth"
  then have "opened_container fs ValueOrClose (InArr []) = More (InArr [] # fs) ValueOrClose"
    by (simp add: opened_container_def)
  then have opened: "parse_from fs Value (marshal_array (map fst es) @ r)
      = parse_from (InArr [] # fs) ValueOrClose (join '','' (map fst es) @ CHR '']'' # r)"
    unfolding written by (simp add: parse_step[OF lex_punctuation(1)] proceed_def)
  show "parse_from fs Value (marshal_array (map fst es) @ r) = proceed (completed fs (JArr (map snd es))) r"
  proof (cases es)
    case Nil
    then show ?thesis unfolding opened by (simp add: parse_step[OF lex_punctuation(2)])
  next
    case (Cons e rest)
    obtain s v where e: "e = (s, v)" by force
    let ?q = "(if rest = [] then [] else CHR '','' # join '','' (map fst rest)) @ CHR '']'' # r"
    have j: "join '','' (map fst es) @ CHR '']'' # r = s @ ?q" by (cases rest) (simp_all add: Cons e)
    have "parse_from (InArr [] # fs) ValueOrClose (join '','' (map fst es) @ CHR '']'' # r)
        = parse_from (InArr [] # fs) Value (join '','' (map fst es) @ CHR '']'' # r)"
      unfolding j using assms depth
      by (intro reads_mode(2)[of d s v _ "[]"]) (simp_all add: Cons e maxNestingDepth_def)
    then show ?thesis unfolding opened using reads_elements[OF assms, of fs "[]" r] depth Cons by simp
  qed
qed

lemma reads_parse: "reads d s v \<Longrightarrow> d \<le> maxNestingDepth \<Longrightarrow> parse_json s = Some v"
proof -
  assume r: "reads d s v" "d \<le> maxNestingDepth"
  then have "parse_from [] Value (s @ []) = proceed (completed [] v) []" by (intro reads_mode(1)) auto
  then show "parse_json s = Some v" by (simp add: parse_json_def proceed_def completed_def)
qed

section \<open>Numbers\<close>

lemma format_nat_start: "0 < n \<Longrightarrow> \<exists>c w. format_nat n = c # w \<and> c \<noteq> CHR ''0''"
proof (induction n rule: format_nat.induct)
  case (1 n)
  show ?case
  proof (cases "n < 10")
    case True
    have "byte_val CHR ''0'' = 0x30" by code_simp
    then have "byte_chr (0x30 + n) \<noteq> CHR ''0''" using byte_val_chr[of "0x30 + n"] True "1.prems" by auto
    then show ?thesis using True by (subst format_nat.simps) simp
  next
    case False
    then have "0 < n div 10" by linarith
    then obtain c w where "format_nat (n div 10) = c # w" "c \<noteq> CHR ''0''" using "1.IH"[OF False] by blast
    then show ?thesis using False by (subst format_nat.simps) simp
  qed
qed

lemma itoa_literal: "number_literal (itoa n)"
proof -
  have all: "\<forall>c \<in> set (format_nat k). digit_value c \<noteq> None" if "0 \<le> k" for k
    using format_nat_digits[OF that] by (auto simp: digit_byte_def)
  have pos: "lex_integer (format_nat k) = Some (format_nat k, [])" if "0 \<le> k" for k
  proof (cases "k = 0")
    case True
    have "format_nat 0 = ''0''" by code_simp
    then show ?thesis using True by (simp add: lex_integer_def)
  next
    case False
    then obtain c w where cw: "format_nat k = c # w" "c \<noteq> CHR ''0''" using format_nat_start[of k] \<open>0 \<le> k\<close> by auto
    have "takeWhile (\<lambda>c. digit_value c \<noteq> None) (c # w) = c # w" "dropWhile (\<lambda>c. digit_value c \<noteq> None) (c # w) = []"
      using all[OF that] unfolding cw(1) by (simp_all only: takeWhile_eq_all_conv dropWhile_eq_Nil_conv)
    then show ?thesis using cw(2) unfolding cw(1) lex_integer_def digits1_def Let_def by simp
  qed
  have rest: "lex_fraction [] = Some ([], [])" "lex_exponent [] = Some ([], [])" by code_simp+
  then show ?thesis using format_nat_unsigned
    by (cases "n < 0") (simp_all add: number_literal_def lex_number_def itoa_def pos rest)
qed

lemma decode_int_itoa: "lo \<le> n \<Longrightarrow> n \<le> hi \<Longrightarrow> decode_int lo hi (JNum (itoa n)) old = Some n"
  using format_nat_unsigned[of n] by (cases "n < 0") (simp_all add: itoa_def digits_format)

end
