(* ===== verification/TestLogs.thy ===== *)
theory TestLogs
  imports JsonRoundtrip
begin

text \<open>
  \<open>internal/testlogs\<close>: the bridge to the log MCP server, its five tools with the JSON of their inputs and
  outputs, and the lazily opened session. The MCP client of go-sdk is a parameter: what a tool call
  answers, and whether a connection can be made.
\<close>

section \<open>Types\<close>

record SourceInfo =
  si_Name :: string

record SourcesOutput =
  so_Sources :: "SourceInfo list"

record SearchInput =
  se_Source :: string
  se_Query :: string
  se_Limit :: int
  se_CaseSensitive :: bool

record LogEntry =
  le_File :: string
  le_Line :: string

record SearchOutput =
  sr_Source :: string
  sr_Matches :: "LogEntry list"
  sr_ScannedFiles :: int
  sr_ScannedBytes :: int
  sr_Truncated :: bool

record TraceInput =
  tc_TraceID :: string
  tc_Sources :: "string list option"
  tc_Limit :: int

record TraceEntry =
  te_Source :: string
  te_File :: string
  te_Line :: string

record TraceOutput =
  to_Entries :: "TraceEntry list"
  to_ScannedFiles :: int
  to_ScannedBytes :: int
  to_Truncated :: bool

record GetRuntimeInput =
  gr_Source :: string

record BinaryInfo =
  bn_Name :: string
  bn_SizeBytes :: int
  bn_ModifiedAt :: string
  bn_GoVersion :: string
  bn_Module :: string
  bn_Version :: string
  bn_VCSRevision :: string
  bn_VCSTime :: string
  bn_VCSModified :: string
  bn_Error :: string

record ConfigInfo =
  ci_Name :: string
  ci_SizeBytes :: int
  ci_ModifiedAt :: string
  ci_SHA256 :: string
  ci_Values :: "(string \<times> string) list"
  ci_Error :: string

record GetRuntimeOutput =
  go_Source :: string
  go_Binaries :: "BinaryInfo list"
  go_ConfigFiles :: "ConfigInfo list"

section \<open>The JSON of inputs\<close>

text \<open>\<open>omitempty\<close>.\<close>

definition unless_empty :: "bool \<Rightarrow> string \<Rightarrow> string \<Rightarrow> (string \<times> string) list" where
  "unless_empty zero k v = (if zero then [] else [(k, v)])"

definition encode_search :: "SearchInput \<Rightarrow> string" where
  "encode_search input = marshal_struct (
     [(''source'', quote (se_Source input))]
     @ unless_empty (se_Query input = []) ''query'' (quote (se_Query input))
     @ unless_empty (se_Limit input = 0) ''limit'' (itoa (se_Limit input))
     @ unless_empty (\<not> se_CaseSensitive input) ''case_sensitive'' ''true'')"

definition encode_strings :: "string list option \<Rightarrow> string" where
  "encode_strings xs = (case xs of None \<Rightarrow> ''null'' | Some ss \<Rightarrow> marshal_array (map quote ss))"

definition encode_trace :: "TraceInput \<Rightarrow> string" where
  "encode_trace input = marshal_struct (
     [(''trace_id'', quote (tc_TraceID input)), (''sources'', encode_strings (tc_Sources input))]
     @ unless_empty (tc_Limit input = 0) ''limit'' (itoa (tc_Limit input)))"

definition encode_runtime :: "GetRuntimeInput \<Rightarrow> string" where
  "encode_runtime input = marshal_struct [(''source'', quote (gr_Source input))]"

definition encode_nothing :: string where
  "encode_nothing = marshal_struct []"

section \<open>Decoding of outputs\<close>

definition source_fields :: "(string \<times> SourceInfo decoder) list" where
  "source_fields = [(''name'', at_field si_Name (\<lambda>v r. r\<lparr>si_Name := v\<rparr>) decode_string)]"

definition decode_sources :: "SourcesOutput decoder" where
  "decode_sources = decode_struct False
    [(''sources'', at_field so_Sources (\<lambda>v r. r\<lparr>so_Sources := v\<rparr>) (decode_slice (decode_struct False source_fields) \<lparr>si_Name = []\<rparr>))]"

definition entry_fields :: "(string \<times> LogEntry decoder) list" where
  "entry_fields =
    [(''file'', at_field le_File (\<lambda>v r. r\<lparr>le_File := v\<rparr>) decode_string),
     (''line'', at_field le_Line (\<lambda>v r. r\<lparr>le_Line := v\<rparr>) decode_string)]"

definition decode_search :: "SearchOutput decoder" where
  "decode_search = decode_struct False
    [(''source'', at_field sr_Source (\<lambda>v r. r\<lparr>sr_Source := v\<rparr>) decode_string),
     (''matches'', at_field sr_Matches (\<lambda>v r. r\<lparr>sr_Matches := v\<rparr>)
        (decode_slice (decode_struct False entry_fields) \<lparr>le_File = [], le_Line = []\<rparr>)),
     (''scanned_files'', at_field sr_ScannedFiles (\<lambda>v r. r\<lparr>sr_ScannedFiles := v\<rparr>) decode_int64),
     (''scanned_bytes'', at_field sr_ScannedBytes (\<lambda>v r. r\<lparr>sr_ScannedBytes := v\<rparr>) decode_int64),
     (''truncated'', at_field sr_Truncated (\<lambda>v r. r\<lparr>sr_Truncated := v\<rparr>) decode_bool)]"

definition trace_fields :: "(string \<times> TraceEntry decoder) list" where
  "trace_fields =
    [(''source'', at_field te_Source (\<lambda>v r. r\<lparr>te_Source := v\<rparr>) decode_string),
     (''file'', at_field te_File (\<lambda>v r. r\<lparr>te_File := v\<rparr>) decode_string),
     (''line'', at_field te_Line (\<lambda>v r. r\<lparr>te_Line := v\<rparr>) decode_string)]"

definition decode_trace :: "TraceOutput decoder" where
  "decode_trace = decode_struct False
    [(''entries'', at_field to_Entries (\<lambda>v r. r\<lparr>to_Entries := v\<rparr>)
        (decode_slice (decode_struct False trace_fields) \<lparr>te_Source = [], te_File = [], te_Line = []\<rparr>)),
     (''scanned_files'', at_field to_ScannedFiles (\<lambda>v r. r\<lparr>to_ScannedFiles := v\<rparr>) decode_int64),
     (''scanned_bytes'', at_field to_ScannedBytes (\<lambda>v r. r\<lparr>to_ScannedBytes := v\<rparr>) decode_int64),
     (''truncated'', at_field to_Truncated (\<lambda>v r. r\<lparr>to_Truncated := v\<rparr>) decode_bool)]"

definition binary_fields :: "(string \<times> BinaryInfo decoder) list" where
  "binary_fields =
    [(''name'', at_field bn_Name (\<lambda>v r. r\<lparr>bn_Name := v\<rparr>) decode_string),
     (''size_bytes'', at_field bn_SizeBytes (\<lambda>v r. r\<lparr>bn_SizeBytes := v\<rparr>) decode_int64),
     (''modified_at'', at_field bn_ModifiedAt (\<lambda>v r. r\<lparr>bn_ModifiedAt := v\<rparr>) decode_string),
     (''go_version'', at_field bn_GoVersion (\<lambda>v r. r\<lparr>bn_GoVersion := v\<rparr>) decode_string),
     (''module'', at_field bn_Module (\<lambda>v r. r\<lparr>bn_Module := v\<rparr>) decode_string),
     (''version'', at_field bn_Version (\<lambda>v r. r\<lparr>bn_Version := v\<rparr>) decode_string),
     (''vcs_revision'', at_field bn_VCSRevision (\<lambda>v r. r\<lparr>bn_VCSRevision := v\<rparr>) decode_string),
     (''vcs_time'', at_field bn_VCSTime (\<lambda>v r. r\<lparr>bn_VCSTime := v\<rparr>) decode_string),
     (''vcs_modified'', at_field bn_VCSModified (\<lambda>v r. r\<lparr>bn_VCSModified := v\<rparr>) decode_string),
     (''error'', at_field bn_Error (\<lambda>v r. r\<lparr>bn_Error := v\<rparr>) decode_string)]"

definition zero_binary :: BinaryInfo where
  "zero_binary = \<lparr>bn_Name = [], bn_SizeBytes = 0, bn_ModifiedAt = [], bn_GoVersion = [], bn_Module = [], bn_Version = [],
     bn_VCSRevision = [], bn_VCSTime = [], bn_VCSModified = [], bn_Error = []\<rparr>"

definition config_info_fields :: "(string \<times> ConfigInfo decoder) list" where
  "config_info_fields =
    [(''name'', at_field ci_Name (\<lambda>v r. r\<lparr>ci_Name := v\<rparr>) decode_string),
     (''size_bytes'', at_field ci_SizeBytes (\<lambda>v r. r\<lparr>ci_SizeBytes := v\<rparr>) decode_int64),
     (''modified_at'', at_field ci_ModifiedAt (\<lambda>v r. r\<lparr>ci_ModifiedAt := v\<rparr>) decode_string),
     (''sha256'', at_field ci_SHA256 (\<lambda>v r. r\<lparr>ci_SHA256 := v\<rparr>) decode_string),
     (''values'', at_field ci_Values (\<lambda>v r. r\<lparr>ci_Values := v\<rparr>) (decode_map decode_string [])),
     (''error'', at_field ci_Error (\<lambda>v r. r\<lparr>ci_Error := v\<rparr>) decode_string)]"

definition decode_runtime :: "GetRuntimeOutput decoder" where
  "decode_runtime = decode_struct False
    [(''source'', at_field go_Source (\<lambda>v r. r\<lparr>go_Source := v\<rparr>) decode_string),
     (''binaries'', at_field go_Binaries (\<lambda>v r. r\<lparr>go_Binaries := v\<rparr>) (decode_slice (decode_struct False binary_fields) zero_binary)),
     (''config_files'', at_field go_ConfigFiles (\<lambda>v r. r\<lparr>go_ConfigFiles := v\<rparr>)
        (decode_slice (decode_struct False config_info_fields)
           \<lparr>ci_Name = [], ci_SizeBytes = 0, ci_ModifiedAt = [], ci_SHA256 = [], ci_Values = [], ci_Error = []\<rparr>))]"

definition zero_search :: SearchOutput where
  "zero_search = \<lparr>sr_Source = [], sr_Matches = [], sr_ScannedFiles = 0, sr_ScannedBytes = 0, sr_Truncated = False\<rparr>"

definition zero_trace :: TraceOutput where
  "zero_trace = \<lparr>to_Entries = [], to_ScannedFiles = 0, to_ScannedBytes = 0, to_Truncated = False\<rparr>"

definition zero_runtime :: GetRuntimeOutput where
  "zero_runtime = \<lparr>go_Source = [], go_Binaries = [], go_ConfigFiles = []\<rparr>"

section \<open>The bridge\<close>

record tool_call =
  tool_name :: string
  tool_arguments :: "(string \<times> goany) list"

record tool_result =
  tr_IsError :: bool
  tr_Structured :: goany

datatype call_error =
    InputNotNormalized string
  | DownstreamFailed string string
  | DownstreamRejected string
  | OutputNotDecoded string

datatype bridge_log = BridgeSuccess string

text \<open>
  \<open>Bridge.call\<close>, under its lock. \<open>json.Marshal\<close> cannot fail on these inputs nor on what came out of JSON;
  how it writes a \<open>float64\<close> is the parameter \<open>float_text\<close>.
\<close>

fun refloat :: "(string \<Rightarrow> string) \<Rightarrow> goany \<Rightarrow> goany" where
  "refloat f (ANum n) = ANum (f n)"
| "refloat f (ASlice vs) = ASlice (map (refloat f) vs)"
| "refloat f (AMap m) = AMap (map (\<lambda>(k, v). (k, refloat f v)) m)"
| "refloat f v = v"

definition bridge_call :: "(string \<Rightarrow> string) \<Rightarrow> bool \<Rightarrow> (tool_call, string, tool_result) remote \<Rightarrow> 'o decoder \<Rightarrow> 'o
    \<Rightarrow> string \<Rightarrow> string \<Rightarrow> (tool_call, bridge_log) session \<Rightarrow> (call_error, 'o) result \<times> (tool_call, bridge_log) session" where
  "bridge_call float_text logger down decode zero name argumentsData st =
    (case unmarshal (decode_map decode_any_at ANil) argumentsData [] of
       None \<Rightarrow> (Inl (InputNotNormalized name), st)
     | Some arguments \<Rightarrow>
       (case send down \<lparr>tool_name = name, tool_arguments = arguments\<rparr> st of
          (Inl e, st') \<Rightarrow> (Inl (DownstreamFailed name e), st')
        | (Inr result, st') \<Rightarrow>
          if tr_IsError result then (Inl (DownstreamRejected name), st')
          else (case unmarshal decode (marshal (refloat float_text (tr_Structured result))) zero of
              None \<Rightarrow> (Inl (OutputNotDecoded name), st')
            | Some out \<Rightarrow> (Inr out, write_log logger (BridgeSuccess name) st'))))"

text \<open>What the five methods have of the bridge: the parameters of every call.\<close>

record bridge =
  br_float :: "string \<Rightarrow> string"
  br_logger :: bool
  br_down :: "(tool_call, string, tool_result) remote"

definition bridge_ListSources :: "bridge \<Rightarrow> (tool_call, bridge_log) session \<Rightarrow> (call_error, SourcesOutput) result \<times> (tool_call, bridge_log) session" where
  "bridge_ListSources b = bridge_call (br_float b) (br_logger b) (br_down b) decode_sources \<lparr>so_Sources = []\<rparr> ''list_test_log_sources'' encode_nothing"

definition bridge_Search :: "bridge \<Rightarrow> SearchInput \<Rightarrow> (tool_call, bridge_log) session \<Rightarrow> (call_error, SearchOutput) result \<times> (tool_call, bridge_log) session" where
  "bridge_Search b input = bridge_call (br_float b) (br_logger b) (br_down b) decode_search zero_search ''search_test_logs'' (encode_search input)"

definition bridge_Trace :: "bridge \<Rightarrow> TraceInput \<Rightarrow> (tool_call, bridge_log) session \<Rightarrow> (call_error, TraceOutput) result \<times> (tool_call, bridge_log) session" where
  "bridge_Trace b input = bridge_call (br_float b) (br_logger b) (br_down b) decode_trace zero_trace ''trace_test_logs'' (encode_trace input)"

definition bridge_ListRuntimeSources :: "bridge \<Rightarrow> (tool_call, bridge_log) session \<Rightarrow> (call_error, SourcesOutput) result \<times> (tool_call, bridge_log) session" where
  "bridge_ListRuntimeSources b = bridge_call (br_float b) (br_logger b) (br_down b) decode_sources \<lparr>so_Sources = []\<rparr> ''list_test_runtime_sources'' encode_nothing"

definition bridge_GetRuntime :: "bridge \<Rightarrow> GetRuntimeInput \<Rightarrow> (tool_call, bridge_log) session \<Rightarrow> (call_error, GetRuntimeOutput) result \<times> (tool_call, bridge_log) session" where
  "bridge_GetRuntime b input = bridge_call (br_float b) (br_logger b) (br_down b) decode_runtime zero_runtime ''get_test_service_runtime'' (encode_runtime input)"

text \<open>\<open>Connect\<close>: the command is checked, the rest is the MCP client's.\<close>

datatype connect_error = CommandEmpty | ConnectFailed string

definition Connect :: "string \<Rightarrow> (string, 'b) result \<Rightarrow> (connect_error, 'b) result" where
  "Connect command outcome = guard_err (trim_space command = []) CommandEmpty (bind_err ConnectFailed outcome Inr)"

section \<open>The lazy session\<close>

record 'b Lazy =
  lz_service :: "'b option"
  lz_closed :: bool

definition newLazy :: "'b Lazy" where
  "newLazy = \<lparr>lz_service = None, lz_closed = False\<rparr>"

datatype get_error = BackendClosed | NotConnected connect_error

text \<open>\<open>get\<close>, under the lock: \<open>outcome\<close> is what \<open>connect\<close> would answer now.\<close>

definition lazy_get :: "(connect_error, 'b) result \<Rightarrow> 'b Lazy \<Rightarrow> (get_error, 'b) result \<times> 'b Lazy" where
  "lazy_get outcome l =
    (if lz_closed l then (Inl BackendClosed, l)
     else (case lz_service l of
         Some s \<Rightarrow> (Inr s, l)
       | None \<Rightarrow> (case outcome of
           Inl e \<Rightarrow> (Inl (NotConnected e), l)
         | Inr s \<Rightarrow> (Inr s, l\<lparr>lz_service := Some s\<rparr>))))"

text \<open>\<open>Close\<close>: the session it ends, if there is one.\<close>

definition lazy_Close :: "'b Lazy \<Rightarrow> 'b option \<times> 'b Lazy" where
  "lazy_Close l = (lz_service l, \<lparr>lz_service = None, lz_closed = True\<rparr>)"

text \<open>
  The tools over the lazy session: \<open>outcome\<close> is what \<open>connect\<close> would answer now. Without a configured command the
  backend is \<open>Unavailable\<close>, whose tools all answer one error.
\<close>

datatype log_error = LogsUnavailable | NoSession get_error | CallRefused call_error

definition lazy_tool :: "(connect_error, 'b) result \<Rightarrow> ('b \<Rightarrow> 's \<Rightarrow> (call_error, 'o) result \<times> 's) \<Rightarrow> 'b Lazy \<times> 's
    \<Rightarrow> (log_error, 'o) result \<times> 'b Lazy \<times> 's" where
  "lazy_tool outcome use ls =
    (case lazy_get outcome (fst ls) of
       (Inl e, l) \<Rightarrow> (Inl (NoSession e), l, snd ls)
     | (Inr service, l) \<Rightarrow> (case use service (snd ls) of (r, st) \<Rightarrow> (bind_err CallRefused r Inr, l, st)))"

type_synonym bridge_session = "(tool_call, bridge_log) session"
type_synonym 'o lazy_run = "(connect_error, bridge) result \<Rightarrow> bridge Lazy \<times> bridge_session \<Rightarrow> (log_error, 'o) result \<times> bridge Lazy \<times> bridge_session"

definition lazy_ListSources :: "SourcesOutput lazy_run" where
  "lazy_ListSources outcome = lazy_tool outcome bridge_ListSources"

definition lazy_Search :: "SearchInput \<Rightarrow> SearchOutput lazy_run" where
  "lazy_Search input outcome = lazy_tool outcome (\<lambda>b. bridge_Search b input)"

definition lazy_Trace :: "TraceInput \<Rightarrow> TraceOutput lazy_run" where
  "lazy_Trace input outcome = lazy_tool outcome (\<lambda>b. bridge_Trace b input)"

definition lazy_ListRuntimeSources :: "SourcesOutput lazy_run" where
  "lazy_ListRuntimeSources outcome = lazy_tool outcome bridge_ListRuntimeSources"

definition lazy_GetRuntime :: "GetRuntimeInput \<Rightarrow> GetRuntimeOutput lazy_run" where
  "lazy_GetRuntime input outcome = lazy_tool outcome (\<lambda>b. bridge_GetRuntime b input)"

definition logs_unavailable :: "(log_error, 'o) result" where
  "logs_unavailable = Inl LogsUnavailable"

section \<open>The goroutines\<close>

text \<open>
  All goroutines over one lazy session: the sessions ever opened and ended, the calls that have a session and
  wait for its lock (\<open>callMu\<close>), the one that holds it, and how often the backend was found closed.
\<close>

record 'b backend =
  k_lazy :: "'b Lazy"
  k_opened :: "'b list"
  k_ended :: "'b list"
  k_waiting :: "'b list"
  k_calling :: "'b list"

inductive backend_step :: "'b backend \<Rightarrow> 'b backend \<Rightarrow> bool" where
  got: "lazy_get outcome (k_lazy k) = (Inr s, l) \<Longrightarrow>
    (\<And>fresh. outcome = Inr fresh \<Longrightarrow> fresh \<notin> set (k_opened k)) \<Longrightarrow>
    backend_step k (k\<lparr>k_lazy := l, k_waiting := s # k_waiting k,
      k_opened := (if lz_service (k_lazy k) = None then s # k_opened k else k_opened k)\<rparr>)"
| refused: "lazy_get outcome (k_lazy k) = (Inl e, l) \<Longrightarrow> backend_step k (k\<lparr>k_lazy := l\<rparr>)"
| lock: "s \<in> set (k_waiting k) \<Longrightarrow> s \<notin> set (k_calling k) \<Longrightarrow>
    backend_step k (k\<lparr>k_waiting := remove1 s (k_waiting k), k_calling := s # k_calling k\<rparr>)"
| unlock: "s \<in> set (k_calling k) \<Longrightarrow> backend_step k (k\<lparr>k_calling := remove1 s (k_calling k)\<rparr>)"
| close: "lazy_Close (k_lazy k) = (ended, l) \<Longrightarrow>
    backend_step k (k\<lparr>k_lazy := l, k_ended := (case ended of None \<Rightarrow> k_ended k | Some s \<Rightarrow> s # k_ended k)\<rparr>)"

inductive_cases backend_stepE: "backend_step k k'"

definition backend_start :: "'b backend \<Rightarrow> bool" where
  "backend_start k \<longleftrightarrow> k = \<lparr>k_lazy = newLazy, k_opened = [], k_ended = [], k_waiting = [], k_calling = []\<rparr>"

section \<open>Facts\<close>

text \<open>What the downstream gets as arguments: the fields of the input, those that are empty left out.\<close>

lemma clean_keys:
  "utf8_clean ''source'' = ''source''" "utf8_clean ''query'' = ''query''" "utf8_clean ''limit'' = ''limit''"
  "utf8_clean ''case_sensitive'' = ''case_sensitive''" "utf8_clean ''trace_id'' = ''trace_id''" "utf8_clean ''sources'' = ''sources''"
  by code_simp+

lemma itoa_no_overflow:
  assumes "- (2 ^ 63) \<le> n" "n < 2 ^ 63"
  shows "\<not> float_overflow (itoa n)"
proof -
  have plain: "takeWhile (\<lambda>c. c \<noteq> CHR ''e'' \<and> c \<noteq> CHR ''E'') (format_nat k) = format_nat k"
      "takeWhile (\<lambda>c. c \<noteq> CHR ''.'') (format_nat k) = format_nat k" if "0 \<le> k" for k
  proof -
    have "\<not> digit_byte CHR ''e''" "\<not> digit_byte CHR ''E''" "\<not> digit_byte CHR ''.''" by code_simp+
    then show "takeWhile (\<lambda>c. c \<noteq> CHR ''e'' \<and> c \<noteq> CHR ''E'') (format_nat k) = format_nat k"
      "takeWhile (\<lambda>c. c \<noteq> CHR ''.'') (format_nat k) = format_nat k"
      using format_nat_digits[OF that] by (auto simp: takeWhile_eq_all_conv)
  qed
  have parts: "number_parts (format_nat k) = (k, 0)" "number_parts (CHR ''-'' # format_nat k) = (k, 0)" if "0 \<le> k" for k
    using format_nat_unsigned[OF that] plain[OF that] digits_format[OF that]
    by (simp_all add: number_parts_def Let_def del: takeWhile_eq_all_conv)
  have "number_parts (itoa n) = (\<bar>n\<bar>, 0)" by (cases "n < 0") (simp_all add: itoa_def parts)
  moreover have "\<bar>n\<bar> \<le> 2 ^ 63" using assms by linarith
  ultimately show ?thesis by (simp add: float_overflow_def)
qed

definition search_arguments :: "SearchInput \<Rightarrow> (string \<times> goany) list" where
  "search_arguments input =
     [(''source'', AStr (utf8_clean (se_Source input)))]
     @ (if se_Query input = [] then [] else [(''query'', AStr (utf8_clean (se_Query input)))])
     @ (if se_Limit input = 0 then [] else [(''limit'', ANum (itoa (se_Limit input)))])
     @ (if se_CaseSensitive input then [(''case_sensitive'', ABool True)] else [])"

lemma search_arguments:
  assumes "- (2 ^ 63) \<le> se_Limit input" "se_Limit input < 2 ^ 63"
  shows "unmarshal (decode_map decode_any_at ANil) (encode_search input) [] = Some (search_arguments input)"
proof -
  let ?es = "[(''source'', quote (se_Source input), JStr (escape_string (se_Source input)))]
     @ (if se_Query input = [] then [] else [(''query'', quote (se_Query input), JStr (escape_string (se_Query input)))])
     @ (if se_Limit input = 0 then [] else [(''limit'', itoa (se_Limit input), JNum (itoa (se_Limit input)))])
     @ (if se_CaseSensitive input then [(''case_sensitive'', ''true'', JBool True)] else [])"
  have "list_all (\<lambda>(k, s, v). reads 0 s v) ?es" by (simp add: reads_basic itoa_literal)
  note r = reads_object[OF this]
  have "marshal_struct (map (\<lambda>(k, s, v). (k, s)) ?es) = encode_search input"
    by (simp add: encode_search_def unless_empty_def)
  then have "parse_json (encode_search input) = Some (JObj (map (\<lambda>(k, s, v). (escape_string k, v)) ?es))"
    using reads_parse[OF r] by (simp add: maxNestingDepth_def)
  then show ?thesis
    using itoa_no_overflow[OF assms]
    by (simp add: unmarshal_def decode_any_at_def clean_keys unquote_escape search_arguments_def)
qed

definition trace_arguments :: "TraceInput \<Rightarrow> (string \<times> goany) list" where
  "trace_arguments input =
     [(''trace_id'', AStr (utf8_clean (tc_TraceID input))),
      (''sources'', case tc_Sources input of None \<Rightarrow> ANil | Some ss \<Rightarrow> ASlice (map (\<lambda>s. AStr (utf8_clean s)) ss))]
     @ (if tc_Limit input = 0 then [] else [(''limit'', ANum (itoa (tc_Limit input)))])"

lemma decode_strings: "decode_anys (map (\<lambda>s. JStr (escape_string s)) ss) = Some (map (\<lambda>s. AStr (utf8_clean s)) ss)"
  by (induction ss) (simp_all add: unquote_escape)

lemma trace_arguments:
  assumes "- (2 ^ 63) \<le> tc_Limit input" "tc_Limit input < 2 ^ 63"
  shows "unmarshal (decode_map decode_any_at ANil) (encode_trace input) [] = Some (trace_arguments input)"
proof -
  let ?list = "case tc_Sources input of None \<Rightarrow> JNull | Some ss \<Rightarrow> JArr (map (\<lambda>s. JStr (escape_string s)) ss)"
  let ?es = "[(''trace_id'', quote (tc_TraceID input), JStr (escape_string (tc_TraceID input))),
      (''sources'', encode_strings (tc_Sources input), ?list)]
     @ (if tc_Limit input = 0 then [] else [(''limit'', itoa (tc_Limit input), JNum (itoa (tc_Limit input)))])"
  have "reads 1 (encode_strings (tc_Sources input)) ?list"
  proof (cases "tc_Sources input")
    case None
    then show ?thesis by (simp add: encode_strings_def reads_basic)
  next
    case (Some ss)
    have "list_all (\<lambda>(s, v). reads 0 s v) (map (\<lambda>s. (quote s, JStr (escape_string s))) ss)"
      by (simp add: list_all_iff reads_basic)
    from reads_array[OF this] show ?thesis by (simp add: Some encode_strings_def comp_def)
  qed
  then have "list_all (\<lambda>(k, s, v). reads 1 s v) ?es" by (simp add: reads_basic itoa_literal)
  note r = reads_object[OF this]
  have "marshal_struct (map (\<lambda>(k, s, v). (k, s)) ?es) = encode_trace input"
    by (simp add: encode_trace_def unless_empty_def)
  then have "parse_json (encode_trace input) = Some (JObj (map (\<lambda>(k, s, v). (escape_string k, v)) ?es))"
    using reads_parse[OF r] by (simp add: maxNestingDepth_def)
  then show ?thesis
    using itoa_no_overflow[OF assms]
    by (simp add: unmarshal_def decode_any_at_def clean_keys unquote_escape trace_arguments_def decode_strings split: option.split)
qed

lemma bridge_call_spec:
  assumes "unmarshal (decode_map decode_any_at ANil) text [] = Some args"
    "bridge_call f logger down decode zero name text st = (r, st')"
  shows "sent st' = sent st @ [\<lparr>tool_name = name, tool_arguments = args\<rparr>]
    \<and> (r = Inr out \<longleftrightarrow> (\<exists>result. down (sent st') = Inr result \<and> \<not> tr_IsError result
        \<and> unmarshal decode (marshal (refloat f (tr_Structured result))) zero = Some out))
    \<and> audit st' = audit st @ (if logger \<and> is_ok r then [BridgeSuccess name] else [])"
proof (cases "down (sent st @ [\<lparr>tool_name = name, tool_arguments = args\<rparr>])")
  case (Inl e)
  then show ?thesis using assms by (auto simp: bridge_call_def send_def)
next
  case (Inr result)
  then show ?thesis using assms by (auto simp: bridge_call_def send_def write_log_def split: if_splits option.splits)
qed

text \<open>The lazy session.\<close>

definition backend_ok :: "'b backend \<Rightarrow> bool" where
  "backend_ok k \<longleftrightarrow> set (k_waiting k) \<union> set (k_calling k) \<subseteq> set (k_opened k) \<and> distinct (k_calling k)
    \<and> (case lz_service (k_lazy k) of
         Some s \<Rightarrow> k_opened k = [s] \<and> k_ended k = [] \<and> \<not> lz_closed (k_lazy k)
       | None \<Rightarrow> k_ended k = k_opened k \<and> length (k_opened k) \<le> 1 \<and> (lz_closed (k_lazy k) \<or> k_opened k = []))"

lemma backend_step_ok:
  assumes "backend_ok k" "backend_step k k'"
  shows "backend_ok k' \<and> (lz_closed (k_lazy k) \<longrightarrow> lz_closed (k_lazy k') \<and> k_opened k' = k_opened k)
    \<and> (k_opened k \<noteq> [] \<longrightarrow> k_opened k' = k_opened k)"
  using assms(2)
proof (cases rule: backend_step.cases)
  case (got outcome s l)
  then show ?thesis using assms(1)
    by (auto simp: backend_ok_def lazy_get_def split: if_splits option.splits sum.splits)
next
  case (refused outcome e l)
  then show ?thesis using assms(1)
    by (auto simp: backend_ok_def lazy_get_def split: if_splits option.splits sum.splits)
next
  case (lock s)
  then show ?thesis using assms(1) notin_set_remove1[of _ "k_waiting k" s]
    by (auto simp: backend_ok_def split: option.splits dest: notin_set_remove1)
next
  case (unlock s)
  then show ?thesis using assms(1) by (auto simp: backend_ok_def split: option.splits dest: notin_set_remove1)
next
  case (close ended l)
  then show ?thesis using assms(1) by (auto simp: backend_ok_def lazy_Close_def split: option.splits)
qed

interpretation lazy: monotone_system backend_start backend_step backend_ok "\<lambda>k (_ :: unit). lz_closed (k_lazy k)"
proof
  show "backend_start k \<Longrightarrow> backend_ok k" for k :: "'b backend"
    by (simp add: backend_start_def backend_ok_def newLazy_def)
  show "backend_ok k \<Longrightarrow> backend_step k k' \<Longrightarrow> backend_ok k'" for k k' :: "'b backend"
    using backend_step_ok by blast
  show "backend_ok k \<Longrightarrow> backend_step k k' \<Longrightarrow> lz_closed (k_lazy k) \<le> lz_closed (k_lazy k')" for k k' :: "'b backend"
    using backend_step_ok by auto
qed

lemma lazy_steps:
  assumes "backend_step\<^sup>*\<^sup>* k k'" "backend_ok k" "k_opened k \<noteq> [] \<or> lz_closed (k_lazy k)"
  shows "k_opened k' = k_opened k"
  using assms(1)
proof (induction rule: rtranclp_induct)
  case (step m m')
  have ok: "backend_ok m" using lazy.reach_steps_inv[OF step.hyps(1) assms(2)] .
  have "lz_closed (k_lazy k) \<Longrightarrow> lz_closed (k_lazy m)" using lazy.steps_mono[OF step.hyps(1) assms(2)] by auto
  then show ?case using backend_step_ok[OF ok step.hyps(2)] step.IH assms(3) by auto
qed simp

section \<open>Properties\<close>

text \<open>C33: However the log tools are called and the backend is closed, in whatever interleaving, at most one
  downstream session is ever opened and it is the one every call runs on, one call at a time; once it is
  open no other replaces it, and after \<open>Close\<close> it has been ended and no call gets a session again.\<close>

theorem lazy_one_session:
  assumes "reach backend_start backend_step k" "backend_step\<^sup>*\<^sup>* k k'"
  shows "length (k_opened k') \<le> 1 \<and> length (k_calling k') \<le> 1
    \<and> set (k_waiting k') \<union> set (k_calling k') \<subseteq> set (k_opened k')
    \<and> (if k_opened k \<noteq> [] \<or> lz_closed (k_lazy k) then k_opened k' = k_opened k else True)
    \<and> (if lz_closed (k_lazy k) then lz_closed (k_lazy k') else True)
    \<and> (if lz_closed (k_lazy k') then k_ended k' = k_opened k'
          \<and> (\<forall>outcome. lazy_get outcome (k_lazy k') = (Inl BackendClosed, k_lazy k')) else k_ended k' = [])"
proof -
  have ok: "backend_ok k" using assms(1) by (rule lazy.reach_inv)
  have ok': "backend_ok k'" using lazy.reach_steps_inv[OF assms(2) ok] .
  have one: "length (k_opened k') \<le> 1" using ok' by (auto simp: backend_ok_def split: option.splits)
  have "length (k_calling k') = card (set (k_calling k'))" using ok' by (simp add: backend_ok_def distinct_card)
  also have "\<dots> \<le> card (set (k_opened k'))" using ok' by (intro card_mono) (auto simp: backend_ok_def)
  also have "\<dots> \<le> length (k_opened k')" by (rule card_length)
  finally have "length (k_calling k') \<le> 1" using one by simp
  moreover have "lz_closed (k_lazy k) \<Longrightarrow> lz_closed (k_lazy k')" using lazy.steps_mono[OF assms(2) ok] by auto
  ultimately show ?thesis
    using one ok' lazy_steps[OF assms(2) ok]
    by (cases "k_opened k = []"; cases "lz_closed (k_lazy k)") (auto simp: backend_ok_def lazy_get_def split: option.splits)
qed

theorem lazy_one_session_witness:
  "lazy_get (Inr 8) \<lparr>lz_service = None, lz_closed = True\<rparr> = (Inl BackendClosed, \<lparr>lz_service = None :: nat option, lz_closed = True\<rparr>)"
proof -
  let ?k0 = "\<lparr>k_lazy = newLazy, k_opened = [], k_ended = [], k_waiting = [], k_calling = []\<rparr> :: nat backend"
  let ?k1 = "\<lparr>k_lazy = \<lparr>lz_service = Some 7, lz_closed = False\<rparr>, k_opened = [7], k_ended = [], k_waiting = [7], k_calling = []\<rparr> :: nat backend"
  let ?k2 = "\<lparr>k_lazy = \<lparr>lz_service = None, lz_closed = True\<rparr>, k_opened = [7], k_ended = [7], k_waiting = [7], k_calling = []\<rparr> :: nat backend"
  have "reach backend_start backend_step ?k0" by (rule reach_start) (simp add: backend_start_def)
  moreover have "backend_step ?k0 ?k1"
    using backend_step.got[of "Inr 7" ?k0 7 "\<lparr>lz_service = Some 7, lz_closed = False\<rparr>"] by (simp add: lazy_get_def newLazy_def)
  moreover have "backend_step ?k1 ?k2"
    using backend_step.close[of ?k1 "Some 7" "\<lparr>lz_service = None, lz_closed = True\<rparr>"] by (simp add: lazy_Close_def)
  ultimately have "reach backend_start backend_step ?k1" "backend_step\<^sup>*\<^sup>* ?k1 ?k2" by (auto intro: reach_step)
  from lazy_one_session[OF this] show ?thesis by simp
qed

text \<open>C34: A search or a trace asks the downstream server exactly once for the tool of that
  name with the fields of the input as arguments (texts as JSON carries them, empty fields left
  out); it answers only what the structured content of an accepted result decodes to, and only
  then writes its log line.\<close>

theorem log_calls_faithful:
  assumes "- (2 ^ 63) \<le> se_Limit search" "se_Limit search < 2 ^ 63" "- (2 ^ 63) \<le> tc_Limit trace" "tc_Limit trace < 2 ^ 63"
  shows "(case bridge_Search b search st of (r, st') \<Rightarrow>
      sent st' = sent st @ [\<lparr>tool_name = ''search_test_logs'', tool_arguments = search_arguments search\<rparr>]
      \<and> (r = Inr found \<longleftrightarrow> (\<exists>result. br_down b (sent st') = Inr result \<and> \<not> tr_IsError result
          \<and> unmarshal decode_search (marshal (refloat (br_float b) (tr_Structured result))) zero_search = Some found))
      \<and> audit st' = audit st @ (if br_logger b \<and> is_ok r then [BridgeSuccess ''search_test_logs''] else []))
    \<and> (case bridge_Trace b trace st of (r, st') \<Rightarrow>
      sent st' = sent st @ [\<lparr>tool_name = ''trace_test_logs'', tool_arguments = trace_arguments trace\<rparr>]
      \<and> (r = Inr traced \<longleftrightarrow> (\<exists>result. br_down b (sent st') = Inr result \<and> \<not> tr_IsError result
          \<and> unmarshal decode_trace (marshal (refloat (br_float b) (tr_Structured result))) zero_trace = Some traced))
      \<and> audit st' = audit st @ (if br_logger b \<and> is_ok r then [BridgeSuccess ''trace_test_logs''] else []))"
proof -
  obtain r1 st1 where s: "bridge_Search b search st = (r1, st1)" by force
  obtain r2 st2 where t: "bridge_Trace b trace st = (r2, st2)" by force
  show ?thesis
    using bridge_call_spec[OF search_arguments[OF assms(1,2)] s[unfolded bridge_Search_def], of found]
      bridge_call_spec[OF trace_arguments[OF assms(3,4)] t[unfolded bridge_Trace_def], of traced]
    unfolding s t prod.case by blast
qed

definition sample_bridge :: bridge where
  "sample_bridge = \<lparr>br_float = id, br_logger = True,
     br_down = (\<lambda>_. Inr \<lparr>tr_IsError = False, tr_Structured = AMap [(''source'', AStr ''ps''), (''scanned_files'', ANum ''3'')]\<rparr>)\<rparr>"

theorem log_calls_faithful_witness:
  "fst (bridge_Search sample_bridge \<lparr>se_Source = ''ps'', se_Query = ''a&b'', se_Limit = 5, se_CaseSensitive = False\<rparr> empty_session)
   = Inr (zero_search\<lparr>sr_Source := ''ps'', sr_ScannedFiles := 3\<rparr>)"
proof -
  let ?i = "\<lparr>se_Source = ''ps'', se_Query = ''a&b'', se_Limit = 5, se_CaseSensitive = False\<rparr>"
  let ?t = "\<lparr>tc_TraceID = ''x'', tc_Sources = Some [''ps''], tc_Limit = 0\<rparr>"
  have lim: "- (2 ^ 63) \<le> se_Limit ?i" "se_Limit ?i < 2 ^ 63" "- (2 ^ 63) \<le> tc_Limit ?t" "tc_Limit ?t < 2 ^ 63" by simp_all
  let ?out = "zero_search\<lparr>sr_Source := ''ps'', sr_ScannedFiles := 3\<rparr>"
  let ?result = "\<lparr>tr_IsError = False, tr_Structured = AMap [(''source'', AStr ''ps''), (''scanned_files'', ANum ''3'')]\<rparr>"
  have dec: "unmarshal decode_search (marshal (refloat (br_float sample_bridge) (tr_Structured ?result))) zero_search = Some ?out"
    by code_simp
  have down: "br_down sample_bridge qs = Inr ?result" "\<not> tr_IsError ?result" for qs by (simp_all add: sample_bridge_def)
  obtain r st' where run: "bridge_Search sample_bridge ?i empty_session = (r, st')" by force
  have "r = Inr ?out"
    using log_calls_faithful[OF lim, where b = sample_bridge and st = empty_session and found = ?out]
      down dec unfolding run prod.case by blast
  then show ?thesis by (simp add: run)
qed

end
