(* ===== verification/DeployOutput.thy ===== *)
theory DeployOutput
  imports DeployService
begin

text \<open>
  The text side of \<open>internal/testdeploy/manager.go\<close>: what is read from the script's output, the
  concise error, the bounded task log; and \<open>Restart\<close> of \<open>service.go\<close>, which uses them.
\<close>

definition maxTaskLogLines :: nat where "maxTaskLogLines = 40"
definition maxTaskLogBytes :: nat where "maxTaskLogBytes = 8192"

section \<open>Parsing the output\<close>

definition hex_lower :: "char \<Rightarrow> bool" where
  "hex_lower c \<longleftrightarrow> digit_cls c \<or> (0x61 \<le> byte_val c \<and> byte_val c \<le> 0x66)"

definition revisionLinePattern :: re where
  "revisionLinePattern = seqs
    [Bol, lit ''[deploy-server] '',
     alts [lit ''source revision'', lit ''deployment completed'', lit ''failed revision''], lit '': '',
     Grp 1 (repeat_between 7 33 (Cls hex_lower)), Eol]"

definition not_blank :: "char \<Rightarrow> bool" where
  "not_blank c \<longleftrightarrow> c \<noteq> CHR '' ''"

definition attempt_digit :: "char \<Rightarrow> bool" where
  "attempt_digit c \<longleftrightarrow> 0x31 \<le> byte_val c \<and> byte_val c \<le> 0x35"

definition restartLinePattern :: re where
  "restartLinePattern = seqs
    [Bol, lit ''[deploy-server] restarting '', Grp 1 (Plus (Cls not_blank)), lit '' ('',
     Grp 2 (Cls attempt_digit), lit ''/5)'', Eol]"

definition runningLinePattern :: re where
  "runningLinePattern = seqs
    [Bol, Grp 1 (Plus (Cls not_blank)), spaces1, lit ''RUNNING'', spaces1, lit ''pid '',
     Grp 2 (Plus (Cls digit_cls)), lit '','']"

record ProcessDeploymentResult =
  r_Process :: string
  r_State :: string
  r_RestartAttempts :: int
  r_PID :: int

definition new_result :: "string \<Rightarrow> ProcessDeploymentResult" where
  "new_result p = \<lparr>r_Process = p, r_State = [], r_RestartAttempts = 0, r_PID = 0\<rparr>"

text \<open>\<open>byProcess\<close> and \<open>order\<close> as one list of entries in the order of their first match.\<close>

definition amend :: "string \<Rightarrow> (ProcessDeploymentResult \<Rightarrow> ProcessDeploymentResult)
    \<Rightarrow> (string \<times> ProcessDeploymentResult) list \<Rightarrow> (string \<times> ProcessDeploymentResult) list" where
  "amend p f m = AList.update p (f (case map_of m p of Some r \<Rightarrow> r | None \<Rightarrow> new_result p)) m"

definition add_restart :: "(nat \<times> string) list \<Rightarrow> (string \<times> ProcessDeploymentResult) list
    \<Rightarrow> (string \<times> ProcessDeploymentResult) list" where
  "add_restart m = amend (group 1 m) (\<lambda>r. r\<lparr>r_RestartAttempts := atoi_value (group 2 m)\<rparr>)"

definition add_running :: "(nat \<times> string) list \<Rightarrow> (string \<times> ProcessDeploymentResult) list
    \<Rightarrow> (string \<times> ProcessDeploymentResult) list" where
  "add_running m = amend (group 1 m) (\<lambda>r. r\<lparr>r_PID := atoi_value (group 2 m), r_State := ''RUNNING''\<rparr>)"

definition parseDeploymentOutput :: "string \<Rightarrow> string \<times> ProcessDeploymentResult list" where
  "parseDeploymentOutput output =
    (let matches = find_all revisionLinePattern None output;
         revision = (if matches = [] then [] else group 1 (last matches));
         restarted = fold add_restart (find_all restartLinePattern None output) [];
         running = fold add_running (find_all runningLinePattern None output) restarted
     in (revision, map snd running))"

definition Restart :: "runner \<Rightarrow> ProcessActionInput \<Rightarrow> ProcessDeploymentResult list \<times> deploy_error option" where
  "Restart runner input =
    (case validateProcessAction input of
       Inl e \<Rightarrow> ([], Some (InvalidInput e))
     | Inr _ \<Rightarrow>
       (let r = runner False (action_args ''restart'' input) in
        (snd (parseDeploymentOutput (run_output r)), map_option CommandFailed (run_err r))))"

section \<open>Texts\<close>

definition ellipsis :: string where
  "ellipsis = [CHR 0xE2, CHR 0x80, CHR 0xA6]"

definition truncateText :: "string \<Rightarrow> nat \<Rightarrow> string" where
  "truncateText value limit = (if length value \<le> limit then value else take limit value @ ellipsis)"

definition failure_line :: "unicode \<Rightarrow> string \<Rightarrow> bool" where
  "failure_line U line = (let lower = to_lower U line in
     contains lower ''error'' \<or> contains lower ''failed'' \<or> contains lower ''spawn''
     \<or> contains lower ''did not reach'')"

text \<open>The text of the error is split into lines; the last one that speaks of a failure is taken.\<close>

definition conciseDeployError :: "unicode \<Rightarrow> string \<Rightarrow> string" where
  "conciseDeployError U err =
    (let lines = split_at newline err in
     case find (failure_line U) (map trim_space (rev lines)) of
       Some line \<Rightarrow> truncateText line 1024
     | None \<Rightarrow> truncateText (trim_space (hd lines)) 1024)"

fun input_error_text :: "input_error \<Rightarrow> string" where
  "input_error_text ServiceNotAllowed = ''service is not allowlisted''"
| "input_error_text NoProcess = ''at least one process is required''"
| "input_error_text (BadSelector p) = ''unsupported process selector: '' @ p"
| "input_error_text KeepBackupsRange = ''keep_backups must be between 0 and 20''"

fun error_text :: "deploy_error \<Rightarrow> string" where
  "error_text (InvalidInput e) = input_error_text e"
| "error_text (CommandFailed e) = e"

section \<open>The task log\<close>

definition taskLogBytes :: "string list \<Rightarrow> nat" where
  "taskLogBytes lines = sum_list (map length lines)"

text \<open>\<open>for taskLogBytes(Logs) > maxTaskLogBytes && len(Logs) > 1\<close>.\<close>

fun drop_oldest :: "string list \<Rightarrow> string list" where
  "drop_oldest (l # l' # ls) =
    (if maxTaskLogBytes < taskLogBytes (l # l' # ls) then drop_oldest (l' # ls) else l # l' # ls)"
| "drop_oldest ls = ls"

definition appendTaskLog :: "string list \<Rightarrow> string \<Rightarrow> string list" where
  "appendTaskLog logs line0 =
    (let line = truncateText (trim_space line0) 1024 in
     if line = [] then logs
     else (let logs' = logs @ [line];
               logs'' = (if maxTaskLogLines < length logs' then drop (length logs' - maxTaskLogLines) logs' else logs')
           in drop_oldest logs''))"

section \<open>Facts\<close>

lemma truncateText_length: "length (truncateText v n) \<le> n + 3"
  by (simp add: truncateText_def ellipsis_def)

lemma truncateText_idem: "truncateText (truncateText v n) n = truncateText v n"
  by (simp add: truncateText_def ellipsis_def)

definition log_ok :: "string list \<Rightarrow> bool" where
  "log_ok logs \<longleftrightarrow> length logs \<le> maxTaskLogLines \<and> taskLogBytes logs \<le> maxTaskLogBytes
    \<and> (\<forall>l \<in> set logs. l \<noteq> [] \<and> length l \<le> 1027)"

lemma drop_oldest_suffix: "suffix (drop_oldest ls) ls"
  by (induction ls rule: drop_oldest.induct) (auto intro: suffix_ConsI)

lemma drop_oldest_last: "ls \<noteq> [] \<Longrightarrow> drop_oldest ls \<noteq> [] \<and> last (drop_oldest ls) = last ls"
  by (induction ls rule: drop_oldest.induct) auto

lemma drop_oldest_bytes:
  "\<forall>l \<in> set ls. length l \<le> 1027 \<Longrightarrow> taskLogBytes (drop_oldest ls) \<le> maxTaskLogBytes"
  by (induction ls rule: drop_oldest.induct) (auto simp: taskLogBytes_def maxTaskLogBytes_def)

lemma suffix_bounds: "suffix xs ys \<Longrightarrow> length xs \<le> length ys \<and> set xs \<subseteq> set ys"
  by (auto simp: suffix_def)

lemma keep_last:
  "suffix (if n < length xs then drop (length xs - n) xs else xs) xs
    \<and> length (if n < length xs then drop (length xs - n) xs else xs) \<le> n"
  by (simp add: suffix_drop)

lemma keep_last_last:
  "xs \<noteq> [] \<Longrightarrow> 0 < n \<Longrightarrow> (if n < length xs then drop (length xs - n) xs else xs) \<noteq> []
    \<and> last (if n < length xs then drop (length xs - n) xs else xs) = last xs"
  by (auto simp: last_drop)

lemma appendTaskLog_spec:
  assumes "log_ok logs"
  shows "log_ok (appendTaskLog logs line)"
    and "trim_space line \<noteq> [] \<Longrightarrow> appendTaskLog logs line \<noteq> []
      \<and> last (appendTaskLog logs line) = truncateText (trim_space line) 1024
      \<and> suffix (appendTaskLog logs line) (logs @ [truncateText (trim_space line) 1024])"
    and "trim_space line = [] \<Longrightarrow> appendTaskLog logs line = logs"
proof -
  let ?line = "truncateText (trim_space line) 1024"
  let ?a = "logs @ [?line]"
  let ?b = "if maxTaskLogLines < length ?a then drop (length ?a - maxTaskLogLines) ?a else ?a"
  have empty: "?line = [] \<longleftrightarrow> trim_space line = []"
    by (auto simp: truncateText_def ellipsis_def)
  show skip: "appendTaskLog logs line = logs" if "trim_space line = []"
    using that empty by (simp add: appendTaskLog_def)
  have eq: "appendTaskLog logs line = drop_oldest ?b" if "trim_space line \<noteq> []"
    using that empty by (simp only: appendTaskLog_def Let_def if_False)
  have b: "suffix ?b ?a" "length ?b \<le> maxTaskLogLines" using keep_last by blast+
  have last: "?b \<noteq> [] \<and> last ?b = ?line"
    using keep_last_last[of ?a maxTaskLogLines] by (simp only: maxTaskLogLines_def last_snoc) simp
  show "log_ok (appendTaskLog logs line)"
  proof (cases "trim_space line = []")
    case False
    have "\<forall>l \<in> set ?a. l \<noteq> [] \<and> length l \<le> 1027"
      using assms False empty truncateText_length[of "trim_space line" 1024] by (auto simp: log_ok_def)
    then have allb: "\<forall>l \<in> set ?b. l \<noteq> [] \<and> length l \<le> 1027"
      using suffix_bounds[OF b(1)] by blast
    show ?thesis
      unfolding eq[OF False] log_ok_def
      using suffix_bounds[OF drop_oldest_suffix[of ?b]] b(2) allb drop_oldest_bytes[of ?b]
      by (meson dual_order.trans subset_iff)
  qed (use skip assms in simp)
  show "appendTaskLog logs line \<noteq> [] \<and> last (appendTaskLog logs line) = ?line
      \<and> suffix (appendTaskLog logs line) ?a" if "trim_space line \<noteq> []"
  proof -
    have "drop_oldest ?b \<noteq> [] \<and> last (drop_oldest ?b) = ?line"
      using drop_oldest_last[of ?b] last by presburger
    moreover have "suffix (drop_oldest ?b) ?a"
      by (rule suffix_order.trans[OF drop_oldest_suffix b(1)])
    ultimately show ?thesis unfolding eq[OF that] by blast
  qed
qed

text \<open>What the patterns capture.\<close>

lemma captures_of_find_all:
  "cs \<in> set (find_all r q s) \<Longrightarrow> (n, w) \<in> set cs \<Longrightarrow> captured r n w"
proof (induction r q s rule: find_all.induct)
  case (1 r q s)
  show ?case
  proof (cases "find_from r q s")
    case None
    then show ?thesis using "1.prems" by (subst (asm) find_all.simps) simp
  next
    case (Some m)
    obtain pre q' t ds where m: "m = (pre, (q', t, ds))" by (cases m) auto
    then obtain u ms where u: "s = pre @ u" "run r (prev_after q pre, u, []) = (q', t, ds) # ms"
      using find_from_Some[of r q s pre "(q', t, ds)"] Some by auto
    consider "cs = ds" | "length t < length s" "cs \<in> set (find_all r q' t)"
      | c s' where "\<not> length t < length s" "s = c # s'" "cs \<in> set (find_all r (Some c) s')"
      using "1.prems"(1) Some m by (subst (asm) find_all.simps) (auto split: if_splits list.splits)
    then show ?thesis
    proof cases
      case 1
      then show ?thesis using captures_run[of "(q', t, ds)" r "(prev_after q pre, u, [])" n w] "1.prems"(2) u by auto
    next
      case 2
      then show ?thesis using "1.IH"(1)[OF Some[unfolded m] refl refl refl] "1.prems"(2) by blast
    next
      case 3
      then show ?thesis using "1.IH"(2)[OF Some[unfolded m] refl refl refl] "1.prems"(2) by blast
    qed
  qed
qed

lemma takes_up_to_cls: "takes (up_to k (Cls p)) q w t \<longleftrightarrow> length w \<le> k \<and> (\<forall>c \<in> set w. p c)"
proof (induction k arbitrary: q w)
  case 0
  show ?case by (auto simp: takes_Eps)
next
  case (Suc k)
  then show ?case by (cases w) (auto simp: takes_Opt takes_Cat_Cls)
qed

lemma takes_repeat_cls:
  "takes (repeat_between n k (Cls p)) q w t \<longleftrightarrow> n \<le> length w \<and> length w \<le> n + k \<and> (\<forall>c \<in> set w. p c)"
proof (induction n arbitrary: q w)
  case 0
  show ?case by (simp add: takes_up_to_cls)
next
  case (Suc n)
  show ?case by (cases w) (auto simp: takes_Cat_Cls Suc)
qed

lemma not_captured [simp]:
  "\<not> captured Bol n w" "\<not> captured Eol n w" "\<not> captured Eps n w" "\<not> captured (Cls p) n w" "\<not> captured Bot n w"
  "\<not> captured (lit v) n w"
  by (simp_all add: captured_def) (induction v; simp)

lemma captured_repeat [simp]: "\<not> captured (repeat_between i k (Cls p)) n w" "\<not> captured (Plus (Cls p)) n w"
proof -
  have u: "groups_of (up_to k (Cls p)) = []" for k by (induction k) (simp_all add: Opt_def)
  have "groups_of (repeat_between i k (Cls p)) = []" by (induction i) (simp_all add: u)
  then show "\<not> captured (repeat_between i k (Cls p)) n w" by (simp add: captured_def)
  show "\<not> captured (Plus (Cls p)) n w" by (simp add: captured_def Plus_def)
qed

definition revision_ok :: "string \<Rightarrow> bool" where
  "revision_ok w \<longleftrightarrow> 7 \<le> length w \<and> length w \<le> 40 \<and> (\<forall>c \<in> set w. hex_lower c)"

lemma revision_capture: "captured revisionLinePattern n w \<Longrightarrow> n = 1 \<and> revision_ok w"
  by (auto simp: revisionLinePattern_def takes_repeat_cls revision_ok_def)

lemma restart_capture:
  "captured restartLinePattern n w \<Longrightarrow>
    (n = 1 \<and> w \<noteq> [] \<and> CHR '' '' \<notin> set w) \<or> (n = 2 \<and> (\<exists>c. w = [c] \<and> attempt_digit c))"
  by (auto simp: restartLinePattern_def takes_plus_cls takes_Cls not_blank_def)

lemma running_capture:
  "captured runningLinePattern n w \<Longrightarrow>
    (n = 1 \<and> w \<noteq> [] \<and> CHR '' '' \<notin> set w) \<or> (n = 2 \<and> w \<noteq> [] \<and> (\<forall>c \<in> set w. digit_cls c))"
  by (auto simp: runningLinePattern_def takes_plus_cls not_blank_def)

lemma group_cases: "group n cs = [] \<or> (n, group n cs) \<in> set cs"
  by (auto simp: group_def split: option.split dest: map_of_SomeD)

definition result_ok :: "ProcessDeploymentResult \<Rightarrow> bool" where
  "result_ok r \<longleftrightarrow> CHR '' '' \<notin> set (r_Process r) \<and> 0 \<le> r_RestartAttempts r \<and> r_RestartAttempts r \<le> 5
    \<and> 0 \<le> r_PID r \<and> (r_State r = [] \<or> r_State r = ''RUNNING'')"

definition results_ok :: "(string \<times> ProcessDeploymentResult) list \<Rightarrow> bool" where
  "results_ok m \<longleftrightarrow> distinct (map fst m) \<and> (\<forall>(p, r) \<in> set m. r_Process r = p \<and> result_ok r)"

lemma results_ok_amend:
  assumes "results_ok m" "CHR '' '' \<notin> set p"
    and "\<And>r. r_Process r = p \<Longrightarrow> result_ok r \<Longrightarrow> r_Process (f r) = p \<and> result_ok (f r)"
  shows "results_ok (amend p f m)"
proof -
  let ?r = "case map_of m p of Some r \<Rightarrow> r | None \<Rightarrow> new_result p"
  have "r_Process ?r = p \<and> result_ok ?r"
    using assms(1,2) by (auto simp: results_ok_def new_result_def result_ok_def split: option.split dest!: map_of_SomeD)
  then have f: "r_Process (f ?r) = p \<and> result_ok (f ?r)" using assms(3) by blast
  have d: "distinct (map fst (amend p f m))"
    using assms(1) by (simp add: results_ok_def amend_def distinct_update)
  have "r_Process r = q \<and> result_ok r" if "(q, r) \<in> set (amend p f m)" for q r
  proof -
    have "map_of (amend p f m) q = Some r" using d that by simp
    then have "if q = p then r = f ?r else map_of m q = Some r"
      by (simp add: amend_def map_of_update_at split: if_splits)
    then show ?thesis using f assms(1) by (auto simp: results_ok_def split: if_splits dest!: map_of_SomeD)
  qed
  with d show ?thesis by (auto simp: results_ok_def)
qed

lemma atoi_value_nonneg: "\<not> prefix ''-'' w \<Longrightarrow> 0 \<le> atoi_value w"
proof -
  have "0 \<le> v" if "digits_clamped a ds = Some v" "0 \<le> a" for a ds v
    using that
  proof (induction ds arbitrary: a)
    case (Cons c cs)
    then show ?case by (auto simp: digit_value_def Let_def split: option.splits if_splits)
  qed simp
  then show "\<not> prefix ''-'' w \<Longrightarrow> 0 \<le> atoi_value w"
    by (fastforce simp: atoi_value_def Let_def split: option.splits)
qed

lemma attempt_values: "attempt_digit c \<Longrightarrow> 1 \<le> atoi_value [c] \<and> atoi_value [c] \<le> 5"
proof -
  assume "attempt_digit c"
  then have b: "0x31 \<le> byte_val c" "byte_val c \<le> 0x35" by (simp_all add: attempt_digit_def)
  have "c \<noteq> CHR ''-''" "c \<noteq> CHR ''+''" using b by (auto simp: byte_val_def)
  then show ?thesis using b by (simp add: atoi_value_def digit_value_def Let_def)
qed

lemma fold_results_ok:
  assumes "\<And>cs m. cs \<in> set ms \<Longrightarrow> results_ok m \<Longrightarrow> results_ok (step cs m)" "results_ok m"
  shows "results_ok (fold step ms m)"
  using assms by (induction ms arbitrary: m) auto

lemma parsed_results_ok:
  "\<exists>m. snd (parseDeploymentOutput out) = map snd m \<and> results_ok m"
proof -
  have restart: "results_ok (add_restart cs m)"
    if "cs \<in> set (find_all restartLinePattern None out)" "results_ok m" for cs m
  proof -
    note cap = restart_capture[OF captures_of_find_all[OF that(1)]]
    have "CHR '' '' \<notin> set (group 1 cs)" using group_cases[of 1 cs] cap by force
    moreover have "0 \<le> atoi_value (group 2 cs) \<and> atoi_value (group 2 cs) \<le> 5"
    proof (cases "group 2 cs = []")
      case False
      then obtain c where "group 2 cs = [c]" "attempt_digit c"
        using group_cases[of 2 cs] cap[of 2 "group 2 cs"] by auto
      then show ?thesis using attempt_values[of c] by simp
    qed (simp add: atoi_value_def)
    ultimately show ?thesis
      unfolding add_restart_def using that(2) by (intro results_ok_amend) (auto simp: result_ok_def)
  qed
  have running: "results_ok (add_running cs m)"
    if "cs \<in> set (find_all runningLinePattern None out)" "results_ok m" for cs m
  proof -
    note cap = running_capture[OF captures_of_find_all[OF that(1)]]
    have "CHR '' '' \<notin> set (group 1 cs)" using group_cases[of 1 cs] cap by force
    moreover have "\<not> prefix ''-'' (group 2 cs)"
    proof -
      have "\<not> digit_cls CHR ''-''" by code_simp
      then show ?thesis using group_cases[of 2 cs] cap[of 2 "group 2 cs"] by (cases "group 2 cs") auto
    qed
    ultimately show ?thesis
      unfolding add_running_def using that(2) atoi_value_nonneg
      by (intro results_ok_amend) (auto simp: result_ok_def)
  qed
  have "results_ok (fold add_running (find_all runningLinePattern None out)
      (fold add_restart (find_all restartLinePattern None out) []))"
    by (intro fold_results_ok restart running) (auto simp: results_ok_def)
  then show ?thesis by (auto simp: parseDeploymentOutput_def Let_def)
qed

section \<open>Properties\<close>

text \<open>C31: A task log within its bounds (40 lines, 8 KiB, lines of at most 1027 bytes) stays within them
  when a line is added; a line that is not blank is kept, cut to 1024 bytes, as the newest one,
  before it stand only older lines in their order, and a blank line changes nothing.\<close>

theorem task_log_bounded:
  assumes "log_ok logs"
  shows "log_ok (appendTaskLog logs line)
    \<and> (if trim_space line = [] then appendTaskLog logs line = logs
       else last (appendTaskLog logs line) = truncateText (trim_space line) 1024
         \<and> suffix (appendTaskLog logs line) (logs @ [truncateText (trim_space line) 1024]))"
  using appendTaskLog_spec[OF assms, of line] by (cases "trim_space line = []") (simp_all del: suffix_snoc)

theorem task_log_bounded_witness:
  "log_ok (appendTaskLog [''compiling''] '' done '') \<and> last (appendTaskLog [''compiling''] '' done '') = ''done''"
proof -
  have l: "log_ok [''compiling'']" by code_simp
  have t: "trim_space '' done '' = ''done''" "truncateText ''done'' 1024 = ''done''" by code_simp+
  show ?thesis using task_log_bounded[OF l, of "'' done ''"] by (simp add: t)
qed

text \<open>C32: Whatever the script prints, the revision is empty or 7 to 40 hexadecimal digits; the results are
  one for each process, with at most five attempts, a non-negative process number, and no state
  or RUNNING.\<close>

theorem deployment_output_wf:
  "case parseDeploymentOutput out of (revision, results) \<Rightarrow>
     (revision = [] \<or> 7 \<le> length revision \<and> length revision \<le> 40 \<and> list_all hex_lower revision)
     \<and> distinct (map r_Process results) \<and> list_all result_ok results"
proof -
  obtain revision results where p: "parseDeploymentOutput out = (revision, results)" by fastforce
  obtain m where m: "results = map snd m" "results_ok m" using parsed_results_ok[of out] p by auto
  have "map r_Process results = map fst m"
    using m by (auto simp: results_ok_def)
  then have "distinct (map r_Process results)" using m(2) by (simp only: results_ok_def)
  moreover have "list_all result_ok results" using m by (auto simp: results_ok_def list_all_iff)
  moreover have "revision = [] \<or> revision_ok revision"
  proof (cases "find_all revisionLinePattern None out = []")
    case False
    then have "last (find_all revisionLinePattern None out) \<in> set (find_all revisionLinePattern None out)" by simp
    from captures_of_find_all[OF this] have "group 1 (last (find_all revisionLinePattern None out)) = []
        \<or> revision_ok (group 1 (last (find_all revisionLinePattern None out)))"
      using group_cases revision_capture by blast
    then show ?thesis using p False by (auto simp: parseDeploymentOutput_def Let_def)
  qed (use p in \<open>auto simp: parseDeploymentOutput_def Let_def\<close>)
  ultimately show ?thesis by (auto simp: p revision_ok_def list_all_iff)
qed

text \<open>The class \<open>[^ ]\<close> of the running-line pattern also takes line feeds, so a line without a blank
  that stands before the supervisor's line becomes part of the process name.\<close>

theorem running_line_spans_lines:
  "snd (parseDeploymentOutput (''ok'' @ [newline] @ ''rpc RUNNING pid 42, up'')) =
     [\<lparr>r_Process = ''ok'' @ [newline] @ ''rpc'', r_State = ''RUNNING'', r_RestartAttempts = 0, r_PID = 42\<rparr>] \<and>
   snd (parseDeploymentOutput ''rpc RUNNING pid 42, up'') =
     [\<lparr>r_Process = ''rpc'', r_State = ''RUNNING'', r_RestartAttempts = 0, r_PID = 42\<rparr>]"
proof
  show "snd (parseDeploymentOutput (''ok'' @ [newline] @ ''rpc RUNNING pid 42, up'')) =
     [\<lparr>r_Process = ''ok'' @ [newline] @ ''rpc'', r_State = ''RUNNING'', r_RestartAttempts = 0, r_PID = 42\<rparr>]"
    by code_simp
  show "snd (parseDeploymentOutput ''rpc RUNNING pid 42, up'') =
     [\<lparr>r_Process = ''rpc'', r_State = ''RUNNING'', r_RestartAttempts = 0, r_PID = 42\<rparr>]"
    by code_simp
qed

text \<open>The concise error is a line of the error's text, trimmed and cut to 1024 bytes; if any line of
  the text speaks of a failure, it is the last such line.\<close>

theorem concise_error_line:
  "\<exists>i < length (split_at newline err).
     conciseDeployError U err = truncateText (trim_space (split_at newline err ! i)) 1024
     \<and> (if \<exists>line \<in> set (split_at newline err). failure_line U (trim_space line)
        then failure_line U (trim_space (split_at newline err ! i))
          \<and> (\<forall>j < length (split_at newline err). i < j \<longrightarrow> \<not> failure_line U (trim_space (split_at newline err ! j)))
        else i = 0)"
proof -
  let ?lines = "split_at newline err"
  show ?thesis
  proof (cases "find (failure_line U) (map trim_space (rev ?lines))")
    case None
    then have "\<forall>line \<in> set ?lines. \<not> failure_line U (trim_space line)"
      by (auto simp: find_None_iff)
    moreover have "hd ?lines = ?lines ! 0" by (simp add: hd_conv_nth)
    ultimately show ?thesis
      using None by (intro exI[of _ 0]) (auto simp: conciseDeployError_def Let_def)
  next
    case (Some line)
    then obtain k where k: "k < length ?lines" "failure_line U (trim_space (rev ?lines ! k))"
      "line = trim_space (rev ?lines ! k)" "\<forall>j < k. \<not> failure_line U (trim_space (rev ?lines ! j))"
      by (auto simp: find_Some_iff)
    let ?i = "length ?lines - Suc k"
    have i: "?i < length ?lines" "rev ?lines ! k = ?lines ! ?i" using k(1) by (simp_all add: rev_nth)
    have later: "\<not> failure_line U (trim_space (?lines ! j))" if "j < length ?lines" "?i < j" for j
    proof -
      have "length ?lines - Suc j < k" "rev ?lines ! (length ?lines - Suc j) = ?lines ! j"
        using that k(1) by (auto simp: rev_nth)
      then show ?thesis using k(4) by metis
    qed
    have "\<exists>line \<in> set ?lines. failure_line U (trim_space line)"
      using k(2) i by (metis nth_mem)
    then show ?thesis
      using i k later Some by (intro exI[of _ ?i]) (simp add: conciseDeployError_def Let_def)
  qed
qed

theorem concise_error_line_witness:
  "conciseDeployError sample_unicode (''exit'' @ [newline] @ '' Spawn Error '' @ [newline] @ ''bye'') = ''Spawn Error''"
proof -
  let ?e = "''exit'' @ [newline] @ '' Spawn Error '' @ [newline] @ ''bye''"
  have l: "split_at newline ?e = [''exit'', '' Spawn Error '', ''bye'']"
    "trim_space ''exit'' = ''exit''" "trim_space '' Spawn Error '' = ''Spawn Error''" "trim_space ''bye'' = ''bye''"
    "truncateText ''Spawn Error'' 1024 = ''Spawn Error''" "failure_line sample_unicode ''Spawn Error''"
    "\<not> failure_line sample_unicode ''exit''" "\<not> failure_line sample_unicode ''bye''"
    by code_simp+
  show ?thesis
    using concise_error_line[of ?e sample_unicode] unfolding l(1)
    by (auto simp: l less_Suc_eq numeral_3_eq_3)
qed

end
