(* ===== verification/DeployManager.thy ===== *)
theory DeployManager
  imports DeployOutput GoJson
begin

text \<open>
  \<open>internal/testdeploy/manager.go\<close>: the manager of deployment tasks. Its methods are functions on
  the manager's state; a deployment runs in a goroutine of its own, whose steps (each one a
  critical section of the code, or the return of the script) interleave with the methods. The
  model has a context for each deployment, and a worker for each goroutine that is not done.
\<close>

section \<open>State\<close>

definition defaultHistoryLimit :: nat where "defaultHistoryLimit = 50"

record DeploymentTask =
  DeploymentID :: string
  t_Service :: string
  t_Processes :: "string list"
  Status :: DeploymentStatus
  Stage :: string
  Revision :: string
  Results :: "ProcessDeploymentResult list"
  DurationMS :: int
  Error :: string
  Slack :: "(string \<times> NotificationDelivery) list"
  StartedAt :: int
  CompletedAt :: "int option"
  Logs :: "string list"

text \<open>\<open>cancelable\<close>: the field \<open>cancel\<close> is not nil; \<open>finalStatus\<close> is empty or a status.\<close>

record managedTask =
  m_task :: DeploymentTask
  cancelable :: bool
  finalStatus :: "DeploymentStatus option"

record Manager =
  tasks :: "(string \<times> managedTask) list"
  order :: "string list"
  limit :: nat

definition NewManager :: Manager where
  "NewManager = \<lparr>tasks = [], order = [], limit = defaultHistoryLimit\<rparr>"

fun isTerminal :: "DeploymentStatus \<Rightarrow> bool" where
  "isTerminal DeploymentSucceeded = True"
| "isTerminal DeploymentCompileFailed = True"
| "isTerminal DeploymentFailed = True"
| "isTerminal DeploymentCanceled = True"
| "isTerminal _ = False"

abbreviation task_terminal :: "managedTask \<Rightarrow> bool" where
  "task_terminal t \<equiv> isTerminal (Status (m_task t))"

text \<open>The log texts of the code, in UTF-8.\<close>

definition text_compiling :: string where
  "text_compiling = encode_runes [0x5F00, 0x59CB, 0x7F16, 0x8BD1]"

definition text_deploying :: string where
  "text_deploying = encode_runes [0x7F16, 0x8BD1, 0x5B8C, 0x6210, 0xFF0C, 0x5F00, 0x59CB, 0x90E8, 0x7F72]"

definition text_canceled :: string where
  "text_canceled = encode_runes [0x90E8, 0x7F72, 0x5DF2, 0x53D6, 0x6D88]"

definition text_succeeded :: string where
  "text_succeeded = encode_runes [0x90E8, 0x7F72, 0x6210, 0x529F]"

text \<open>\<open>newDeploymentID\<close>, from the eight random bytes (\<open>None\<close>: no randomness).\<close>

definition newDeploymentID :: "string option \<Rightarrow> string option" where
  "newDeploymentID random = map_option (\<lambda>raw. ''dep_'' @ hex_encode raw) random"

lemma newDeploymentID_inject: "newDeploymentID r = Some i \<Longrightarrow> newDeploymentID r' = Some i \<Longrightarrow> r = r'"
  by (auto simp: newDeploymentID_def hex_encode_inject)

section \<open>Starting\<close>

datatype manager_error =
    StartInvalid input_error
  | IDFailed
  | AlreadyRunning string string
  | NotFound
  | LimitRange

text \<open>\<open>pruneLocked\<close>, by recursion on \<open>order\<close>.\<close>

fun prune :: "nat \<Rightarrow> string list \<Rightarrow> (string \<times> managedTask) list
    \<Rightarrow> string list \<times> (string \<times> managedTask) list" where
  "prune lim [] ts = ([], ts)"
| "prune lim (did # ids) ts =
    (if lim < length (did # ids) then
       (case map_of ts did of
          Some t \<Rightarrow> if \<not> task_terminal t then (did # ids, ts) else prune lim ids (AList.delete did ts)
        | None \<Rightarrow> prune lim ids (AList.delete did ts))
     else (did # ids, ts))"

definition pruneLocked :: "Manager \<Rightarrow> Manager" where
  "pruneLocked m = (case prune (limit m) (order m) (tasks m) of (ids, ts) \<Rightarrow> m\<lparr>order := ids, tasks := ts\<rparr>)"

definition new_task :: "string \<Rightarrow> int \<Rightarrow> DeploymentInput \<Rightarrow> managedTask" where
  "new_task did now input =
    \<lparr>m_task = \<lparr>DeploymentID = did, t_Service = Service input, t_Processes = Processes input,
       Status = DeploymentCompiling, Stage = ''compiling'', Revision = [], Results = [], DurationMS = 0,
       Error = [], Slack = [], StartedAt = now, CompletedAt = None, Logs = [text_compiling]\<rparr>,
     cancelable = True, finalStatus = None\<rparr>"

text \<open>The task of a service that is not terminal, as the loop of \<open>Start\<close> looks for it.\<close>

definition running_for :: "string \<Rightarrow> string \<times> managedTask \<Rightarrow> bool" where
  "running_for service e \<longleftrightarrow> t_Service (m_task (snd e)) = service \<and> \<not> task_terminal (snd e)"

definition find_running :: "(string \<times> managedTask) list \<Rightarrow> string \<Rightarrow> managedTask option" where
  "find_running ts service = map_option snd (find (running_for service) ts)"

text \<open>\<open>Start\<close>, with the identifier it draws (\<open>None\<close>: no randomness) and the time.\<close>

definition Manager_Start :: "Manager \<Rightarrow> string option \<Rightarrow> int \<Rightarrow> DeploymentInput
    \<Rightarrow> (manager_error, string \<times> DeploymentStatus) result \<times> Manager" where
  "Manager_Start m new_id now input =
    (case validateDeployment input of
       Inl e \<Rightarrow> (Inl (StartInvalid e), m)
     | Inr _ \<Rightarrow>
    (case new_id of
       None \<Rightarrow> (Inl IDFailed, m)
     | Some did \<Rightarrow>
    (case find_running (tasks m) (Service input) of
       Some existing \<Rightarrow> (Inl (AlreadyRunning (DeploymentID (m_task existing)) (Service input)), m)
     | None \<Rightarrow>
       (Inr (did, DeploymentCompiling),
        pruneLocked (m\<lparr>tasks := AList.update did (new_task did now input) (tasks m), order := order m @ [did]\<rparr>)))))"

section \<open>Queries\<close>

definition cloneTask :: "DeploymentTask \<Rightarrow> bool \<Rightarrow> DeploymentTask" where
  "cloneTask t includeLogs = (if includeLogs then t else t\<lparr>Logs := []\<rparr>)"

definition snapshot :: "Manager \<Rightarrow> string \<Rightarrow> (manager_error, DeploymentTask) result" where
  "snapshot m did = (case map_of (tasks m) did of
     None \<Rightarrow> Inl NotFound | Some t \<Rightarrow> Inr (cloneTask (m_task t) True))"

definition Manager_Get :: "Manager \<Rightarrow> string \<Rightarrow> (manager_error, DeploymentTask) result" where
  "Manager_Get m did = snapshot m did"

definition Manager_Logs :: "Manager \<Rightarrow> string \<Rightarrow> (manager_error, string \<times> DeploymentStatus \<times> string list) result" where
  "Manager_Logs m did = bind_err id (snapshot m did) (\<lambda>t. Inr (DeploymentID t, Status t, Logs t))"

text \<open>
  \<open>Recent\<close>: the newest first. A nil entry of the map would panic (the outer \<open>None\<close>).
\<close>

definition Manager_Recent :: "Manager \<Rightarrow> int \<Rightarrow> (manager_error, DeploymentTask list) result option" where
  "Manager_Recent m lim0 =
    (let lim = (if lim0 = 0 then 10 else lim0) in
     if lim < 1 \<or> int defaultHistoryLimit < lim then Some (Inl LimitRange)
     else (let ids = take (nat lim) (rev (order m)) in
       if list_all (\<lambda>did. map_of (tasks m) did \<noteq> None) ids
       then Some (Inr (map (\<lambda>did. cloneTask (m_task (the (map_of (tasks m) did))) False) ids))
       else None))"

section \<open>Canceling\<close>

text \<open>The state of a context: \<open>ctx.Err()\<close>.\<close>

datatype ctx_state = Live | CtxCanceled | CtxDeadline

definition cancel_context :: "ctx_state \<Rightarrow> ctx_state" where
  "cancel_context c = (if c = Live then CtxCanceled else c)"

text \<open>
  \<open>Cancel\<close> and the first part of \<open>Close\<close>: the result and whose contexts they cancel. Calling a
  nil cancel function would panic (\<open>None\<close>).
\<close>

definition Manager_Cancel :: "Manager \<Rightarrow> string \<Rightarrow> ((manager_error, bool) result \<times> string list) option" where
  "Manager_Cancel m did =
    (case map_of (tasks m) did of
       None \<Rightarrow> Some (Inl NotFound, [])
     | Some t \<Rightarrow>
       if task_terminal t then Some (Inr False, [])
       else if cancelable t then Some (Inr True, [did]) else None)"

definition close_cancels :: "Manager \<Rightarrow> string list" where
  "close_cancels m = map fst (filter (\<lambda>(did, t). \<not> task_terminal t \<and> cancelable t) (tasks m))"

section \<open>The goroutine\<close>

text \<open>The observer that \<open>run\<close> passes to \<open>deploy\<close>.\<close>

definition observe_task :: "DeploymentEvent \<Rightarrow> managedTask \<Rightarrow> managedTask" where
  "observe_task event t =
    (let status = n_Status (Notification event);
         t1 = m_task t \<lparr>Slack := AList.update (status_text status) (Delivery event) (Slack (m_task t))\<rparr>;
         t2 = (if status = DeploymentCompiling \<or> status = DeploymentDeploying
               then t1\<lparr>Status := status, Stage := status_text status\<rparr> else t1);
         t3 = (if status = DeploymentDeploying then t2\<lparr>Logs := appendTaskLog (Logs t2) text_deploying\<rparr> else t2)
     in t\<lparr>m_task := t3, finalStatus := (if isTerminal status then Some status else finalStatus t)\<rparr>)"

definition observe :: "string \<Rightarrow> DeploymentEvent \<Rightarrow> Manager \<Rightarrow> Manager" where
  "observe did event m =
    (case map_of (tasks m) did of
       None \<Rightarrow> m
     | Some t \<Rightarrow> m\<lparr>tasks := AList.update did (observe_task event t) (tasks m)\<rparr>)"

text \<open>The critical section after \<open>deploy\<close> has returned, with the context's state by then.\<close>

definition finish_task :: "unicode \<Rightarrow> ctx_state \<Rightarrow> int \<Rightarrow> int \<Rightarrow> string \<Rightarrow> deploy_error option \<Rightarrow> managedTask \<Rightarrow> managedTask"
where
  "finish_task U ctx now duration out err t =
    (let (revision, results) = parseDeploymentOutput out;
         t1 = m_task t \<lparr>CompletedAt := Some now, DurationMS := duration, Revision := revision, Results := results\<rparr>;
         t2 = (case err of
                 None \<Rightarrow> t1
               | Some e \<Rightarrow>
                 (let text = conciseDeployError U (error_text e) in
                  t1\<lparr>Error := text, Logs := appendTaskLog (Logs t1) text\<rparr>));
         t3 = (if ctx = CtxCanceled then
                 t2\<lparr>Status := DeploymentCanceled, Stage := ''canceled'', Logs := appendTaskLog (Logs t2) text_canceled\<rparr>
               else if err = None then
                 t2\<lparr>Status := DeploymentSucceeded, Stage := ''completed'', Logs := appendTaskLog (Logs t2) text_succeeded\<rparr>
               else (case finalStatus t of
                   Some f \<Rightarrow> t2\<lparr>Status := f, Stage := ''failed''\<rparr>
                 | None \<Rightarrow> t2))
     in t\<lparr>m_task := t3, cancelable := False\<rparr>)"

definition finish :: "unicode \<Rightarrow> string \<Rightarrow> ctx_state \<Rightarrow> int \<Rightarrow> int \<Rightarrow> string \<Rightarrow> deploy_error option \<Rightarrow> Manager \<Rightarrow> Manager"
where
  "finish U did ctx now duration out err m =
    (case map_of (tasks m) did of
       None \<Rightarrow> m
     | Some t \<Rightarrow> m\<lparr>tasks := AList.update did (finish_task U ctx now duration out err t) (tasks m)\<rparr>)"

section \<open>The system\<close>

text \<open>Where the goroutine of a deployment stands in \<open>run\<close> and in \<open>deploy\<close>.\<close>

datatype progress =
    Launched                                  \<comment> \<open>before the first notification\<close>
  | Commanded bool                            \<comment> \<open>the script runs; has it announced the deploy phase?\<close>
  | Returned bool string "deploy_error option"  \<comment> \<open>the script has returned\<close>
  | Reported string "deploy_error option"       \<comment> \<open>the terminal notification is out\<close>

record worker =
  w_input :: DeploymentInput
  w_progress :: progress

record system =
  manager :: Manager
  contexts :: "(string \<times> ctx_state) list"
  workers :: "(string \<times> worker) list"
  used :: "string list"

definition initial :: "system \<Rightarrow> bool" where
  "initial s \<longleftrightarrow> s = \<lparr>manager = NewManager, contexts = [], workers = [], used = []\<rparr>"

definition cancel_all :: "string list \<Rightarrow> system \<Rightarrow> system" where
  "cancel_all ids s = s\<lparr>contexts := map (\<lambda>(did, c). (did, if did \<in> set ids then cancel_context c else c)) (contexts s)\<rparr>"

definition set_progress :: "string \<Rightarrow> worker \<Rightarrow> progress \<Rightarrow> system \<Rightarrow> system" where
  "set_progress did w p s = s\<lparr>workers := AList.update did (w\<lparr>w_progress := p\<rparr>) (workers s)\<rparr>"

definition context_of :: "system \<Rightarrow> string \<Rightarrow> ctx_state" where
  "context_of s did = (case map_of (contexts s) did of Some c \<Rightarrow> c | None \<Rightarrow> Live)"

text \<open>
  The methods of the manager as steps: an identifier is drawn that was never used (it has 64
  random bits; that none is drawn twice is assumed), and \<open>Start\<close> launches the goroutine. The launch is one step with the
  update of the table: in the source the lock is released before \<open>wg.Add\<close> and the \<open>go\<close> statement, and a
  goroutine that has not been launched yet is here one that has not moved yet.
\<close>

inductive client_step :: "system \<Rightarrow> system \<Rightarrow> bool" where
  step_start:
    "Manager_Start (manager s) (Some did) now input = (Inr out, m) \<Longrightarrow> did \<notin> set (used s) \<Longrightarrow>
     client_step s (s\<lparr>manager := m, contexts := (did, Live) # contexts s,
       workers := (did, \<lparr>w_input = input, w_progress = Launched\<rparr>) # workers s, used := did # used s\<rparr>)"
| step_cancel:
    "Manager_Cancel (manager s) did = Some (r, ids) \<Longrightarrow> client_step s (cancel_all ids s)"
| step_close:
    "client_step s (cancel_all (close_cancels (manager s)) s)"
| step_deadline:
    "map_of (contexts s) did = Some Live \<Longrightarrow>
     client_step s (s\<lparr>contexts := AList.update did CtxDeadline (contexts s)\<rparr>)"

text \<open>
  The steps of a goroutine: the compiling notification; the marker in the script's output; the
  return of the script with any output and error; the terminal notification; the end of \<open>run\<close>.
  The notifier, the output, the error and the times are arbitrary at each step. That the script and
  the notifier return at all is assumed: each is a step that can be taken (in the source the script
  runs under a context with a deadline, and the client of the webhook has a timeout).
\<close>

inductive worker_step :: "unicode \<Rightarrow> system \<Rightarrow> system \<Rightarrow> bool" for U :: unicode where
  step_compiling:
    "map_of (workers s) did = Some w \<Longrightarrow> w_progress w = Launched \<Longrightarrow>
     worker_step U s (set_progress did w (Commanded False)
       (s\<lparr>manager := observe did (notifyAndObserve notifier (notification (w_input w) DeploymentCompiling 0)) (manager s)\<rparr>))"
| step_marker:
    "map_of (workers s) did = Some w \<Longrightarrow> w_progress w = Commanded False \<Longrightarrow>
     worker_step U s (set_progress did w (Commanded True)
       (s\<lparr>manager := observe did (notifyAndObserve notifier (notification (w_input w) DeploymentDeploying 0)) (manager s)\<rparr>))"
| step_return:
    "map_of (workers s) did = Some w \<Longrightarrow> w_progress w = Commanded deploying \<Longrightarrow>
     worker_step U s (set_progress did w (Returned deploying out err) s)"
| step_report:
    "map_of (workers s) did = Some w \<Longrightarrow> w_progress w = Returned deploying out err \<Longrightarrow>
     worker_step U s (set_progress did w (Reported out err)
       (s\<lparr>manager := observe did (notifyAndObserve notifier (notification (w_input w)
           (final_status (context_of s did = CtxCanceled) (err \<noteq> None) deploying) duration)) (manager s)\<rparr>))"
| step_finish:
    "map_of (workers s) did = Some w \<Longrightarrow> w_progress w = Reported out err \<Longrightarrow>
     worker_step U s (s\<lparr>manager := finish U did (context_of s did) now duration out err (manager s),
       workers := AList.delete did (workers s)\<rparr>)"

definition step :: "unicode \<Rightarrow> system \<Rightarrow> system \<Rightarrow> bool" where
  "step U s s' \<longleftrightarrow> client_step s s' \<or> worker_step U s s'"

inductive_cases client_stepE: "client_step s s'"
inductive_cases worker_stepE: "worker_step U s s'"

lemmas client_step_cases = client_stepE [consumes 1, case_names start cancel close deadline]
lemmas worker_step_cases = worker_stepE [consumes 1, case_names compiling marker return report finish]

section \<open>The invariant\<close>

text \<open>What a task shows while its goroutine stands at some point.\<close>

fun progress_ok :: "managedTask \<Rightarrow> progress \<Rightarrow> bool" where
  "progress_ok t Launched \<longleftrightarrow> Status (m_task t) = DeploymentCompiling \<and> finalStatus t = None"
| "progress_ok t (Commanded d) \<longleftrightarrow>
    Status (m_task t) = (if d then DeploymentDeploying else DeploymentCompiling) \<and> finalStatus t = None"
| "progress_ok t (Returned d out err) \<longleftrightarrow>
    Status (m_task t) = (if d then DeploymentDeploying else DeploymentCompiling) \<and> finalStatus t = None"
| "progress_ok t (Reported out err) \<longleftrightarrow>
    \<not> task_terminal t \<and> (\<exists>f. finalStatus t = Some f \<and> isTerminal f)"

definition worker_ok :: "managedTask \<Rightarrow> worker \<Rightarrow> bool" where
  "worker_ok t w \<longleftrightarrow> \<not> task_terminal t \<and> cancelable t \<and> t_Service (m_task t) = Service (w_input w)
    \<and> validateDeployment (w_input w) = ok \<and> progress_ok t (w_progress w)"

definition done_ok :: "managedTask \<Rightarrow> bool" where
  "done_ok t \<longleftrightarrow> task_terminal t \<and> \<not> cancelable t \<and> CompletedAt (m_task t) \<noteq> None"

definition entry_ok :: "string \<Rightarrow> managedTask \<Rightarrow> worker option \<Rightarrow> bool" where
  "entry_ok did t w \<longleftrightarrow> DeploymentID (m_task t) = did \<and> log_ok (Logs (m_task t))
    \<and> (case w of None \<Rightarrow> done_ok t | Some w \<Rightarrow> worker_ok t w)"

definition unique_running :: "(string \<times> managedTask) list \<Rightarrow> bool" where
  "unique_running ts \<longleftrightarrow> (\<forall>i j t u. map_of ts i = Some t \<longrightarrow> map_of ts j = Some u \<longrightarrow>
     t_Service (m_task t) = t_Service (m_task u) \<longrightarrow> \<not> task_terminal t \<longrightarrow> \<not> task_terminal u \<longrightarrow> i = j)"

definition tables_ok :: "system \<Rightarrow> bool" where
  "tables_ok s \<longleftrightarrow> distinct (map fst (tasks (manager s))) \<and> distinct (map fst (workers s))
    \<and> distinct (order (manager s)) \<and> set (order (manager s)) = fst ` set (tasks (manager s))
    \<and> set (order (manager s)) \<subseteq> set (used s) \<and> map fst (contexts s) = used s \<and> distinct (used s)
    \<and> limit (manager s) = defaultHistoryLimit"

definition inv :: "system \<Rightarrow> bool" where
  "inv s \<longleftrightarrow> tables_ok s \<and> unique_running (tasks (manager s))
    \<and> (\<forall>i. case map_of (tasks (manager s)) i of
          None \<Rightarrow> map_of (workers s) i = None
        | Some t \<Rightarrow> entry_ok i t (map_of (workers s) i))"

lemma inv_entry: "inv s \<Longrightarrow> map_of (tasks (manager s)) i = Some t \<Longrightarrow> entry_ok i t (map_of (workers s) i)"
  unfolding inv_def by (metis option.simps(5))

lemma inv_worker:
  assumes "inv s" "map_of (workers s) i = Some w"
  obtains t where "map_of (tasks (manager s)) i = Some t" "worker_ok t w" "log_ok (Logs (m_task t))"
    "DeploymentID (m_task t) = i"
proof (cases "map_of (tasks (manager s)) i")
  case None
  then have "map_of (workers s) i = None" using assms(1) unfolding inv_def by (metis option.simps(4))
  with assms(2) show ?thesis by simp
next
  case (Some t)
  then show ?thesis using inv_entry[OF assms(1) Some] assms(2) that by (simp add: entry_ok_def)
qed

lemma inv_initial: "initial s \<Longrightarrow> inv s"
  by (simp add: initial_def inv_def tables_ok_def unique_running_def NewManager_def)

text \<open>A step on the entry and the worker of one deployment.\<close>

lemma inv_change:
  assumes "inv s" and t: "map_of (tasks (manager s)) did = Some t"
    and man: "manager s' = manager s\<lparr>tasks := AList.update did t' (tasks (manager s))\<rparr>"
    and rest: "contexts s' = contexts s" "used s' = used s"
    and t': "t_Service (m_task t') = t_Service (m_task t)" "task_terminal t \<longrightarrow> task_terminal t'"
    and w: "entry_ok did t' (map_of (workers s') did)" "distinct (map fst (workers s'))"
      "\<And>i. i \<noteq> did \<Longrightarrow> map_of (workers s') i = map_of (workers s) i"
  shows "inv s'"
  unfolding inv_def
proof (intro conjI allI)
  have keys: "fst ` set (AList.update did t' (tasks (manager s))) = fst ` set (tasks (manager s))"
    using t by (auto simp: dom_update dest: map_of_SomeD intro: rev_image_eqI)
  show "tables_ok s'"
  proof -
    have "tables_ok s" using assms(1) by (simp only: inv_def)
    then show ?thesis using w(2) by (auto simp: tables_ok_def man rest keys distinct_update)
  qed
  show "unique_running (tasks (manager s'))"
    unfolding unique_running_def
  proof (intro allI impI)
    fix i j a b
    assume ij: "map_of (tasks (manager s')) i = Some a" "map_of (tasks (manager s')) j = Some b"
      "t_Service (m_task a) = t_Service (m_task b)" "\<not> task_terminal a" "\<not> task_terminal b"
    have old: "\<exists>c. map_of (tasks (manager s)) k = Some c \<and> t_Service (m_task c) = t_Service (m_task d) \<and> \<not> task_terminal c"
      if "map_of (tasks (manager s')) k = Some d" "\<not> task_terminal d" for k d
      using that t t' by (auto simp: man map_of_update_at split: if_splits)
    then show "i = j"
      using ij assms(1) unfolding inv_def unique_running_def by metis
  qed
  fix i
  show "case map_of (tasks (manager s')) i of
          None \<Rightarrow> map_of (workers s') i = None
        | Some t \<Rightarrow> entry_ok i t (map_of (workers s') i)"
  proof (cases "i = did")
    case True
    then show ?thesis using w(1) by (simp add: man map_of_update_at)
  next
    case False
    have "case map_of (tasks (manager s)) i of
          None \<Rightarrow> map_of (workers s) i = None
        | Some t \<Rightarrow> entry_ok i t (map_of (workers s) i)"
      using assms(1) unfolding inv_def by blast
    then show ?thesis using False w(3)[OF False]
      by (cases "map_of (tasks (manager s)) i") (simp_all add: man map_of_update_at)
  qed
qed

text \<open>What the observer and the end of \<open>run\<close> do to one entry.\<close>

lemma log_ok_append: "log_ok logs \<Longrightarrow> log_ok (appendTaskLog logs line)"
  by (rule appendTaskLog_spec(1))

lemma log_ok_start: "log_ok [text_compiling]"
  by code_simp

lemma observe_task_simps:
  "DeploymentID (m_task (observe_task e t)) = DeploymentID (m_task t)"
  "t_Service (m_task (observe_task e t)) = t_Service (m_task t)"
  "cancelable (observe_task e t) = cancelable t"
  "Status (m_task (observe_task e t)) =
     (if n_Status (Notification e) \<in> {DeploymentCompiling, DeploymentDeploying} then n_Status (Notification e)
      else Status (m_task t))"
  "finalStatus (observe_task e t) =
     (if isTerminal (n_Status (Notification e)) then Some (n_Status (Notification e)) else finalStatus t)"
  "log_ok (Logs (m_task t)) \<Longrightarrow> log_ok (Logs (m_task (observe_task e t)))"
  by (auto simp: observe_task_def Let_def log_ok_append)

lemma event_status: "n_Status (Notification (notifyAndObserve nf (notification inp st d))) = st"
  by (simp add: notifyAndObserve_def notification_def)

lemma final_status_terminal: "isTerminal (final_status c f d)"
  by (simp add: final_status_def)

lemma finish_task_simps:
  "DeploymentID (m_task (finish_task U c now dur out err t)) = DeploymentID (m_task t)"
  "t_Service (m_task (finish_task U c now dur out err t)) = t_Service (m_task t)"
  "cancelable (finish_task U c now dur out err t) = False"
  "CompletedAt (m_task (finish_task U c now dur out err t)) = Some now"
  "Status (m_task (finish_task U c now dur out err t)) =
     (if c = CtxCanceled then DeploymentCanceled else if err = None then DeploymentSucceeded
      else (case finalStatus t of Some f \<Rightarrow> f | None \<Rightarrow> Status (m_task t)))"
  "log_ok (Logs (m_task t)) \<Longrightarrow> log_ok (Logs (m_task (finish_task U c now dur out err t)))"
  by (auto simp: finish_task_def Let_def log_ok_append split: prod.split option.split)

lemma inv_observe:
  assumes "inv s" "map_of (workers s) did = Some w" "\<And>t. worker_ok t w \<Longrightarrow> progress_ok (observe_task e t) p"
    and "\<And>t. worker_ok t w \<Longrightarrow> \<not> task_terminal (observe_task e t)"
  shows "inv (set_progress did w p (s\<lparr>manager := observe did e (manager s)\<rparr>))"
proof -
  obtain t where t: "map_of (tasks (manager s)) did = Some t" "worker_ok t w" "log_ok (Logs (m_task t))"
    "DeploymentID (m_task t) = did"
    using inv_worker[OF assms(1,2)] .
  have d: "distinct (map fst (workers s))" using assms(1) by (simp add: inv_def tables_ok_def)
  show ?thesis
  proof (rule inv_change[OF assms(1) t(1), where t' = "observe_task e t"])
    show "entry_ok did (observe_task e t) (map_of (workers (set_progress did w p (s\<lparr>manager := observe did e (manager s)\<rparr>))) did)"
      using t assms(3,4)[OF t(2)]
      by (simp add: entry_ok_def set_progress_def map_of_update_at worker_ok_def observe_task_simps)
  qed (use t d in \<open>auto simp: set_progress_def observe_def observe_task_simps map_of_update_at distinct_update worker_ok_def\<close>)
qed

lemma update_present: "distinct (map fst m) \<Longrightarrow> map_of m k = Some v \<Longrightarrow> AList.update k v m = m"
  by (induction m) (auto split: if_splits dest: map_of_SomeD intro: rev_image_eqI)

lemma inv_worker_step:
  assumes "worker_step U s s'" "inv s"
  shows "inv s'"
  using assms(1)
proof (cases rule: worker_step_cases)
  case (compiling did w notifier)
  show ?thesis unfolding compiling(1)
    by (rule inv_observe[OF assms(2) compiling(2)]) (use compiling(3) in \<open>auto simp: worker_ok_def observe_task_simps event_status\<close>)
next
  case (marker did w notifier)
  show ?thesis unfolding marker(1)
    by (rule inv_observe[OF assms(2) marker(2)]) (use marker(3) in \<open>auto simp: worker_ok_def observe_task_simps event_status\<close>)
next
  case (return did w deploying out err)
  obtain t where t: "map_of (tasks (manager s)) did = Some t" "worker_ok t w" "log_ok (Logs (m_task t))"
    "DeploymentID (m_task t) = did"
    using inv_worker[OF assms(2) return(2)] .
  have d: "distinct (map fst (workers s))" using assms(2) by (simp add: inv_def tables_ok_def)
  show ?thesis unfolding return(1)
  proof (rule inv_change[OF assms(2) t(1), where t' = t])
    show "manager (set_progress did w (Returned deploying out err) s) =
        manager s\<lparr>tasks := AList.update did t (tasks (manager s))\<rparr>"
      using t(1) assms(2) by (simp add: set_progress_def update_present inv_def tables_ok_def)
    show "entry_ok did t (map_of (workers (set_progress did w (Returned deploying out err) s)) did)"
      using t return(3) by (simp add: entry_ok_def set_progress_def map_of_update_at worker_ok_def)
  qed (use t d in \<open>auto simp: set_progress_def map_of_update_at distinct_update\<close>)
next
  case (report did w deploying out err notifier duration)
  show ?thesis unfolding report(1)
    by (rule inv_observe[OF assms(2) report(2)])
      (use report(3) final_status_terminal[of "context_of s did = CtxCanceled" "err \<noteq> None" deploying] in
        \<open>auto simp: worker_ok_def observe_task_simps event_status\<close>)
next
  case (finish did w out err now duration)
  obtain t where t: "map_of (tasks (manager s)) did = Some t" "worker_ok t w" "log_ok (Logs (m_task t))"
    "DeploymentID (m_task t) = did"
    using inv_worker[OF assms(2) finish(2)] .
  have d: "distinct (map fst (workers s))" using assms(2) by (simp add: inv_def tables_ok_def)
  show ?thesis unfolding finish(1)
    by (rule inv_change[OF assms(2) t(1), where t' = "finish_task U (context_of s did) now duration out err t"])
      (use t d finish(3) in \<open>auto simp: finish_def entry_ok_def done_ok_def worker_ok_def finish_task_simps
        map_of_delete_at distinct_delete split: option.splits\<close>)
qed

text \<open>What pruning does: it drops the oldest entries, all of them terminal, as long as there are too many.\<close>

definition pruned :: "nat \<Rightarrow> string list \<Rightarrow> (string \<times> managedTask) list \<Rightarrow> nat
    \<Rightarrow> string list \<Rightarrow> (string \<times> managedTask) list \<Rightarrow> bool" where
  "pruned lim ids ts k ids' ts' \<longleftrightarrow> k \<le> length ids \<and> ids' = drop k ids
    \<and> (\<forall>i. map_of ts' i = (if i \<in> set (take k ids) then None else map_of ts i))
    \<and> (distinct ids \<longrightarrow> (\<forall>i \<in> set (take k ids). \<forall>t. map_of ts i = Some t \<longrightarrow> task_terminal t))
    \<and> (distinct (map fst ts) \<longrightarrow> distinct (map fst ts'))
    \<and> (length ids' \<le> lim \<or> (\<exists>t. map_of ts' (hd ids') = Some t \<and> \<not> task_terminal t))
    \<and> (k \<noteq> 0 \<longrightarrow> lim \<le> length ids')"

lemma prune_spec: "prune lim ids ts = (ids', ts') \<Longrightarrow> \<exists>k. pruned lim ids ts k ids' ts'"
proof (induction lim ids ts arbitrary: ids' ts' rule: prune.induct)
  case (1 lim ts)
  then show ?case by (simp add: pruned_def)
next
  case (2 lim did ids ts)
  let ?stop = "\<exists>t. map_of ts did = Some t \<and> \<not> task_terminal t"
  show ?case
  proof (cases "lim < length (did # ids) \<and> \<not> ?stop")
    case False
    then have "ids' = did # ids \<and> ts' = ts" using 2(3) by (auto split: option.splits if_splits)
    then show ?thesis using False by (intro exI[of _ 0]) (auto simp: pruned_def)
  next
    case True
    then have step: "prune lim ids (AList.delete did ts) = (ids', ts')"
      using 2(3) by (auto split: option.splits if_splits)
    have "\<exists>k. pruned lim ids (AList.delete did ts) k ids' ts'"
    proof (cases "map_of ts did")
      case None
      then show ?thesis using 2(1)[OF _ None step] True by simp
    next
      case (Some t)
      then show ?thesis using 2(2)[OF _ Some _ step] True by simp
    qed
    then obtain k where k: "pruned lim ids (AList.delete did ts) k ids' ts'" ..
    have "\<forall>i \<in> set (take (Suc k) (did # ids)). \<forall>t. map_of ts i = Some t \<longrightarrow> task_terminal t"
      if "distinct (did # ids)"
      using k True that by (auto simp: pruned_def map_of_delete_at dest: in_set_takeD split: if_splits)
    moreover have "lim \<le> length ids'" using k True by (cases "k = 0") (auto simp: pruned_def)
    moreover have "map_of ts' i = (if i \<in> set (take (Suc k) (did # ids)) then None else map_of ts i)" for i
      using k by (simp add: pruned_def map_of_delete_at)
    moreover have "distinct (map fst ts) \<longrightarrow> distinct (map fst ts')" using k by (simp add: pruned_def distinct_delete)
    moreover have "Suc k \<le> length (did # ids)" "ids' = drop (Suc k) (did # ids)"
      "length ids' \<le> lim \<or> (\<exists>t. map_of ts' (hd ids') = Some t \<and> \<not> task_terminal t)"
      using k unfolding pruned_def drop_Suc_Cons length_Cons Suc_le_mono by blast+
    ultimately have "pruned lim (did # ids) ts (Suc k) ids' ts'"
      unfolding pruned_def by blast
    then show ?thesis ..
  qed
qed

lemma find_running_None:
  "distinct (map fst ts) \<Longrightarrow> find_running ts service = None \<longleftrightarrow>
    (\<forall>i t. map_of ts i = Some t \<longrightarrow> t_Service (m_task t) = service \<longrightarrow> task_terminal t)"
  by (auto simp: find_running_def running_for_def find_None_iff)

text \<open>The result of \<open>Start\<close> when it admits a deployment.\<close>

lemma Start_ok:
  assumes "Manager_Start m (Some did) now input = (Inr out, m')"
  shows "validateDeployment input = ok" "find_running (tasks m) (Service input) = None"
    "out = (did, DeploymentCompiling)"
    "m' = pruneLocked (m\<lparr>tasks := AList.update did (new_task did now input) (tasks m), order := order m @ [did]\<rparr>)"
  using assms by (auto simp: Manager_Start_def split: sum.splits option.splits)

lemma new_task_simps:
  "DeploymentID (m_task (new_task did now input)) = did"
  "t_Service (m_task (new_task did now input)) = Service input"
  "Status (m_task (new_task did now input)) = DeploymentCompiling"
  "cancelable (new_task did now input)" "finalStatus (new_task did now input) = None"
  "Logs (m_task (new_task did now input)) = [text_compiling]"
  by (simp_all add: new_task_def)

text \<open>The manager's tables after an admitted \<open>Start\<close>.\<close>

lemma Start_tables:
  assumes "Manager_Start m (Some did) now input = (Inr out, m')" "did \<notin> set (order m)" "distinct (order m)"
    and keys: "set (order m) = fst ` set (tasks m)" "distinct (map fst (tasks m))"
  obtains k where "k \<le> length (order m)" "order m' = drop k (order m) @ [did]" "limit m' = limit m"
    "distinct (map fst (tasks m'))"
    "\<And>i. map_of (tasks m') i = (if i \<in> set (take k (order m)) then None
        else if i = did then Some (new_task did now input) else map_of (tasks m) i)"
    "\<And>i t. i \<in> set (take k (order m)) \<Longrightarrow> map_of (tasks m) i = Some t \<Longrightarrow> task_terminal t"
    "length (order m') \<le> limit m \<or> (\<exists>t. map_of (tasks m') (hd (order m')) = Some t \<and> \<not> task_terminal t)"
    "k \<noteq> 0 \<Longrightarrow> limit m \<le> length (order m')"
proof -
  let ?ids = "order m @ [did]" and ?ts = "AList.update did (new_task did now input) (tasks m)"
  obtain ids' ts' where p: "prune (limit m) ?ids ?ts = (ids', ts')" by fastforce
  then have m': "m' = m\<lparr>order := ids', tasks := ts'\<rparr>" using Start_ok(4)[OF assms(1)] by (simp add: pruneLocked_def)
  obtain k where k: "pruned (limit m) ?ids ?ts k ids' ts'" using prune_spec[OF p] ..
  have ended: "\<forall>i \<in> set (take k ?ids). \<forall>t. map_of ?ts i = Some t \<longrightarrow> task_terminal t"
    using k assms(2,3) by (simp add: pruned_def)
  have "k \<le> length (order m)"
  proof (rule ccontr)
    assume "\<not> k \<le> length (order m)"
    then have "did \<in> set (take k ?ids)" using k by (simp add: pruned_def)
    then show False using bspec[OF ended, of did] by (simp add: map_of_update_at new_task_simps)
  qed
  note len = this
  then have take: "take k ?ids = take k (order m)" by simp
  have at: "\<forall>i. map_of ts' i = (if i \<in> set (take k (order m)) then None else map_of ?ts i)"
    using k unfolding pruned_def take by blast
  have tail: "length ids' \<le> limit m \<or> (\<exists>t. map_of ts' (hd ids') = Some t \<and> \<not> task_terminal t)"
    "k \<noteq> 0 \<longrightarrow> limit m \<le> length ids'"
    using k unfolding pruned_def by blast+
  show ?thesis
  proof (rule that[of k])
    show "order m' = drop k (order m) @ [did]" using k len by (simp add: m' pruned_def)
    show "distinct (map fst (tasks m'))" using k keys(2) by (simp add: m' pruned_def distinct_update)
    show "map_of (tasks m') i = (if i \<in> set (take k (order m)) then None
        else if i = did then Some (new_task did now input) else map_of (tasks m) i)" for i
      using at by (simp add: m' map_of_update_at)
    show "task_terminal t" if "i \<in> set (take k (order m))" "map_of (tasks m) i = Some t" for i t
    proof -
      have "i \<noteq> did" using that(1) assms(2) by (auto dest: in_set_takeD)
      then show ?thesis using ended that unfolding take by (simp add: map_of_update_at)
    qed
    show "length (order m') \<le> limit m \<or> (\<exists>t. map_of (tasks m') (hd (order m')) = Some t \<and> \<not> task_terminal t)"
      "k \<noteq> 0 \<Longrightarrow> limit m \<le> length (order m')"
      using tail by (simp_all add: m')
  qed (use len in \<open>simp_all add: m'\<close>)
qed

lemma keys_of: "fst ` set m = {i. map_of m i \<noteq> None}"
  by (auto simp: map_of_eq_None_keys)

lemma inv_start:
  assumes start: "Manager_Start (manager s) (Some did) now input = (Inr out, m)" and fresh: "did \<notin> set (used s)"
    and "inv s"
  shows "inv (s\<lparr>manager := m, contexts := (did, Live) # contexts s,
       workers := (did, \<lparr>w_input = input, w_progress = Launched\<rparr>) # workers s, used := did # used s\<rparr>)"
    (is "inv ?s'")
proof -
  have tab: "tables_ok s" and uniq: "unique_running (tasks (manager s))" using \<open>inv s\<close> by (simp_all only: inv_def)
  have new: "did \<notin> set (order (manager s))" using tab fresh by (auto simp: tables_ok_def)
  have dist: "distinct (order (manager s))" "set (order (manager s)) = fst ` set (tasks (manager s))"
    "distinct (map fst (tasks (manager s)))" using tab by (simp_all add: tables_ok_def)
  obtain k where k: "k \<le> length (order (manager s))" "order m = drop k (order (manager s)) @ [did]"
    "limit m = limit (manager s)" "distinct (map fst (tasks m))"
    and at: "\<And>i. map_of (tasks m) i = (if i \<in> set (take k (order (manager s))) then None
        else if i = did then Some (new_task did now input) else map_of (tasks (manager s)) i)"
    and dropped: "\<And>i t. i \<in> set (take k (order (manager s))) \<Longrightarrow> map_of (tasks (manager s)) i = Some t \<Longrightarrow> task_terminal t"
  proof (rule Start_tables[OF start new dist(1) dist(2,3)], goal_cases)
    case (1 k)
    show ?case by (rule 1(1)[OF 1(2,3,4,5)]) (simp only: 1(6), rule 1(7))
  qed
  have none: "map_of (tasks (manager s)) did = None" using new dist(2) by (simp add: map_of_eq_None_keys)
  then have idle: "map_of (workers s) did = None" using \<open>inv s\<close> unfolding inv_def by (metis option.simps(4))
  have split: "i \<in> set (take k xs) \<or> i \<in> set (drop k xs) \<longleftrightarrow> i \<in> set xs" for i and xs :: "string list"
    by (metis Un_iff append_take_drop_id set_append)
  have disj: "i \<in> set (drop k (order (manager s))) \<Longrightarrow> i \<notin> set (take k (order (manager s)))" for i
    using set_take_disj_set_drop_if_distinct[OF dist(1), of k k] by blast
  show ?thesis unfolding inv_def
  proof (intro conjI allI)
    have keys: "set (order m) = fst ` set (tasks m)"
      using split[of _ "order (manager s)"] disj new dist(2) by (auto simp: keys_of at k(2) dest: in_set_takeD)
    show "tables_ok ?s'"
    proof -
      have "did \<notin> fst ` set (workers s)" using idle by (simp add: map_of_eq_None_keys)
      moreover have "distinct (order m)" using dist(1) new by (auto simp: k(2) dest: in_set_dropD)
      moreover have "set (order m) \<subseteq> insert did (set (used s))" using tab by (auto simp: k(2) tables_ok_def dest: in_set_dropD)
      ultimately show ?thesis using tab k(3,4) keys fresh by (simp add: tables_ok_def)
    qed
    have idle_service: "task_terminal t" if "map_of (tasks (manager s)) i = Some t" "t_Service (m_task t) = Service input" for i t
      using Start_ok(2)[OF start] that by (simp add: find_running_None[OF dist(3)])
    show "unique_running (tasks (manager ?s'))"
      using uniq idle_service unfolding unique_running_def
      by (auto simp: at new_task_simps split: if_splits)
    fix i
    show "case map_of (tasks (manager ?s')) i of None \<Rightarrow> map_of (workers ?s') i = None
        | Some t \<Rightarrow> entry_ok i t (map_of (workers ?s') i)"
    proof (cases "map_of (tasks (manager s)) i")
      case None
      then have "map_of (workers s) i = None" using \<open>inv s\<close> unfolding inv_def by (metis option.simps(4))
      then show ?thesis using None new Start_ok(1)[OF start]
        by (auto simp: at entry_ok_def worker_ok_def new_task_simps log_ok_start dest: in_set_takeD)
    next
      case (Some t)
      note e = inv_entry[OF \<open>inv s\<close> Some]
      have "i \<noteq> did" using Some none by auto
      moreover have "i \<in> set (take k (order (manager s))) \<Longrightarrow> map_of (workers s) i = None"
        using dropped[OF _ Some] e by (auto simp: entry_ok_def worker_ok_def split: option.splits)
      ultimately show ?thesis using Some e by (simp add: at)
    qed
  qed
qed

lemma inv_contexts: "inv s \<Longrightarrow> map fst c = map fst (contexts s) \<Longrightarrow> inv (s\<lparr>contexts := c\<rparr>)"
  by (auto simp: inv_def tables_ok_def cong: option.case_cong)

lemma inv_client_step:
  assumes "client_step s s'" "inv s"
  shows "inv s'"
  using assms(1)
proof (cases rule: client_step_cases)
  case (start did now input out m)
  show ?thesis unfolding start(1) by (rule inv_start[OF start(2,3) assms(2)])
next
  case (cancel did r ids)
  show ?thesis unfolding cancel(1) cancel_all_def
    by (rule inv_contexts[OF assms(2)]) (simp add: case_prod_unfold)
next
  case close
  show ?thesis unfolding close(1) cancel_all_def
    by (rule inv_contexts[OF assms(2)]) (simp add: case_prod_unfold)
next
  case (deadline did)
  show ?thesis unfolding deadline(1)
    by (rule inv_contexts[OF assms(2)]) (use deadline(2) in \<open>force simp: update_keys dest: map_of_SomeD\<close>)
qed

lemma inv_step: "inv s \<Longrightarrow> step U s s' \<Longrightarrow> inv s'"
  by (auto simp: step_def intro: inv_client_step inv_worker_step)

interpretation manager: transition_system initial "step U" inv for U
  by unfold_locales (auto intro: inv_initial inv_step)

section \<open>The life of a deployment\<close>

text \<open>
  What a client can observe of one identifier: it has not been seen; it runs; it has ended, with
  its final record; it was dropped from the history. The order says how this may change.
\<close>

datatype lifecycle = Unseen | Active DeploymentStatus | Ended managedTask | Pruned

instantiation lifecycle :: order
begin

definition less_eq_lifecycle :: "lifecycle \<Rightarrow> lifecycle \<Rightarrow> bool" where
  "a \<le> b \<longleftrightarrow> (case a of
      Unseen \<Rightarrow> True
    | Active s \<Rightarrow> b = Active s \<or> s = DeploymentCompiling \<and> b = Active DeploymentDeploying
        \<or> b = Pruned \<or> (\<exists>t. b = Ended t)
    | Ended t \<Rightarrow> b = Ended t \<or> b = Pruned
    | Pruned \<Rightarrow> b = Pruned)"

definition less_lifecycle :: "lifecycle \<Rightarrow> lifecycle \<Rightarrow> bool" where
  "(a::lifecycle) < b \<longleftrightarrow> a \<le> b \<and> \<not> b \<le> a"

instance
  by intro_classes (auto simp: less_eq_lifecycle_def less_lifecycle_def split: lifecycle.splits)

end

definition lifecycle_of :: "system \<Rightarrow> string \<Rightarrow> lifecycle" where
  "lifecycle_of s i = (case map_of (tasks (manager s)) i of
      Some t \<Rightarrow> if task_terminal t then Ended t else Active (Status (m_task t))
    | None \<Rightarrow> if i \<in> set (used s) then Pruned else Unseen)"

text \<open>One step of a goroutine, as seen from outside.\<close>

definition advances :: "ctx_state \<Rightarrow> managedTask \<Rightarrow> managedTask \<Rightarrow> bool" where
  "advances c t t' \<longleftrightarrow> \<not> task_terminal t
    \<and> DeploymentID (m_task t') = DeploymentID (m_task t) \<and> t_Service (m_task t') = t_Service (m_task t)
    \<and> (Status (m_task t') = Status (m_task t)
      \<or> Status (m_task t) = DeploymentCompiling \<and> Status (m_task t') = DeploymentDeploying
      \<or> task_terminal t' \<and> (c = CtxCanceled \<longrightarrow> Status (m_task t') = DeploymentCanceled))"

definition worker_effect :: "system \<Rightarrow> system \<Rightarrow> string \<Rightarrow> managedTask \<Rightarrow> managedTask \<Rightarrow> bool" where
  "worker_effect s s' did t t' \<longleftrightarrow> map_of (tasks (manager s)) did = Some t
    \<and> manager s' = manager s\<lparr>tasks := AList.update did t' (tasks (manager s))\<rparr>
    \<and> contexts s' = contexts s \<and> used s' = used s \<and> advances (context_of s did) t t'"

lemma effect_observe:
  assumes "inv s" "map_of (workers s) did = Some w"
    and "\<And>t. worker_ok t w \<Longrightarrow> advances (context_of s did) t (observe_task e t)"
  shows "\<exists>i t t'. worker_effect s (set_progress did' w' p (s\<lparr>manager := observe did e (manager s)\<rparr>)) i t t'"
proof -
  obtain t where t: "map_of (tasks (manager s)) did = Some t" "worker_ok t w" using inv_worker[OF assms(1,2)] .
  have "worker_effect s (set_progress did' w' p (s\<lparr>manager := observe did e (manager s)\<rparr>)) did t (observe_task e t)"
    using t(1) assms(3)[OF t(2)] by (simp add: worker_effect_def set_progress_def observe_def)
  then show ?thesis by blast
qed

lemma worker_step_effect:
  assumes "worker_step U s s'" "inv s"
  shows "\<exists>did t t'. worker_effect s s' did t t'"
  using assms(1)
proof (cases rule: worker_step_cases)
  case (compiling did w notifier)
  show ?thesis unfolding compiling(1)
    by (rule effect_observe[OF assms(2) compiling(2)])
      (use compiling(3) in \<open>simp add: advances_def worker_ok_def observe_task_simps event_status\<close>)
next
  case (marker did w notifier)
  show ?thesis unfolding marker(1)
    by (rule effect_observe[OF assms(2) marker(2)])
      (use marker(3) in \<open>simp add: advances_def worker_ok_def observe_task_simps event_status\<close>)
next
  case (return did w deploying out err)
  obtain t where t: "map_of (tasks (manager s)) did = Some t" "worker_ok t w" using inv_worker[OF assms(2) return(2)] .
  have "distinct (map fst (tasks (manager s)))" using assms(2) by (simp add: inv_def tables_ok_def)
  then have "worker_effect s s' did t t"
    using t return(1) by (simp add: worker_effect_def set_progress_def advances_def worker_ok_def update_present)
  then show ?thesis by blast
next
  case (report did w deploying out err notifier duration)
  have "final_status c f d \<notin> {DeploymentCompiling, DeploymentDeploying}" for c f d
    by (simp add: final_status_def)
  then show ?thesis unfolding report(1)
    by (intro effect_observe[OF assms(2) report(2)])
      (simp add: advances_def worker_ok_def observe_task_simps event_status)
next
  case (finish did w out err now duration)
  obtain t where t: "map_of (tasks (manager s)) did = Some t" "worker_ok t w" using inv_worker[OF assms(2) finish(2)] .
  let ?t = "finish_task U (context_of s did) now duration out err t"
  have "advances (context_of s did) t ?t"
    using t(2) finish(3) by (auto simp: advances_def worker_ok_def finish_task_simps)
  then have "worker_effect s s' did t ?t"
    using t(1) finish(1) by (simp add: worker_effect_def finish_def)
  then show ?thesis by blast
qed

lemma map_of_cancel:
  "map_of (contexts (cancel_all ids s)) i
    = map_option (\<lambda>c. if i \<in> set ids then cancel_context c else c) (map_of (contexts s) i)"
proof -
  have "map_of (map (\<lambda>(did, c). (did, if did \<in> set ids then cancel_context c else c)) cs) i
    = map_option (\<lambda>c. if i \<in> set ids then cancel_context c else c) (map_of cs i)" for cs
    by (induction cs) auto
  then show ?thesis by (simp add: cancel_all_def)
qed

lemma context_of_cancel: "context_of s i = CtxCanceled \<Longrightarrow> context_of (cancel_all ids s) i = CtxCanceled"
  by (auto simp: context_of_def map_of_cancel cancel_context_def split: option.splits)

lemma keys_cancel: "map fst (contexts (cancel_all ids s)) = map fst (contexts s)"
  by (simp add: cancel_all_def case_prod_unfold)

text \<open>A step of a client changes the table only when it starts a deployment.\<close>

lemma client_step_effect:
  assumes "client_step s s'"
  shows "manager s' = manager s \<and> used s' = used s \<and> map fst (contexts s') = map fst (contexts s)
      \<and> (\<forall>i. context_of s i = CtxCanceled \<longrightarrow> context_of s' i = CtxCanceled)
    \<or> (\<exists>did now input out. Manager_Start (manager s) (Some did) now input = (Inr out, manager s')
        \<and> did \<notin> set (used s) \<and> used s' = did # used s \<and> contexts s' = (did, Live) # contexts s)"
  using assms
proof (cases rule: client_step_cases)
  case (start did now input out m)
  then show ?thesis by (intro disjI2 exI[of _ did] exI[of _ now] exI[of _ input] exI[of _ out]) simp
next
  case (cancel did r ids)
  then show ?thesis using keys_cancel context_of_cancel by (simp add: cancel_all_def)
next
  case close
  then show ?thesis using keys_cancel context_of_cancel by (simp add: cancel_all_def)
next
  case (deadline did)
  then show ?thesis
    by (force simp: update_keys context_of_def map_of_update_at dest: map_of_SomeD split: option.splits)
qed

lemma Start_reach_tables:
  assumes "Manager_Start (manager s) (Some did) now input = (Inr out, m)" "did \<notin> set (used s)" "inv s"
  shows "map_of (tasks (manager s)) did = None"
    "\<exists>k. order m = drop k (order (manager s)) @ [did] \<and> limit m = limit (manager s)
      \<and> (\<forall>i. map_of (tasks m) i = (if i \<in> set (take k (order (manager s))) then None
            else if i = did then Some (new_task did now input) else map_of (tasks (manager s)) i))
      \<and> (\<forall>i t. i \<in> set (take k (order (manager s))) \<longrightarrow> map_of (tasks (manager s)) i = Some t \<longrightarrow> task_terminal t)
      \<and> (length (order m) \<le> limit m \<or> (\<exists>t. map_of (tasks m) (hd (order m)) = Some t \<and> \<not> task_terminal t))
      \<and> (k \<noteq> 0 \<longrightarrow> limit m \<le> length (order m)) \<and> did \<notin> set (take k (order (manager s)))"
proof -
  have tab: "tables_ok s" using assms(3) by (simp only: inv_def)
  then have new: "did \<notin> set (order (manager s))" using assms(2) by (auto simp: tables_ok_def)
  with tab show "map_of (tasks (manager s)) did = None" by (simp add: map_of_eq_None_keys tables_ok_def)
  have dist: "distinct (order (manager s))" "set (order (manager s)) = fst ` set (tasks (manager s))"
    "distinct (map fst (tasks (manager s)))" using tab by (simp_all add: tables_ok_def)
  show "\<exists>k. order m = drop k (order (manager s)) @ [did] \<and> limit m = limit (manager s)
      \<and> (\<forall>i. map_of (tasks m) i = (if i \<in> set (take k (order (manager s))) then None
            else if i = did then Some (new_task did now input) else map_of (tasks (manager s)) i))
      \<and> (\<forall>i t. i \<in> set (take k (order (manager s))) \<longrightarrow> map_of (tasks (manager s)) i = Some t \<longrightarrow> task_terminal t)
      \<and> (length (order m) \<le> limit m \<or> (\<exists>t. map_of (tasks m) (hd (order m)) = Some t \<and> \<not> task_terminal t))
      \<and> (k \<noteq> 0 \<longrightarrow> limit m \<le> length (order m)) \<and> did \<notin> set (take k (order (manager s)))"
  proof (rule Start_tables[OF assms(1) new dist(1) dist(2,3)], goal_cases)
    case (1 k)
    have "did \<notin> set (take k (order (manager s)))" using new by (auto dest: in_set_takeD)
    then show ?case using 1 by (intro exI[of _ k] conjI) simp_all
  qed
qed

lemma lifecycle_worker:
  assumes "worker_effect s s' did t t'"
  shows "lifecycle_of s i \<le> lifecycle_of s' i"
proof (cases "i = did")
  case True
  have "task_terminal t' \<or> \<not> task_terminal t'" by simp
  then show ?thesis using assms True
    by (auto simp: worker_effect_def advances_def lifecycle_of_def less_eq_lifecycle_def map_of_update_at)
next
  case False
  then show ?thesis using assms
    by (simp add: worker_effect_def lifecycle_of_def map_of_update_at)
qed

lemma lifecycle_start:
  assumes start: "Manager_Start (manager s) (Some did) now input = (Inr out, manager s')"
    and fresh: "did \<notin> set (used s)" and used: "used s' = did # used s" and "inv s"
  shows "lifecycle_of s i \<le> lifecycle_of s' i"
proof -
  obtain k where at: "\<And>i. map_of (tasks (manager s')) i = (if i \<in> set (take k (order (manager s))) then None
        else if i = did then Some (new_task did now input) else map_of (tasks (manager s)) i)"
    and dropped: "\<And>i t. i \<in> set (take k (order (manager s))) \<Longrightarrow> map_of (tasks (manager s)) i = Some t \<Longrightarrow> task_terminal t"
    using Start_reach_tables(2)[OF start fresh assms(4)] by blast
  have known: "set (order (manager s)) \<subseteq> set (used s)" using assms(4) unfolding inv_def tables_ok_def by blast
  consider "i \<in> set (take k (order (manager s)))" | "i \<notin> set (take k (order (manager s)))" "i = did"
    | "i \<notin> set (take k (order (manager s)))" "i \<noteq> did" by blast
  then show ?thesis
  proof cases
    case 1
    then have "i \<in> set (used s)" using known by (auto dest: in_set_takeD)
    then show ?thesis using dropped[OF 1] 1
      by (auto simp: lifecycle_of_def at used less_eq_lifecycle_def split: option.splits)
  next
    case 2
    then show ?thesis using Start_reach_tables(1)[OF start fresh assms(4)] fresh
      by (simp add: lifecycle_of_def less_eq_lifecycle_def)
  next
    case 3
    then show ?thesis by (simp add: lifecycle_of_def at used)
  qed
qed

lemma lifecycle_step: "inv s \<Longrightarrow> step U s s' \<Longrightarrow> lifecycle_of s i \<le> lifecycle_of s' i"
  unfolding step_def
proof (erule disjE)
  assume inv: "inv s" and cl: "client_step s s'"
  show ?thesis using client_step_effect[OF cl]
  proof (elim disjE conjE exE)
    assume "manager s' = manager s" "used s' = used s"
    then show ?thesis by (simp add: lifecycle_of_def)
  qed (rule lifecycle_start[OF _ _ _ inv])
next
  assume "inv s" "worker_step U s s'"
  then show ?thesis using worker_step_effect lifecycle_worker by blast
qed

interpretation manager_life: monotone_system initial "step U" inv lifecycle_of for U
  by unfold_locales (rule lifecycle_step)

section \<open>Draining\<close>

fun steps_left :: "progress \<Rightarrow> nat" where
  "steps_left Launched = 5"
| "steps_left (Commanded False) = 4"
| "steps_left (Commanded True) = 3"
| "steps_left (Returned _ _ _) = 2"
| "steps_left (Reported _ _) = 1"

definition work_left :: "system \<Rightarrow> nat" where
  "work_left s = sum_list (map (\<lambda>(did, w). steps_left (w_progress w)) (workers s))"

lemma steps_left_bounds: "0 < steps_left p" "steps_left p \<le> 5"
  by (induction p rule: steps_left.induct) simp_all

lemma work_left_bound: "work_left s \<le> 5 * length (workers s)"
proof -
  have "sum_list (map (\<lambda>(did, w). steps_left (w_progress w)) ws) \<le> 5 * length ws" for ws :: "(string \<times> worker) list"
    by (induction ws) (auto intro: add_mono steps_left_bounds)
  then show ?thesis by (simp add: work_left_def)
qed

lemma work_update:
  fixes ws :: "(string \<times> worker) list"
  assumes "distinct (map fst ws)" "map_of ws did = Some w" "steps_left (w_progress w') < steps_left (w_progress w)"
  shows "sum_list (map (\<lambda>(did, w). steps_left (w_progress w)) (AList.update did w' ws))
    < sum_list (map (\<lambda>(did, w). steps_left (w_progress w)) ws)"
  using assms by (induction ws) (auto split: if_splits)

lemma work_delete:
  fixes ws :: "(string \<times> worker) list"
  assumes "map_of ws did = Some w"
  shows "sum_list (map (\<lambda>(did, w). steps_left (w_progress w)) (AList.delete did ws))
    < sum_list (map (\<lambda>(did, w). steps_left (w_progress w)) ws)"
proof -
  have le: "sum_list (map (\<lambda>(did, w). steps_left (w_progress w)) (AList.delete did ws))
    \<le> sum_list (map (\<lambda>(did, w). steps_left (w_progress w)) ws)" for ws :: "(string \<times> worker) list"
    by (induction ws) auto
  show ?thesis using assms
  proof (induction ws)
    case (Cons a ws)
    then show ?case using le[of ws] steps_left_bounds(1)[of "w_progress (snd a)"]
      by (cases a) (auto split: if_splits)
  qed simp
qed

lemma worker_step_work:
  assumes "worker_step U s s'" "inv s"
  shows "work_left s' < work_left s"
proof -
  have d: "distinct (map fst (workers s))" using assms(2) by (simp add: inv_def tables_ok_def)
  show ?thesis using assms(1)
  proof (cases rule: worker_step_cases)
    case (return did w deploying out err)
    then show ?thesis using d by (cases deploying) (auto simp: work_left_def set_progress_def intro: work_update)
  next
    case (finish did w out err now duration)
    then show ?thesis by (auto simp: work_left_def intro: work_delete)
  qed (use d in \<open>auto simp: work_left_def set_progress_def intro: work_update\<close>)
qed

lemma worker_can_step:
  assumes "workers s \<noteq> []" "inv s"
  shows "\<exists>s'. worker_step U s s'"
proof -
  obtain did w rest where ws: "workers s = (did, w) # rest" using assms(1) by (metis neq_Nil_conv surj_pair)
  then have at: "map_of (workers s) did = Some w" by simp
  show ?thesis
  proof (cases "w_progress w")
    case Launched
    then show ?thesis using step_compiling[OF at] by blast
  next
    case (Commanded d)
    then show ?thesis using step_return[OF at] by blast
  next
    case (Returned d out err)
    then show ?thesis using step_report[OF at] by blast
  next
    case (Reported out err)
    then show ?thesis using step_finish[OF at] by blast
  qed
qed

section \<open>The locks of the services\<close>

text \<open>
  What \<open>Start\<close> promises to its callers: a lock for each service, held by one deployment from
  \<open>Start\<close> until the goroutine has recorded the end.
\<close>

type_synonym locks = "string \<Rightarrow> string option"

datatype lock_label = Acquire string string | Release string string | Keep

inductive lock_step :: "lock_label \<Rightarrow> locks \<Rightarrow> locks \<Rightarrow> bool" where
  acquire: "service \<in> {''psl-be-partystar'', ''psl-be-room''} \<Longrightarrow> L service = None \<Longrightarrow>
    lock_step (Acquire service did) L (L(service := Some did))"
| release: "L service = Some did \<Longrightarrow> lock_step (Release service did) L (L(service := None))"
| keep: "lock_step Keep L L"

text \<open>
  What the system does in a step with some label: \<open>Start\<close> accepts a deployment of the service and launches its
  goroutine; the goroutine, which has reported the end, records it and is gone; the goroutines stay.
\<close>

definition lock_event :: "system \<Rightarrow> system \<Rightarrow> lock_label \<Rightarrow> bool" where
  "lock_event s s' l \<longleftrightarrow> (case l of
     Acquire service did \<Rightarrow> \<exists>now input out. Manager_Start (manager s) (Some did) now input = (Inr out, manager s')
       \<and> Service input = service \<and> workers s' = (did, \<lparr>w_input = input, w_progress = Launched\<rparr>) # workers s
   | Release service did \<Rightarrow> \<exists>w out err. map_of (workers s) did = Some w \<and> Service (w_input w) = service
       \<and> w_progress w = Reported out err \<and> workers s' = AList.delete did (workers s)
   | Keep \<Rightarrow> fst ` set (workers s') = fst ` set (workers s))"

definition running_lock :: "system \<Rightarrow> locks" where
  "running_lock s service = map_option (\<lambda>t. DeploymentID (m_task t)) (find_running (tasks (manager s)) service)"

lemma running_lock_Some:
  assumes "inv s"
  shows "running_lock s service = Some i \<longleftrightarrow>
    (\<exists>t. map_of (tasks (manager s)) i = Some t \<and> t_Service (m_task t) = service \<and> \<not> task_terminal t)"
    (is "_ \<longleftrightarrow> ?run i")
proof -
  have d: "distinct (map fst (tasks (manager s)))" using assms by (simp add: inv_def tables_ok_def)
  have id: "DeploymentID (m_task t) = j" if "map_of (tasks (manager s)) j = Some t" for j t
    using inv_entry[OF assms that] by (simp add: entry_ok_def)
  show ?thesis
  proof
    assume "running_lock s service = Some i"
    then obtain j t where f: "find (running_for service) (tasks (manager s)) = Some (j, t)" "DeploymentID (m_task t) = i"
      by (auto simp: running_lock_def find_running_def)
    then have "(j, t) \<in> set (tasks (manager s))" "running_for service (j, t)"
      by (auto simp: find_Some_iff in_set_conv_nth)
    moreover from this(1) have "map_of (tasks (manager s)) j = Some t" using d by simp
    ultimately show "?run i" using id[of j t] f(2) by (auto simp: running_for_def)
  next
    assume "?run i"
    then obtain t where t: "map_of (tasks (manager s)) i = Some t" "t_Service (m_task t) = service" "\<not> task_terminal t"
      by blast
    then have "find_running (tasks (manager s)) service \<noteq> None" using find_running_None[OF d] by blast
    then obtain j u where f: "find (running_for service) (tasks (manager s)) = Some (j, u)"
      by (auto simp: find_running_def)
    then have "(j, u) \<in> set (tasks (manager s))" "running_for service (j, u)"
      by (auto simp: find_Some_iff in_set_conv_nth)
    then have u: "map_of (tasks (manager s)) j = Some u" "t_Service (m_task u) = service" "\<not> task_terminal u"
      using d by (auto simp: running_for_def)
    then have "j = i" using t assms unfolding inv_def unique_running_def by metis
    then show "running_lock s service = Some i" using f id[OF u(1)] by (simp add: running_lock_def find_running_def)
  qed
qed

lemma option_ext: "(\<And>i. a = Some i \<longleftrightarrow> b = Some i) \<Longrightarrow> a = b"
  by (cases a; cases b) auto

lemma running_lock_None:
  assumes "inv s"
  shows "running_lock s service = None \<longleftrightarrow> find_running (tasks (manager s)) service = None"
  by (simp add: running_lock_def)

lemma locks_worker:
  assumes "worker_effect s s' did t t'" "inv s" "inv s'"
  shows "running_lock s' = (if task_terminal t' then (running_lock s)(t_Service (m_task t) := None) else running_lock s)"
    "running_lock s (t_Service (m_task t)) = Some did"
proof -
  have at: "map_of (tasks (manager s)) did = Some t" "\<not> task_terminal t" "t_Service (m_task t') = t_Service (m_task t)"
    "\<And>i. map_of (tasks (manager s')) i = (if i = did then Some t' else map_of (tasks (manager s)) i)"
    using assms(1) by (auto simp: worker_effect_def advances_def map_of_update_at)
  show held: "running_lock s (t_Service (m_task t)) = Some did"
    using at by (simp add: running_lock_Some[OF assms(2)])
  show "running_lock s' = (if task_terminal t' then (running_lock s)(t_Service (m_task t) := None) else running_lock s)"
  proof (intro ext option_ext)
    fix v i
    show "running_lock s' v = Some i \<longleftrightarrow>
      (if task_terminal t' then (running_lock s)(t_Service (m_task t) := None) else running_lock s) v = Some i"
    proof (cases "i = did")
      case True
      have "running_lock s' v = Some did \<longleftrightarrow> t_Service (m_task t) = v \<and> \<not> task_terminal t'"
        using at(3,4) by (simp add: running_lock_Some[OF assms(3)])
      moreover have "running_lock s v = Some did \<longleftrightarrow> t_Service (m_task t) = v"
        using at(1,2) by (simp add: running_lock_Some[OF assms(2)])
      ultimately show ?thesis unfolding True by simp
    next
      case False
      have "running_lock s' v = Some i \<longleftrightarrow> running_lock s v = Some i"
        using False at(4) by (simp add: running_lock_Some[OF assms(2)] running_lock_Some[OF assms(3)])
      moreover have "running_lock s (t_Service (m_task t)) \<noteq> Some i" using held False by simp
      ultimately show ?thesis by simp
    qed
  qed
qed

lemma locks_start:
  assumes start: "Manager_Start (manager s) (Some did) now input = (Inr out, manager s')"
    and fresh: "did \<notin> set (used s)" and "inv s" "inv s'"
  shows "running_lock s' = (running_lock s)(Service input := Some did)" "running_lock s (Service input) = None"
proof -
  obtain k where at: "\<And>i. map_of (tasks (manager s')) i = (if i \<in> set (take k (order (manager s))) then None
        else if i = did then Some (new_task did now input) else map_of (tasks (manager s)) i)"
    and dropped: "\<And>i t. i \<in> set (take k (order (manager s))) \<Longrightarrow> map_of (tasks (manager s)) i = Some t \<Longrightarrow> task_terminal t"
    and new: "did \<notin> set (take k (order (manager s)))"
    using Start_reach_tables(2)[OF start fresh assms(3)] by blast
  show none: "running_lock s (Service input) = None"
    using Start_ok(2)[OF start] by (simp add: running_lock_def)
  then have free: "running_lock s (Service input) \<noteq> Some i" for i by simp
  show "running_lock s' = (running_lock s)(Service input := Some did)"
  proof (intro ext option_ext)
    fix v i
    show "running_lock s' v = Some i \<longleftrightarrow> ((running_lock s)(Service input := Some did)) v = Some i"
    proof (cases "i = did")
      case True
      then show ?thesis using Start_reach_tables(1)[OF start fresh assms(3)] new
        by (auto simp: running_lock_Some[OF assms(3)] running_lock_Some[OF assms(4)] at new_task_simps)
    next
      case False
      then show ?thesis using free[of i] dropped
        by (auto simp: running_lock_Some[OF assms(3)] running_lock_Some[OF assms(4)] at)
    qed
  qed
qed

lemma valid_service: "validateDeployment input = ok \<Longrightarrow> Service input \<in> {''psl-be-partystar'', ''psl-be-room''}"
  by (auto simp: validateDeployment_def validateService_def guard_err_def bind_err_def split: if_splits)

text \<open>A lock is held as long as the goroutine of its deployment exists.\<close>

lemma running_lock_worker:
  assumes "inv s"
  shows "running_lock s service = Some i \<longleftrightarrow> (\<exists>w. map_of (workers s) i = Some w \<and> Service (w_input w) = service)"
proof -
  have "map_of (tasks (manager s)) i = None \<Longrightarrow> map_of (workers s) i = None"
    using assms unfolding inv_def by (metis option.simps(4))
  then show ?thesis
    using inv_entry[OF assms, of i] unfolding running_lock_Some[OF assms]
    by (cases "map_of (workers s) i"; cases "map_of (tasks (manager s)) i") (auto simp: entry_ok_def worker_ok_def done_ok_def)
qed

lemma locks_kept:
  assumes "inv s" "inv s'" "\<And>i. map_option (\<lambda>w. Service (w_input w)) (map_of (workers s') i) = map_option (\<lambda>w. Service (w_input w)) (map_of (workers s) i)"
  shows "running_lock s' = running_lock s"
proof (intro ext option_ext)
  fix v i
  show "running_lock s' v = Some i \<longleftrightarrow> running_lock s v = Some i"
    using assms(3)[of i] unfolding running_lock_worker[OF assms(1)] running_lock_worker[OF assms(2)]
    by (cases "map_of (workers s) i"; cases "map_of (workers s') i") auto
qed

lemma locks_released:
  assumes "inv s" "inv s'" "map_of (workers s) did = Some w" "workers s' = AList.delete did (workers s)"
  shows "running_lock s' = (running_lock s)(Service (w_input w) := None)" "running_lock s (Service (w_input w)) = Some did"
proof -
  show held: "running_lock s (Service (w_input w)) = Some did" using assms(3) by (simp add: running_lock_worker[OF assms(1)])
  show "running_lock s' = (running_lock s)(Service (w_input w) := None)"
  proof (intro ext option_ext)
    fix v i
    have gone: "running_lock s' v = Some i \<longleftrightarrow> i \<noteq> did \<and> running_lock s v = Some i"
      by (auto simp: running_lock_worker[OF assms(1)] running_lock_worker[OF assms(2)] assms(4) delete_conv)
    have own: "running_lock s v = Some did \<longleftrightarrow> Service (w_input w) = v"
      using assms(3) by (simp add: running_lock_worker[OF assms(1)])
    show "running_lock s' v = Some i \<longleftrightarrow> ((running_lock s)(Service (w_input w) := None)) v = Some i"
    proof (cases "v = Service (w_input w)")
      case True
      have "running_lock s v = Some did" using own True by blast
      then show ?thesis unfolding gone by (auto simp: True)
    next
      case False
      then have "running_lock s v \<noteq> Some did" using own by blast
      then show ?thesis unfolding gone using False by auto
    qed
  qed
qed

lemma same_goroutines:
  assumes "map_of (workers s) did = Some w" "workers s' = AList.update did w' (workers s)" "w_input w' = w_input w"
  shows "fst ` set (workers s') = fst ` set (workers s)"
    and "map_option (\<lambda>w. Service (w_input w)) (map_of (workers s') i) = map_option (\<lambda>w. Service (w_input w)) (map_of (workers s) i)"
  using assms by (force simp: dom_update dest: map_of_SomeD, simp add: map_of_update_at)

lemma locks_step:
  assumes "inv s" "step U s s'"
  shows "\<exists>l. lock_event s s' l \<and> lock_step l (running_lock s) (running_lock s')"
proof -
  have i': "inv s'" using assms by (rule inv_step)
  have advanced: ?thesis if "map_of (workers s) did = Some w" "workers s' = AList.update did (w\<lparr>w_progress := p\<rparr>) (workers s)"
    for did w p
    using same_goroutines(1)[OF that] locks_kept[OF assms(1) i' same_goroutines(2)[OF that]]
    by (intro exI[of _ Keep]) (simp add: lock_event_def keep)
  have kept: ?thesis if "fst ` set (workers s') = fst ` set (workers s)"
    "\<And>i. map_option (\<lambda>w. Service (w_input w)) (map_of (workers s') i) = map_option (\<lambda>w. Service (w_input w)) (map_of (workers s) i)"
    using that(1) locks_kept[OF assms(1) i' that(2)] by (intro exI[of _ Keep]) (simp add: lock_event_def keep)
  from assms(2) consider "client_step s s'" | "worker_step U s s'" by (auto simp: step_def)
  then show ?thesis
  proof cases
    case 1
    then show ?thesis
    proof (cases rule: client_step_cases)
      case (start did now input out m)
      have st: "Manager_Start (manager s) (Some did) now input = (Inr out, manager s')" using start(1,2) by simp
      have "lock_step (Acquire (Service input) did) (running_lock s) (running_lock s')"
        unfolding locks_start(1)[OF st start(3) assms(1) i']
        using valid_service[OF Start_ok(1)[OF st]] locks_start(2)[OF st start(3) assms(1) i'] by (rule acquire)
      moreover have "lock_event s s' (Acquire (Service input) did)"
        unfolding lock_event_def lock_label.case 
        by (rule exI[of _ now], rule exI[of _ input], rule exI[of _ out]) (use st start(1) in simp)
      ultimately show ?thesis by blast
    qed (rule kept; simp add: cancel_all_def)+
  next
    case 2
    then show ?thesis
    proof (cases rule: worker_step_cases)
      case (finish did w out err now duration)
      note r = locks_released[OF assms(1) i' finish(2)]
      have "lock_step (Release (Service (w_input w)) did) (running_lock s) (running_lock s')"
        using r finish(1) by (simp add: release)
      moreover have "lock_event s s' (Release (Service (w_input w)) did)" using finish by (auto simp: lock_event_def)
      ultimately show ?thesis by blast
    next
      case (compiling did w notifier)
      show ?thesis using compiling(2) by (rule advanced) (simp_all add: compiling(1) set_progress_def)
    next
      case (marker did w notifier)
      show ?thesis using marker(2) by (rule advanced) (simp_all add: marker(1) set_progress_def)
    next
      case (return did w deploying out err)
      show ?thesis using return(2) by (rule advanced) (simp_all add: return(1) set_progress_def)
    next
      case (report did w deploying out err notifier duration)
      show ?thesis using report(2) by (rule advanced) (simp_all add: report(1) set_progress_def)
    qed
  qed
qed

section \<open>The fate of a canceled deployment\<close>

definition bound_to_cancel :: "system \<Rightarrow> string \<Rightarrow> bool" where
  "bound_to_cancel s i \<longleftrightarrow> i \<in> set (used s) \<and> (case map_of (tasks (manager s)) i of
      None \<Rightarrow> True
    | Some t \<Rightarrow> if task_terminal t then Status (m_task t) = DeploymentCanceled else context_of s i = CtxCanceled)"

lemma bound_to_cancel_step:
  assumes "inv s" "step U s s'" "bound_to_cancel s i"
  shows "bound_to_cancel s' i"
proof -
  from assms(2) consider "client_step s s'" | "worker_step U s s'" by (auto simp: step_def)
  then show ?thesis
  proof cases
    case 1
    show ?thesis using client_step_effect[OF 1]
    proof (elim disjE conjE exE)
      fix did now input out
      assume start: "Manager_Start (manager s) (Some did) now input = (Inr out, manager s')" "did \<notin> set (used s)"
        and rest: "used s' = did # used s" "contexts s' = (did, Live) # contexts s"
      obtain k where at: "\<And>i. map_of (tasks (manager s')) i = (if i \<in> set (take k (order (manager s))) then None
        else if i = did then Some (new_task did now input) else map_of (tasks (manager s)) i)"
        using Start_reach_tables(2)[OF start assms(1)] by blast
      have "i \<noteq> did" using assms(3) start(2) by (auto simp: bound_to_cancel_def)
      moreover from this have "context_of s' i = context_of s i" by (simp add: context_of_def rest)
      ultimately show ?thesis using assms(3)
        by (cases "map_of (tasks (manager s)) i") (auto simp: bound_to_cancel_def at rest)
    qed (use assms(3) in \<open>auto simp: bound_to_cancel_def split: option.splits if_splits\<close>)
  next
    case 2
    obtain did t t' where e: "worker_effect s s' did t t'" using worker_step_effect[OF 2 assms(1)] by blast
    then have "context_of s' i = context_of s i" by (simp add: context_of_def worker_effect_def)
    with e show ?thesis using assms(3)
      by (cases "i = did"; cases "map_of (tasks (manager s)) i")
        (auto simp: worker_effect_def advances_def bound_to_cancel_def map_of_update_at)
  qed
qed

section \<open>A run of the system\<close>

text \<open>
  One deployment, canceled after the script has succeeded and its notification is out, but before
  the end is recorded. It also serves as the concrete state of the witnesses.
\<close>

definition run_input :: DeploymentInput where
  "run_input = \<lparr>Service = ''psl-be-room'', Processes = [''room.http''], SkipTests = False, KeepBackups = 0\<rparr>"

definition run_notifier :: notifier where "run_notifier = Some (\<lambda>_. None)"

definition run_worker :: "progress \<Rightarrow> worker" where
  "run_worker p = \<lparr>w_input = run_input, w_progress = p\<rparr>"

definition run_0 :: system where "run_0 = \<lparr>manager = NewManager, contexts = [], workers = [], used = []\<rparr>"

definition run_1 :: system where
  "run_1 = run_0\<lparr>manager := snd (Manager_Start NewManager (Some ''dep_1'') 0 run_input),
     contexts := [(''dep_1'', Live)], workers := [(''dep_1'', run_worker Launched)], used := [''dep_1'']\<rparr>"

definition run_event :: "DeploymentStatus \<Rightarrow> DeploymentEvent" where
  "run_event status = notifyAndObserve run_notifier (notification run_input status 0)"

definition run_2 :: system where
  "run_2 = set_progress ''dep_1'' (run_worker Launched) (Commanded False)
     (run_1\<lparr>manager := observe ''dep_1'' (run_event DeploymentCompiling) (manager run_1)\<rparr>)"

definition run_3 :: system where
  "run_3 = set_progress ''dep_1'' (run_worker (Commanded False)) (Returned False [] None) run_2"

definition run_4 :: system where
  "run_4 = set_progress ''dep_1'' (run_worker (Returned False [] None)) (Reported [] None)
     (run_3\<lparr>manager := observe ''dep_1'' (run_event DeploymentSucceeded) (manager run_3)\<rparr>)"

definition run_5 :: system where "run_5 = cancel_all [''dep_1''] run_4"

definition run_6 :: "unicode \<Rightarrow> system" where
  "run_6 U = run_5\<lparr>manager := finish U ''dep_1'' CtxCanceled 0 0 [] None (manager run_5),
     workers := AList.delete ''dep_1'' (workers run_5)\<rparr>"

lemma run_input_valid: "validateDeployment run_input = ok"
  by code_simp

lemma run_Start: "Manager_Start NewManager (Some ''dep_1'') 0 run_input =
    (Inr (''dep_1'', DeploymentCompiling),
     \<lparr>tasks = [(''dep_1'', new_task ''dep_1'' 0 run_input)], order = [''dep_1''], limit = 50\<rparr>)"
  by (simp add: Manager_Start_def run_input_valid find_running_def NewManager_def pruneLocked_def defaultHistoryLimit_def)

lemma run_reach_1: "reach initial (step U) run_1"
proof (rule reach_step)
  show "reach initial (step U) run_0" by (rule reach_start) (simp add: initial_def run_0_def)
  have "client_step run_0 run_1"
    unfolding run_1_def run_worker_def run_Start snd_conv
    using step_start[of run_0 "''dep_1''" 0 run_input] run_Start by (simp add: run_0_def)
  then show "step U run_0 run_1" by (simp add: step_def)
qed

lemma run_workers:
  "workers run_1 = [(''dep_1'', run_worker Launched)]"
  "workers run_2 = [(''dep_1'', run_worker (Commanded False))]"
  "workers run_3 = [(''dep_1'', run_worker (Returned False [] None))]"
  "workers run_4 = [(''dep_1'', run_worker (Reported [] None))]"
  by (simp_all add: run_1_def run_2_def run_3_def run_4_def set_progress_def run_worker_def)

lemma run_steps_4: "worker_step U run_1 run_2" "worker_step U run_2 run_3" "worker_step U run_3 run_4"
proof -
  show "worker_step U run_1 run_2"
    using step_compiling[of run_1 "''dep_1''" "run_worker Launched" U run_notifier]
    by (simp add: run_workers run_2_def run_event_def) (simp add: run_worker_def)
  show "worker_step U run_2 run_3"
    using step_return[of run_2 "''dep_1''" "run_worker (Commanded False)" False U "[]" None]
    by (simp add: run_workers run_3_def) (simp add: run_worker_def)
  show "worker_step U run_3 run_4"
    using step_report[of run_3 "''dep_1''" "run_worker (Returned False [] None)" False "[]" None U run_notifier 0]
    by (simp add: run_workers run_4_def run_event_def)
      (simp add: run_worker_def final_status_def context_of_def run_3_def run_2_def run_1_def set_progress_def)
qed

lemma run_reach_4: "reach initial (step U) run_4"
  using run_reach_1 run_steps_4 by (meson reach_step step_def)

lemma run_manager_4:
  "map_of (tasks (manager run_4)) ''dep_1'' =
    Some (observe_task (run_event DeploymentSucceeded) (observe_task (run_event DeploymentCompiling)
      (new_task ''dep_1'' 0 run_input)))"
  by (simp add: run_4_def run_3_def run_2_def run_1_def set_progress_def observe_def run_Start)

lemma run_cancel_4: "Manager_Cancel (manager run_4) ''dep_1'' = Some (Inr True, [''dep_1''])"
  by (simp add: Manager_Cancel_def run_manager_4 observe_task_simps new_task_simps run_event_def event_status)

lemma run_steps_6: "(step U)\<^sup>*\<^sup>* run_4 (run_6 U)"
proof -
  have "client_step run_4 run_5" unfolding run_5_def using run_cancel_4 by (rule step_cancel)
  moreover have "worker_step U run_5 (run_6 U)"
    using step_finish[of run_5 "''dep_1''" "run_worker (Reported [] None)" "[]" None U 0 0]
    by (simp add: run_6_def run_5_def cancel_all_def run_workers)
      (simp add: run_worker_def context_of_def run_4_def run_3_def run_2_def run_1_def set_progress_def cancel_context_def)
  ultimately show ?thesis by (meson rtranclp.simps step_def)
qed

lemma run_reach_6: "reach initial (step U) (run_6 U)"
  using run_steps_6[of U] run_reach_4[of U] by (induction rule: rtranclp_induct) (auto intro: reach_step)

section \<open>Properties\<close>

text \<open>C1: In every state that calls of the manager's methods and steps of its goroutines can reach, in any
  interleaving, the history lists exactly the identifiers of the table, each once; no service has two
  running deployments; an entry is running exactly while its goroutine is, and then it can be
  canceled; a finished entry has its completion time; and no log exceeds its bounds.\<close>

theorem manager_invariant:
  assumes "reach initial (step U) s"
  shows "distinct (order (manager s)) \<and> set (order (manager s)) = dom (map_of (tasks (manager s)))
    \<and> unique_running (tasks (manager s))
    \<and> (\<forall>i. case map_of (tasks (manager s)) i of
          None \<Rightarrow> map_of (workers s) i = None
        | Some t \<Rightarrow> DeploymentID (m_task t) = i \<and> log_ok (Logs (m_task t))
            \<and> (task_terminal t \<longleftrightarrow> map_of (workers s) i = None)
            \<and> (cancelable t \<longleftrightarrow> \<not> task_terminal t)
            \<and> (if task_terminal t then CompletedAt (m_task t) \<noteq> None else True))"
proof -
  have i: "inv s" using assms by (rule manager.reach_inv)
  have "case map_of (tasks (manager s)) k of
          None \<Rightarrow> map_of (workers s) k = None
        | Some t \<Rightarrow> DeploymentID (m_task t) = k \<and> log_ok (Logs (m_task t))
            \<and> (task_terminal t \<longleftrightarrow> map_of (workers s) k = None)
            \<and> (cancelable t \<longleftrightarrow> \<not> task_terminal t)
            \<and> (if task_terminal t then CompletedAt (m_task t) \<noteq> None else True)" for k
  proof (cases "map_of (tasks (manager s)) k")
    case None
    then show ?thesis using i unfolding inv_def by (metis option.simps(4))
  next
    case (Some t)
    then show ?thesis using inv_entry[OF i Some]
      by (cases "map_of (workers s) k") (auto simp: entry_ok_def done_ok_def worker_ok_def)
  qed
  moreover have "set (order (manager s)) = dom (map_of (tasks (manager s)))" "distinct (order (manager s))"
    "unique_running (tasks (manager s))"
    using i by (auto simp: inv_def tables_ok_def dom_map_of_conv_image_fst)
  ultimately show ?thesis by blast
qed

theorem manager_invariant_witness: "unique_running (tasks (manager run_4))"
  using manager_invariant[OF run_reach_4] by blast

text \<open>C17: The life of a deployment only moves forward, whatever the clients and the other goroutines do:
  from unseen to compiling, to deploying, to an end; and once it has ended, its record never
  changes again, until pruning drops it for good.\<close>

theorem lifecycle_forward:
  assumes "reach initial (step U) s" "(step U)\<^sup>*\<^sup>* s s'"
  shows "lifecycle_of s i \<le> lifecycle_of s' i"
  using assms(2) manager.reach_inv[OF assms(1)] by (rule manager_life.steps_mono)

theorem lifecycle_forward_witness: "lifecycle_of run_4 ''dep_1'' \<le> lifecycle_of (run_6 undefined) ''dep_1''"
  by (rule lifecycle_forward[OF run_reach_4 run_steps_6])

text \<open>C4: The manager implements one lock for each service, held by a deployment exactly while its goroutine exists:
  every step of the system is a step of the locks with a label that says what the system does. A lock is taken, free
  and of an allowlisted service, only when \<open>Start\<close> accepts a deployment and launches its goroutine; it is given
  back, by its holder, only when that goroutine has reported the end of the deployment and records it; in
  every other step the goroutines and the locks stay as they are.\<close>

theorem manager_refines_locks:
  assumes "reach initial (step U) s" "step U s s'"
  shows "(running_lock s service = Some i \<longleftrightarrow> (\<exists>w. map_of (workers s) i = Some w \<and> Service (w_input w) = service))
    \<and> (\<exists>l. lock_event s s' l \<and> lock_step l (running_lock s) (running_lock s'))"
  using running_lock_worker locks_step[OF _ assms(2)] manager.reach_inv[OF assms(1)] by blast

theorem manager_refines_locks_witness:
  "running_lock run_4 ''psl-be-room'' = Some ''dep_1''
   \<and> (\<exists>l. lock_event run_4 run_5 l \<and> lock_step l (running_lock run_4) (running_lock run_5))"
proof -
  have "client_step run_4 run_5" unfolding run_5_def using run_cancel_4 by (rule step_cancel)
  then have "step undefined run_4 run_5" by (simp add: step_def)
  from manager_refines_locks[OF run_reach_4 this, of "''psl-be-room''" "''dep_1''"] show ?thesis
    by (simp add: run_workers) (simp add: run_worker_def run_input_def)
qed

text \<open>C21: What \<open>Start\<close> decides in a reachable state, for a new identifier: it refuses an invalid input, or
  one whose service has a running deployment, which it names, and then changes nothing; otherwise
  it adds the deployment as the newest one, drops only ended deployments, the oldest ones,
  only while there are more than the limit, and leaves at most 50 entries unless the oldest runs.\<close>

theorem start_decides:
  assumes "reach initial (step U) s" "did \<notin> set (used s)"
  shows "case Manager_Start (manager s) (Some did) now input of
      (Inl e, m) \<Rightarrow> m = manager s \<and>
        (case e of StartInvalid e' \<Rightarrow> validateDeployment input = Inl e'
          | AlreadyRunning i service \<Rightarrow> service = Service input \<and> running_lock s service = Some i
          | _ \<Rightarrow> False)
    | (Inr out, m) \<Rightarrow> validateDeployment input = ok \<and> running_lock s (Service input) = None
        \<and> out = (did, DeploymentCompiling) \<and> map_of (tasks m) did = Some (new_task did now input)
        \<and> (\<exists>k. order m = drop k (order (manager s)) @ [did]
          \<and> list_all (\<lambda>i. case map_of (tasks (manager s)) i of Some t \<Rightarrow> task_terminal t | None \<Rightarrow> True)
              (take k (order (manager s)))
          \<and> (if k = 0 then True else 50 \<le> length (order m)))
        \<and> (if length (order m) \<le> 50 then True
           else case map_of (tasks m) (hd (order m)) of Some t \<Rightarrow> \<not> task_terminal t | None \<Rightarrow> False)"
proof -
  have i: "inv s" using assms(1) by (rule manager.reach_inv)
  show ?thesis
  proof (cases "fst (Manager_Start (manager s) (Some did) now input)")
    case (Inl e)
    then show ?thesis
      by (auto simp: Manager_Start_def running_lock_def split: sum.splits option.splits)
  next
    case (Inr out)
    then obtain m where start: "Manager_Start (manager s) (Some did) now input = (Inr out, m)"
      by (metis eq_fst_iff)
    have lim: "limit (manager s) = 50" using i by (simp add: inv_def tables_ok_def defaultHistoryLimit_def)
    obtain k where k: "order m = drop k (order (manager s)) @ [did]" "limit m = limit (manager s)"
      "\<forall>i. map_of (tasks m) i = (if i \<in> set (take k (order (manager s))) then None
            else if i = did then Some (new_task did now input) else map_of (tasks (manager s)) i)"
      "\<forall>i t. i \<in> set (take k (order (manager s))) \<longrightarrow> map_of (tasks (manager s)) i = Some t \<longrightarrow> task_terminal t"
      "length (order m) \<le> limit m \<or> (\<exists>t. map_of (tasks m) (hd (order m)) = Some t \<and> \<not> task_terminal t)"
      "k \<noteq> 0 \<longrightarrow> limit m \<le> length (order m)" "did \<notin> set (take k (order (manager s)))"
      using Start_reach_tables(2)[OF start assms(2) i] by blast
    have "list_all (\<lambda>i. case map_of (tasks (manager s)) i of Some t \<Rightarrow> task_terminal t | None \<Rightarrow> True)
              (take k (order (manager s)))"
      using k(4) by (auto simp: list_all_iff split: option.splits)
    moreover have "map_of (tasks m) did = Some (new_task did now input)" using k(3,7) by simp
    moreover have "if length (order m) \<le> 50 then True
           else case map_of (tasks m) (hd (order m)) of Some t \<Rightarrow> \<not> task_terminal t | None \<Rightarrow> False"
      using k(2,5) lim by auto
    moreover have "if k = 0 then True else 50 \<le> length (order m)" using k(2,6) lim by simp
    moreover have "running_lock s (Service input) = None" using Start_ok(2)[OF start] by (simp add: running_lock_def)
    ultimately show ?thesis using Start_ok(1,3)[OF start] k(1) unfolding start prod.case sum.case by blast
  qed
qed

theorem start_decides_witness:
  "case Manager_Start (manager run_4) (Some ''dep_2'') 0 run_input of (Inl e, m) \<Rightarrow> m = manager run_4 | (Inr out, m) \<Rightarrow> True"
proof -
  have "''dep_2'' \<notin> set (used run_4)" by (simp add: run_4_def run_3_def run_2_def run_1_def set_progress_def)
  note new = this
  show ?thesis
    using start_decides[OF run_reach_4 new, where now = 0 and input = run_input] by (simp split: prod.splits sum.splits)
qed

text \<open>No method of the manager panics in a reachable state: \<open>Recent\<close> finds an entry for each
  identifier of the history and \<open>Cancel\<close> never calls a nil function. \<open>Recent\<close> returns the newest
  deployments first, as many as asked, without logs.\<close>

theorem manager_no_panic:
  assumes "reach initial (step U) s"
  shows "Manager_Cancel (manager s) i \<noteq> None
    \<and> (case Manager_Recent (manager s) n of
        None \<Rightarrow> False
      | Some (Inl e) \<Rightarrow> e = LimitRange \<and> (n < 0 \<or> 50 < n)
      | Some (Inr ts) \<Rightarrow> 0 \<le> n \<and> n \<le> 50
          \<and> map DeploymentID ts = take (if n = 0 then 10 else nat n) (rev (order (manager s)))
          \<and> list_all (\<lambda>t. Logs t = []) ts)"
proof
  have i: "inv s" using assms by (rule manager.reach_inv)
  have at: "map_of (tasks (manager s)) k \<noteq> None" if "k \<in> set (order (manager s))" for k
    using i that by (simp add: inv_def tables_ok_def map_of_eq_None_keys)
  have id: "DeploymentID (m_task (the (map_of (tasks (manager s)) k))) = k" if "k \<in> set (order (manager s))" for k
    using at[OF that] inv_entry[OF i, of k] by (auto simp: entry_ok_def)
  show "Manager_Cancel (manager s) i \<noteq> None"
    using inv_entry[OF i, of i]
    by (cases "map_of (workers s) i") (auto simp: Manager_Cancel_def entry_ok_def done_ok_def worker_ok_def split: option.splits)
  let ?ids = "take (nat (if n = 0 then 10 else n)) (rev (order (manager s)))"
  have sub: "k \<in> set (order (manager s))" if "k \<in> set ?ids" for k using that by (auto dest: in_set_takeD)
  have found: "list_all (\<lambda>did. map_of (tasks (manager s)) did \<noteq> None) ?ids"
    using at sub unfolding list_all_iff by blast
  have ids: "map DeploymentID (map (\<lambda>did. cloneTask (m_task (the (map_of (tasks (manager s)) did))) False) ?ids) = ?ids"
    using id sub by (simp add: cloneTask_def map_idI)
  show "case Manager_Recent (manager s) n of
        None \<Rightarrow> False
      | Some (Inl e) \<Rightarrow> e = LimitRange \<and> (n < 0 \<or> 50 < n)
      | Some (Inr ts) \<Rightarrow> 0 \<le> n \<and> n \<le> 50
          \<and> map DeploymentID ts = take (if n = 0 then 10 else nat n) (rev (order (manager s)))
          \<and> list_all (\<lambda>t. Logs t = []) ts"
    using found ids
    by (cases "n = 0") (auto simp: Manager_Recent_def Let_def defaultHistoryLimit_def cloneTask_def list_all_iff)
qed

theorem manager_no_panic_witness: "Manager_Cancel (manager run_4) ''dep_1'' \<noteq> None"
  using manager_no_panic[OF run_reach_4, of "''dep_1''" 0] by (rule conjunct1)

text \<open>C22: A successful \<open>Cancel\<close> decides the fate of a deployment that has not hit its deadline: in every
  later state it is canceled, still on the way there, or dropped from the history.\<close>

theorem cancel_decides:
  assumes "reach initial (step U) s" "Manager_Cancel (manager s) i = Some (Inr True, ids)"
    "context_of s i \<noteq> CtxDeadline" "(step U)\<^sup>*\<^sup>* (cancel_all ids s) s'"
  shows "case lifecycle_of s' i of Unseen \<Rightarrow> False | Active _ \<Rightarrow> context_of s' i = CtxCanceled
    | Ended t \<Rightarrow> Status (m_task t) = DeploymentCanceled | Pruned \<Rightarrow> True"
proof -
  have i: "inv s" using assms(1) by (rule manager.reach_inv)
  have ids: "ids = [i]" and run: "\<exists>t. map_of (tasks (manager s)) i = Some t \<and> \<not> task_terminal t"
    using assms(2) by (auto simp: Manager_Cancel_def split: option.splits if_splits)
  have tab: "tables_ok s" using i by (simp only: inv_def)
  obtain t where "map_of (tasks (manager s)) i = Some t" using run by blast
  then have "i \<in> fst ` set (tasks (manager s))" by (force dest: map_of_SomeD)
  then have "i \<in> set (order (manager s))" using tab by (simp add: tables_ok_def)
  then have used: "i \<in> set (used s)" using tab unfolding tables_ok_def by blast
  then have "i \<in> set (map fst (contexts s))" using tab unfolding tables_ok_def by simp
  then have "map_of (contexts s) i \<noteq> None" by (simp add: map_of_eq_None_iff)
  then have "context_of (cancel_all ids s) i = CtxCanceled"
    using assms(3) by (auto simp: context_of_def map_of_cancel ids cancel_context_def intro: ctx_state.exhaust split: option.splits)
  then have start: "bound_to_cancel (cancel_all ids s) i"
    using run used by (auto simp: bound_to_cancel_def cancel_all_def)
  have "client_step s (cancel_all ids s)" using assms(2) by (rule step_cancel)
  then have "inv (cancel_all ids s)" using i by (rule inv_client_step)
  with assms(4) start have "inv s' \<and> bound_to_cancel s' i"
    by (induction rule: rtranclp_induct) (auto intro: inv_step bound_to_cancel_step)
  then show ?thesis
    by (auto simp: bound_to_cancel_def lifecycle_of_def split: option.splits if_splits)
qed

theorem cancel_decides_witness:
  "case lifecycle_of run_5 ''dep_1'' of Unseen \<Rightarrow> False | Active _ \<Rightarrow> context_of run_5 ''dep_1'' = CtxCanceled
    | Ended t \<Rightarrow> Status (m_task t) = DeploymentCanceled | Pruned \<Rightarrow> True"
proof -
  have "context_of run_4 ''dep_1'' \<noteq> CtxDeadline"
    by (simp add: context_of_def run_4_def run_3_def run_2_def run_1_def set_progress_def)
  then show ?thesis
    using cancel_decides[OF run_reach_4 run_cancel_4, of undefined run_5] unfolding run_5_def by blast
qed

text \<open>A deployment can be recorded as canceled although its script has succeeded and the success has
  been announced: a \<open>Cancel\<close> that comes while the notification is sent still wins.\<close>

theorem cancel_after_success:
  "\<exists>s t. reach initial (step U) s \<and> map_of (tasks (manager s)) ''dep_1'' = Some t
    \<and> Status (m_task t) = DeploymentCanceled \<and> Error (m_task t) = []
    \<and> map_of (Slack (m_task t)) ''succeeded'' = Some DeliverySent \<and> finalStatus t = Some DeploymentSucceeded"
proof -
  let ?t = "finish_task U CtxCanceled 0 0 [] None (observe_task (run_event DeploymentSucceeded)
      (observe_task (run_event DeploymentCompiling) (new_task ''dep_1'' 0 run_input)))"
  have "map_of (tasks (manager (run_6 U))) ''dep_1'' = Some ?t"
    using run_manager_4 by (simp add: run_6_def run_5_def finish_def cancel_all_def map_of_update_at)
  moreover have "Status (m_task ?t) = DeploymentCanceled" by (simp add: finish_task_simps)
  moreover have "map_of (Slack (m_task ?t)) ''succeeded'' = Some DeliverySent" "Error (m_task ?t) = []"
      "finalStatus ?t = Some DeploymentSucceeded"
    by (simp_all add: finish_task_def observe_task_def new_task_def run_event_def notifyAndObserve_def
      notification_def run_notifier_def notify_def split: prod.splits)
  ultimately show ?thesis using run_reach_6 by blast
qed

text \<open>Every run of the goroutines uses up the work that is left.\<close>

lemma worker_runs:
  assumes "inv s" "(worker_step U ^^ n) s s'"
  shows "inv s' \<and> n + work_left s' \<le> work_left s"
  using assms(2)
proof (induction n arbitrary: s')
  case (Suc n)
  then obtain t where t: "(worker_step U ^^ n) s t" "worker_step U t s'" by auto
  with Suc.IH[OF t(1)] show ?case using worker_step_work[OF t(2)] inv_worker_step[OF t(2)] by simp
qed (simp add: assms(1))

text \<open>They can always run to the end, and then no service is locked.\<close>

lemma workers_drain: "inv s \<Longrightarrow> \<exists>s'. (worker_step U)\<^sup>*\<^sup>* s s' \<and> inv s' \<and> workers s' = []"
proof (induction "work_left s" arbitrary: s rule: less_induct)
  case less
  show ?case
  proof (cases "workers s = []")
    case False
    then obtain t where t: "worker_step U s t" using worker_can_step less.prems by blast
    then show ?thesis using less.hyps[OF worker_step_work[OF t less.prems] inv_worker_step[OF t less.prems]]
      by (meson converse_rtranclp_into_rtranclp)
  qed (use less.prems in blast)
qed

lemma no_workers_no_locks:
  assumes "inv s" "workers s = []"
  shows "running_lock s v = None"
proof -
  have "running_lock s v \<noteq> Some i" for i
    using inv_entry[OF assms(1), of i] assms(2) by (auto simp: running_lock_Some[OF assms(1)] entry_ok_def done_ok_def)
  then show ?thesis by (cases "running_lock s v") auto
qed

text \<open>\<open>Close\<close> reaches every goroutine: the context of each is canceled, or at its deadline.\<close>

lemma close_reaches:
  assumes "inv s" "map_of (workers s) i \<noteq> None"
  shows "context_of (cancel_all (close_cancels (manager s)) s) i \<noteq> Live"
proof -
  obtain w t where w: "map_of (tasks (manager s)) i = Some t" "worker_ok t w"
    using assms by (auto elim: inv_worker)
  then have "i \<in> set (close_cancels (manager s))"
    by (force simp: close_cancels_def worker_ok_def dest: map_of_SomeD)
  moreover have "i \<in> set (used s)"
    using assms(1) w(1) by (force simp: inv_def tables_ok_def dest: map_of_SomeD)
  then have "map_of (contexts s) i \<noteq> None"
    using assms(1) by (simp add: inv_def tables_ok_def map_of_eq_None_iff flip: set_map)
  ultimately show ?thesis
    by (auto simp: context_of_def map_of_cancel cancel_context_def split: option.splits)
qed

text \<open>The table keeps its entries while only goroutines run, and so does a context that is not live.\<close>

lemma worker_step_keeps:
  assumes "worker_step U s s'" "inv s"
  shows "map_of (tasks (manager s')) i = None \<longleftrightarrow> map_of (tasks (manager s)) i = None" "contexts s' = contexts s"
  using worker_step_effect[OF assms] by (auto simp: worker_effect_def map_of_update_at split: if_splits)

lemma worker_runs_keep:
  "(worker_step U ^^ n) s s' \<Longrightarrow> inv s \<Longrightarrow> map_of (tasks (manager s')) i = None \<longleftrightarrow> map_of (tasks (manager s)) i = None"
proof (induction n arbitrary: s')
  case (Suc n)
  then obtain t where t: "(worker_step U ^^ n) s t" "worker_step U t s'" by auto
  have "inv t" using worker_runs[OF Suc.prems(2) t(1)] by blast
  then show ?case using worker_step_keeps(1)[OF t(2), of i] Suc.IH[OF t(1) Suc.prems(2)] by simp
qed simp

text \<open>C23: The goroutines of deployments end. Given that scripts and notifiers return, every run of the goroutines
  from a reachable state, however they interleave and whatever the scripts and the notifiers answer, has
  at most five steps for each running deployment; and it is stuck only when all is done: each deployment
  that was running is then recorded as ended, with its completion time and nothing left to
  cancel, and no service is locked.\<close>

theorem deployments_drain:
  assumes "reach initial (step U) s" "(worker_step U ^^ n) s s'"
  shows "n \<le> 5 * length (workers s) \<and>
    (if \<exists>t. worker_step U s' t then workers s' \<noteq> []
     else workers s' = [] \<and> (\<forall>v. running_lock s' v = None)
       \<and> list_all (\<lambda>(i, _). case map_of (tasks (manager s')) i of None \<Rightarrow> False
           | Some t \<Rightarrow> task_terminal t \<and> CompletedAt (m_task t) \<noteq> None \<and> \<not> cancelable t) (workers s))"
proof -
  have i: "inv s" using assms(1) by (rule manager.reach_inv)
  have r: "inv s'" "n \<le> 5 * length (workers s)" using worker_runs[OF i assms(2)] work_left_bound[of s] by simp_all
  have busy: "workers s' \<noteq> []" if "worker_step U s' t" for t
    using that by (cases rule: worker_step_cases) auto
  have entry: "case map_of (tasks (manager s')) j of None \<Rightarrow> False
      | Some t \<Rightarrow> task_terminal t \<and> CompletedAt (m_task t) \<noteq> None \<and> \<not> cancelable t"
    if "workers s' = []" "(j, w) \<in> set (workers s)" for j w
  proof -
    have "distinct (map fst (workers s))" using i by (simp add: inv_def tables_ok_def)
    then have "map_of (workers s) j = Some w" using that(2) by simp
    then obtain t where "map_of (tasks (manager s)) j = Some t" using i inv_worker by metis
    then obtain t' where t': "map_of (tasks (manager s')) j = Some t'" using worker_runs_keep[OF assms(2) i, of j] by auto
    show ?thesis using inv_entry[OF r(1) t'] that(1) t' by (simp add: entry_ok_def done_ok_def)
  qed
  show ?thesis
  proof (cases "workers s' = []")
    case True
    then show ?thesis using r busy entry[OF True] no_workers_no_locks[OF r(1) True] by (auto simp: list_all_iff)
  next
    case False
    then show ?thesis using r worker_can_step by auto
  qed
qed

definition run_done :: "unicode \<Rightarrow> system" where
  "run_done U = run_4\<lparr>manager := finish U ''dep_1'' Live 0 0 [] None (manager run_4), workers := AList.delete ''dep_1'' (workers run_4)\<rparr>"

theorem deployments_drain_witness:
  "(worker_step sample_unicode ^^ 4) run_1 (run_done sample_unicode) \<and> workers (run_done sample_unicode) = [] \<and> running_lock (run_done sample_unicode) ''psl-be-room'' = None"
proof -
  have "worker_step sample_unicode run_4 (run_done sample_unicode)"
    using step_finish[of run_4 "''dep_1''" "run_worker (Reported [] None)" "[]" None sample_unicode 0 0]
    by (simp add: run_done_def run_workers)
      (simp add: run_worker_def context_of_def run_4_def run_3_def run_2_def run_1_def set_progress_def)
  then have run: "(worker_step sample_unicode ^^ 4) run_1 (run_done sample_unicode)"
    using run_steps_4[of sample_unicode] by (auto simp: eval_nat_numeral)
  have "workers (run_done sample_unicode) = []" by (simp add: run_done_def run_workers)
  moreover from this have "\<not> (\<exists>t. worker_step sample_unicode (run_done sample_unicode) t)" by (auto elim: worker_stepE)
  ultimately show ?thesis using deployments_drain[OF run_reach_1 run] run by auto
qed

end
