(* ===== verification/TestApi.thy ===== *)
theory TestApi
  imports Redaction GoRegexp
begin

text \<open>
  \<open>internal/testapi\<close>: the configuration of the read-only endpoints, the call of one of them within
  its allowlists, and the redaction of what comes back.
\<close>

section \<open>Configuration\<close>

definition defaultMaxResponseBytes :: int where "defaultMaxResponseBytes = 524288"

record ApiEndpoint =
  ep_Name :: string
  ep_URL :: string
  ep_Method :: string
  ep_QueryKeys :: "string list"
  ep_BodyFields :: "string list"

record ApiConfig =
  ac_Endpoints :: "ApiEndpoint list"
  ac_MaxResponseBytes :: int

definition zero_endpoint :: ApiEndpoint where
  "zero_endpoint = \<lparr>ep_Name = [], ep_URL = [], ep_Method = [], ep_QueryKeys = [], ep_BodyFields = []\<rparr>"

definition endpoint_fields :: "(string \<times> ApiEndpoint decoder) list" where
  "endpoint_fields =
    [(''name'', at_field ep_Name (\<lambda>v r. r\<lparr>ep_Name := v\<rparr>) decode_string),
     (''url'', at_field ep_URL (\<lambda>v r. r\<lparr>ep_URL := v\<rparr>) decode_string),
     (''method'', at_field ep_Method (\<lambda>v r. r\<lparr>ep_Method := v\<rparr>) decode_string),
     (''allowed_query_keys'', at_field ep_QueryKeys (\<lambda>v r. r\<lparr>ep_QueryKeys := v\<rparr>) (decode_slice decode_string [])),
     (''allowed_body_fields'', at_field ep_BodyFields (\<lambda>v r. r\<lparr>ep_BodyFields := v\<rparr>) (decode_slice decode_string []))]"

definition config_fields :: "(string \<times> ApiConfig decoder) list" where
  "config_fields =
    [(''endpoints'', at_field ac_Endpoints (\<lambda>v r. r\<lparr>ac_Endpoints := v\<rparr>)
       (decode_slice (decode_struct True endpoint_fields) zero_endpoint)),
     (''max_response_bytes'', at_field ac_MaxResponseBytes (\<lambda>v r. r\<lparr>ac_MaxResponseBytes := v\<rparr>) decode_int64)]"

text \<open>\<open>Decoder.Decode\<close> with \<open>DisallowUnknownFields\<close>: the first JSON value of the file.\<close>

definition decode_config :: "string \<Rightarrow> ApiConfig option" where
  "decode_config data = (case parse_first data of
     None \<Rightarrow> None
   | Some v \<Rightarrow> decode_struct True config_fields v \<lparr>ac_Endpoints = [], ac_MaxResponseBytes = 0\<rparr>)"

datatype api_config_error =
    ConfigNotRead string
  | ConfigNotDecoded
  | MaxResponseRange
  | NoEndpoint
  | EndpointName string
  | EndpointDuplicate string
  | EndpointURL string
  | EndpointURLQuery string
  | EndpointBody string string
  | EndpointMethod string

definition normalize_endpoint :: "unicode \<Rightarrow> ApiEndpoint \<Rightarrow> ApiEndpoint" where
  "normalize_endpoint U ep =
    ep\<lparr>ep_Name := trim_space (ep_Name ep), ep_Method := to_upper U (trim_space (ep_Method ep))\<rparr>"

definition bad_url :: "url option \<Rightarrow> bool" where
  "bad_url parsed = (case parsed of
     None \<Rightarrow> True
   | Some p \<Rightarrow> (u_scheme p \<noteq> ''http'' \<and> u_scheme p \<noteq> ''https'') \<or> u_host p = [] \<or> u_has_user p \<or> u_fragment p \<noteq> [])"

text \<open>The checks of one endpoint, normalised.\<close>

definition check_endpoint :: "urls \<Rightarrow> string list \<Rightarrow> ApiEndpoint \<Rightarrow> (api_config_error, unit) result" where
  "check_endpoint W seen ep =
    guard_err (ep_Name ep = [] \<or> contains_any (ep_Name ep) ('' /'' @ [CHR 0x5C])) (EndpointName (ep_Name ep)) (
    guard_err (ep_Name ep \<in> set seen) (EndpointDuplicate (ep_Name ep)) (
    guard_err (bad_url (url_parse W (ep_URL ep))) (EndpointURL (ep_Name ep)) (
    guard_err (case url_parse W (ep_URL ep) of Some p \<Rightarrow> u_raw_query p \<noteq> [] | None \<Rightarrow> False) (EndpointURLQuery (ep_Name ep)) (
    if ep_Method ep = ''GET'' \<or> ep_Method ep = ''HEAD'' then
      guard_err (ep_BodyFields ep \<noteq> []) (EndpointBody (ep_Name ep) (ep_Method ep)) ok
    else guard_err (ep_Method ep \<noteq> ''POST'') (EndpointMethod (ep_Name ep)) ok))))"

fun check_endpoints :: "unicode \<Rightarrow> urls \<Rightarrow> string list \<Rightarrow> ApiEndpoint list \<Rightarrow> (api_config_error, ApiEndpoint list) result"
where
  "check_endpoints U W seen [] = Inr []"
| "check_endpoints U W seen (ep0 # rest) =
    (let ep = normalize_endpoint U ep0 in
     bind_err id (check_endpoint W seen ep) (\<lambda>_.
     bind_err id (check_endpoints U W (ep_Name ep # seen) rest) (\<lambda>eps. Inr (ep # eps))))"

definition default_max :: "ApiConfig \<Rightarrow> ApiConfig" where
  "default_max config =
    (if ac_MaxResponseBytes config = 0 then config\<lparr>ac_MaxResponseBytes := defaultMaxResponseBytes\<rparr> else config)"

text \<open>\<open>LoadConfig\<close>, from the result of reading the file.\<close>

definition LoadApiConfig :: "unicode \<Rightarrow> urls \<Rightarrow> (string, string) result \<Rightarrow> (api_config_error, ApiConfig) result" where
  "LoadApiConfig U W file =
    bind_err ConfigNotRead file (\<lambda>data.
    (case decode_config data of
       None \<Rightarrow> Inl ConfigNotDecoded
     | Some config0 \<Rightarrow>
       (let config = default_max config0 in
        guard_err (ac_MaxResponseBytes config < 1024 \<or> 2097152 < ac_MaxResponseBytes config) MaxResponseRange (
        guard_err (ac_Endpoints config = []) NoEndpoint (
        bind_err id (check_endpoints U W [] (ac_Endpoints config)) (\<lambda>eps.
        Inr (config\<lparr>ac_Endpoints := eps\<rparr>)))))))"

section \<open>The service\<close>

record ApiService =
  as_endpoints :: "(string \<times> ApiEndpoint) list"
  as_maxResponseBytes :: int
  as_logger :: bool

definition NewApiService :: "ApiConfig \<Rightarrow> bool \<Rightarrow> bool \<Rightarrow> ApiService option" where
  "NewApiService config client logger =
    (if \<not> client then None
     else Some \<lparr>as_endpoints = fold (\<lambda>ep. AList.update (ep_Name ep) ep) (ac_Endpoints config) [],
                as_maxResponseBytes = ac_MaxResponseBytes config, as_logger = logger\<rparr>)"

text \<open>A nil map as body (\<open>None\<close>) is encoded as \<open>null\<close>.\<close>

record ApiCallInput =
  ai_Endpoint :: string
  ai_Query :: "(string \<times> string) list"
  ai_Body :: "(string \<times> goany) list option"

record ApiCallOutput =
  ao_Endpoint :: string
  ao_StatusCode :: int
  ao_ContentType :: string
  ao_Body :: goany
  ao_ElapsedMS :: int
  ao_Truncated :: bool

record api_log =
  al_endpoint :: string
  al_method :: string
  al_status :: int
  al_bytes :: nat
  al_truncated :: bool
  al_elapsed :: int

datatype api_error =
    UnknownEndpoint string
  | QueryNotAllowed string
  | BodyNotAllowed string
  | QueryTooLong string
  | BodyTooLarge
  | BodyNotAccepted string
  | RequestNotCreated
  | EndpointCallFailed string
  | ResponseNotRead string

definition maxRequestBodyBytes :: nat where "maxRequestBodyBytes = 65536"

text \<open>How \<open>json.Marshal\<close> writes a \<open>float64\<close> is a parameter.\<close>

fun number_text :: "(string \<Rightarrow> string) \<Rightarrow> goany \<Rightarrow> goany" where
  "number_text f (ANum n) = ANum (f n)"
| "number_text f (ASlice vs) = ASlice (map (number_text f) vs)"
| "number_text f (AMap m) = AMap (map (\<lambda>(k, v). (k, number_text f v)) m)"
| "number_text f v = v"

definition encode_any_body :: "(string \<Rightarrow> string) \<Rightarrow> (string \<times> goany) list option \<Rightarrow> string" where
  "encode_any_body float_text body =
    (case body of None \<Rightarrow> marshal ANil | Some m \<Rightarrow> marshal (number_text float_text (AMap m)))"

definition body_entries :: "'a list option \<Rightarrow> 'a list" where
  "body_entries body = (case body of None \<Rightarrow> [] | Some m \<Rightarrow> m)"

text \<open>What the call takes from outside.\<close>

record outside =
  w_unicode :: unicode
  w_urls :: urls
  w_query :: "string \<Rightarrow> url_values"
  w_float :: "string \<Rightarrow> string"
  w_elapsed :: int

definition api_body :: "outside \<Rightarrow> ApiEndpoint \<Rightarrow> ApiCallInput \<Rightarrow> (api_error, string) result" where
  "api_body W ep input =
    (if ep_Method ep = ''POST'' then
       (let encoded = encode_any_body (w_float W) (ai_Body input) in
        guard_err (maxRequestBodyBytes < length encoded) BodyTooLarge (Inr encoded))
     else guard_err (body_entries (ai_Body input) \<noteq> []) (BodyNotAccepted (ai_Endpoint input)) (Inr []))"

definition api_headers :: "ApiEndpoint \<Rightarrow> headers" where
  "api_headers ep =
    (let h = set_header ''Accept'' ''application/json'' [] in
     if ep_Method ep = ''POST'' then set_header ''Content-Type'' ''application/json'' h else h)"

text \<open>
  The request of a call. \<open>url.Parse\<close> of the configured URL is not checked: the nil URL of a
  failure would panic (\<open>None\<close>).
\<close>

definition api_request :: "outside \<Rightarrow> ApiService \<Rightarrow> ApiCallInput \<Rightarrow> (api_error, ApiEndpoint \<times> http_request) result option"
where
  "api_request W s input =
    (case map_of (as_endpoints s) (ai_Endpoint input) of
       None \<Rightarrow> Some (Inl (UnknownEndpoint (ai_Endpoint input)))
     | Some ep \<Rightarrow>
    (case disallowed_key (ep_QueryKeys ep) (ai_Query input) of
       Some key \<Rightarrow> Some (Inl (QueryNotAllowed key))
     | None \<Rightarrow>
    (case disallowed_key (ep_BodyFields ep) (body_entries (ai_Body input)) of
       Some key \<Rightarrow> Some (Inl (BodyNotAllowed key))
     | None \<Rightarrow>
    (case url_parse (w_urls W) (ep_URL ep) of
       None \<Rightarrow> None
     | Some parsed \<Rightarrow> Some (
       bind_err QueryTooLong (set_values (ai_Query input) (url_query (w_query W) parsed)) (\<lambda>vs.
       bind_err id (api_body W ep input) (\<lambda>body.
       let target = url_string (w_urls W) (parsed\<lparr>u_raw_query := encode_values vs\<rparr>) in
       guard_err (url_parse (w_urls W) target = None) RequestNotCreated (
       Inr (ep, \<lparr>Method = ep_Method ep, URL = target, ReqHeaders = api_headers ep, ReqBody = body\<rparr>)))))))))"

section \<open>The response\<close>

definition api_markers :: "string list" where
  "api_markers = [''password'', ''secret'', ''token'', ''cookie'', ''session'', ''authorization'', ''mobile'', ''phone'']"

fun api_redactJSON :: "unicode \<Rightarrow> goany \<Rightarrow> goany" where
  "api_redactJSON U (AMap m) = AMap (map (\<lambda>(k, v).
     (k, if secret_key U api_markers k then AStr redacted else api_redactJSON U v)) m)"
| "api_redactJSON U (ASlice vs) = ASlice (map (api_redactJSON U) vs)"
| "api_redactJSON U v = v"

definition opt_underscore :: "string \<Rightarrow> string \<Rightarrow> re" where
  "opt_underscore a b = seqs [ci_lit a, Opt (lit ''_''), ci_lit b]"

definition colon_or_equal :: "char \<Rightarrow> bool" where
  "colon_or_equal c \<longleftrightarrow> c = CHR '':'' \<or> c = CHR ''=''"

definition api_secret_byte :: "char \<Rightarrow> bool" where
  "api_secret_byte c \<longleftrightarrow> \<not> space_cls c \<and> c \<noteq> CHR '','' \<and> c \<noteq> CHR '';''"

definition api_textSecrets :: re where
  "api_textSecrets = Cat
    (Grp 1 (seqs [alts [ci_lit ''authorization'', opt_underscore ''access'' ''token'', opt_underscore ''refresh'' ''token'',
        ci_lit ''password'', ci_lit ''passwd'', ci_lit ''secret'', ci_lit ''cookie'', ci_lit ''session''],
      spaces, Cls colon_or_equal, spaces]))
    (Plus (Cls api_secret_byte))"

definition keep_group :: "(nat \<times> string) list \<Rightarrow> string" where
  "keep_group cs = group 1 cs @ redacted"

definition api_redact_text :: "string \<Rightarrow> string" where
  "api_redact_text data = replace_all api_textSecrets keep_group data"

definition api_response_body :: "unicode \<Rightarrow> string \<Rightarrow> bool \<Rightarrow> string \<Rightarrow> goany" where
  "api_response_body U contentType truncated data =
    (if contains (to_lower U contentType) ''json'' \<and> \<not> truncated then
       (case unmarshal_any data of Some decoded \<Rightarrow> api_redactJSON U decoded | None \<Rightarrow> AStr (api_redact_text data))
     else AStr (api_redact_text data))"

definition api_output :: "outside \<Rightarrow> ApiService \<Rightarrow> ApiCallInput \<Rightarrow> http_response \<Rightarrow> (api_error, ApiCallOutput \<times> nat) result"
where
  "api_output W s input resp =
    bind_err ResponseNotRead (read_limited (as_maxResponseBytes s + 1) resp) (\<lambda>all.
    let truncated = (as_maxResponseBytes s < int (length all));
        data = (if truncated then take (nat (as_maxResponseBytes s)) all else all)
    in Inr (\<lparr>ao_Endpoint = ai_Endpoint input, ao_StatusCode = StatusCode resp, ao_ContentType = ContentTypeHeader resp,
             ao_Body = api_response_body (w_unicode W) (ContentTypeHeader resp) truncated data,
             ao_ElapsedMS = w_elapsed W, ao_Truncated = truncated\<rparr>,
            length data))"

definition Api_Call :: "outside \<Rightarrow> ApiService \<Rightarrow> (http_request, string, http_response) remote \<Rightarrow> ApiCallInput
    \<Rightarrow> (http_request, api_log) session \<Rightarrow> ((api_error, ApiCallOutput) result \<times> (http_request, api_log) session) option"
where
  "Api_Call W s net input st =
    (case api_request W s input of
       None \<Rightarrow> None
     | Some (Inl e) \<Rightarrow> Some (Inl e, st)
     | Some (Inr (ep, req)) \<Rightarrow>
       (case send net req st of
          (Inl e, st') \<Rightarrow> Some (Inl (EndpointCallFailed e), st')
        | (Inr resp, st') \<Rightarrow>
          (case api_output W s input resp of
             Inl e \<Rightarrow> Some (Inl e, st')
           | Inr (output, n) \<Rightarrow> Some (Inr output,
               write_log (as_logger s)
                 \<lparr>al_endpoint = ai_Endpoint input, al_method = ep_Method ep, al_status = StatusCode resp,
                  al_bytes = n, al_truncated = ao_Truncated output, al_elapsed = ao_ElapsedMS output\<rparr> st'))))"

interpretation api_redaction: redactor "secret_key U api_markers" "api_redactJSON U" for U
proof unfold_locales
  show "(\<forall>m. v \<noteq> AMap m) \<Longrightarrow> (\<forall>vs. v \<noteq> ASlice vs) \<Longrightarrow> api_redactJSON U v = v" for v
    by (cases v) simp_all
qed simp_all

section \<open>Facts\<close>

definition endpoint_ok :: "urls \<Rightarrow> ApiEndpoint \<Rightarrow> bool" where
  "endpoint_ok W ep \<longleftrightarrow> ep_Name ep \<noteq> [] \<and> ep_Method ep \<in> {''GET'', ''HEAD'', ''POST''}
    \<and> (ep_Method ep = ''POST'' \<or> ep_BodyFields ep = [])
    \<and> (\<exists>p. url_parse W (ep_URL ep) = Some p \<and> u_scheme p \<in> {''http'', ''https''} \<and> u_host p \<noteq> []
        \<and> \<not> u_has_user p \<and> u_fragment p = [] \<and> u_raw_query p = [])"

lemma check_endpoint_ok: "check_endpoint W seen ep = Inr u \<Longrightarrow> endpoint_ok W ep \<and> ep_Name ep \<notin> set seen"
  by (auto simp: check_endpoint_def endpoint_ok_def bad_url_def split: if_splits option.splits)

lemma check_endpoints_ok:
  "check_endpoints U W seen eps0 = Inr eps \<Longrightarrow> list_all (endpoint_ok W) eps \<and> distinct (map ep_Name eps)
    \<and> set (map ep_Name eps) \<inter> set seen = {} \<and> length eps = length eps0"
proof (induction eps0 arbitrary: seen eps)
  case (Cons ep0 rest)
  let ?ep = "normalize_endpoint U ep0"
  obtain u eps' where c: "check_endpoint W seen ?ep = Inr u" "check_endpoints U W (ep_Name ?ep # seen) rest = Inr eps'"
    "eps = ?ep # eps'"
    using Cons.prems by (auto simp: Let_def)
  show ?case using check_endpoint_ok[OF c(1)] Cons.IH[OF c(2)] c(3) by auto
qed simp

definition config_ok :: "urls \<Rightarrow> ApiConfig \<Rightarrow> bool" where
  "config_ok W config \<longleftrightarrow> list_all (endpoint_ok W) (ac_Endpoints config) \<and> distinct (map ep_Name (ac_Endpoints config))
    \<and> ac_Endpoints config \<noteq> [] \<and> 1024 \<le> ac_MaxResponseBytes config \<and> ac_MaxResponseBytes config \<le> 2097152"

lemma LoadApiConfig_ok:
  assumes "LoadApiConfig U W file = Inr config"
  shows "config_ok W config"
proof -
  obtain config0 eps where c: "\<not> (ac_MaxResponseBytes config0 < 1024 \<or> 2097152 < ac_MaxResponseBytes config0)"
    "ac_Endpoints config0 \<noteq> []" "check_endpoints U W [] (ac_Endpoints config0) = Inr eps"
    "config = config0\<lparr>ac_Endpoints := eps\<rparr>"
  proof -
    obtain data c where d: "file = Inr data" "decode_config data = Some c"
      using assms by (auto simp: LoadApiConfig_def split: option.splits)
    obtain eps where "check_endpoints U W [] (ac_Endpoints (default_max c)) = Inr eps"
      "config = (default_max c)\<lparr>ac_Endpoints := eps\<rparr>"
      using assms d by (auto simp: LoadApiConfig_def Let_def)
    then show thesis
      by (intro that[of "default_max c" eps]) (use assms d in \<open>auto simp: LoadApiConfig_def Let_def\<close>)
  qed
  show ?thesis using check_endpoints_ok[OF c(3)] c(1,2,4) by (auto simp: config_ok_def)
qed

lemma endpoints_map:
  "map_of (fold (\<lambda>ep. AList.update (ep_Name ep) ep) eps m) n = Some ep \<Longrightarrow> map_of m n = Some ep \<or> (ep \<in> set eps \<and> ep_Name ep = n)"
  by (induction eps arbitrary: m) (fastforce simp: map_of_update_at split: if_splits)+

lemma service_endpoint:
  assumes "NewApiService config client logger = Some s" "map_of (as_endpoints s) n = Some ep"
  shows "ep \<in> set (ac_Endpoints config)" "ep_Name ep = n"
  using assms endpoints_map[of "ac_Endpoints config" "[]" n ep] by (auto simp: NewApiService_def split: if_splits)

text \<open>What the allowlist of an endpoint admits.\<close>

definition api_admitted :: "outside \<Rightarrow> ApiEndpoint \<Rightarrow> http_request \<Rightarrow> bool" where
  "api_admitted W ep req \<longleftrightarrow> Method req = ep_Method ep \<and> ReqHeaders req = api_headers ep
    \<and> (\<exists>p vs. url_parse (w_urls W) (ep_URL ep) = Some p \<and> fst ` set vs \<subseteq> set (ep_QueryKeys ep)
        \<and> URL req = url_string (w_urls W) (p\<lparr>u_raw_query := encode_values vs\<rparr>))
    \<and> length (ReqBody req) \<le> maxRequestBodyBytes
    \<and> (if ep_Method ep = ''POST'' then
         \<exists>body. fst ` set (body_entries body) \<subseteq> set (ep_BodyFields ep) \<and> ReqBody req = encode_any_body (w_float W) body
       else ReqBody req = [])"

lemma api_request_cases:
  assumes "config_ok (w_urls W) config" "NewApiService config client logger = Some s"
  shows "case api_request W s input of
      None \<Rightarrow> False
    | Some (Inl e) \<Rightarrow> True
    | Some (Inr (ep, req)) \<Rightarrow> ep \<in> set (ac_Endpoints config) \<and> ep_Name ep = ai_Endpoint input \<and> api_admitted W ep req"
proof (cases "map_of (as_endpoints s) (ai_Endpoint input)")
  case None
  then show ?thesis by (simp add: api_request_def)
next
  case (Some ep)
  have ep: "ep \<in> set (ac_Endpoints config)" "ep_Name ep = ai_Endpoint input"
    using service_endpoint[OF assms(2) Some] by blast+
  then have "endpoint_ok (w_urls W) ep" using assms(1) by (auto simp: config_ok_def list_all_iff)
  then obtain p where p: "url_parse (w_urls W) (ep_URL ep) = Some p" "u_raw_query p = []" by (auto simp: endpoint_ok_def)
  show ?thesis
  proof (cases "api_request W s input")
    case None
    then show ?thesis using Some p by (auto simp: api_request_def split: option.splits)
  next
    case r: (Some r)
    show ?thesis
    proof (cases r)
      case (Inr x)
      obtain ep' req where x: "x = (ep', req)" by force
      have q: "disallowed_key (ep_QueryKeys ep) (ai_Query input) = None" "disallowed_key (ep_BodyFields ep) (body_entries (ai_Body input)) = None"
        using r Inr Some by (auto simp: api_request_def split: option.splits)
      obtain vs body where b: "set_values (ai_Query input) [] = Inr vs" "api_body W ep input = Inr body" "ep' = ep"
        "req = \<lparr>Method = ep_Method ep, URL = url_string (w_urls W) (p\<lparr>u_raw_query := encode_values vs\<rparr>),
          ReqHeaders = api_headers ep, ReqBody = body\<rparr>"
        using r Inr Some p q x by (auto simp: api_request_def url_query_def Let_def)
      have "fst ` set vs \<subseteq> set (ep_QueryKeys ep)"
        using set_values_keys[OF b(1)] q(1) by (auto simp: disallowed_key_None)
      moreover have "length body \<le> maxRequestBodyBytes"
        using b(2) by (auto simp: api_body_def Let_def split: if_splits)
      moreover have "if ep_Method ep = ''POST'' then body = encode_any_body (w_float W) (ai_Body input) else body = []"
        using b(2) by (auto simp: api_body_def Let_def)
      ultimately have "api_admitted W ep req"
        using b(4) p(1) q(2) unfolding api_admitted_def by (auto simp: disallowed_key_None)
      then show ?thesis using r Inr x b(3) ep by simp
    qed (use r in simp)
  qed
qed

section \<open>Properties\<close>

text \<open>C8: With a configuration that was loaded, a call never panics and sends at most one request: one for
  the configured endpoint of that name, with its method, its URL, query values for allowlisted
  keys only, no headers but the two fixed ones, and a body of allowlisted fields, within the
  limit, for POST alone. Without a request there is no answer.\<close>

theorem api_call_within_allowlist:
  assumes "LoadApiConfig (w_unicode W) (w_urls W) file = Inr config" "NewApiService config client logger = Some s"
  shows "case Api_Call W s net input st of
      None \<Rightarrow> False
    | Some (answer, st') \<Rightarrow> if sent st' = sent st then \<exists>e. answer = Inl e
        else \<exists>ep req. ep \<in> set (ac_Endpoints config) \<and> ep_Name ep = ai_Endpoint input
          \<and> sent st' = sent st @ [req] \<and> api_admitted W ep req"
proof -
  note c = api_request_cases[OF LoadApiConfig_ok[OF assms(1)] assms(2), of input]
  show ?thesis
  proof (cases "api_request W s input")
    case None
    then show ?thesis using c by simp
  next
    case (Some r)
    show ?thesis
    proof (cases r)
      case (Inl e)
      then show ?thesis using Some by (simp add: Api_Call_def)
    next
      case (Inr x)
      obtain ep req where x: "x = (ep, req)" by force
      have adm: "ep \<in> set (ac_Endpoints config)" "ep_Name ep = ai_Endpoint input" "api_admitted W ep req"
        using c by (simp_all add: Some Inr x)
      have "\<exists>answer st'. Api_Call W s net input st = Some (answer, st') \<and> sent st' = sent st @ [req]"
        by (auto simp: Api_Call_def Some Inr x send_def split: sum.split)
      then show ?thesis using adm by auto
    qed
  qed
qed

definition sample_url :: url where
  "sample_url = \<lparr>u_scheme = ''https'', u_host = ''h'', u_has_user = False, u_path = ''/p'', u_raw_query = [], u_fragment = []\<rparr>"

definition sample_outside :: outside where
  "sample_outside = \<lparr>w_unicode = sample_unicode,
     w_urls = \<lparr>url_parse = (\<lambda>_. Some sample_url), url_string = (\<lambda>u. ''https://h/p?'' @ u_raw_query u)\<rparr>,
     w_query = (\<lambda>_. []), w_float = id, w_elapsed = 3\<rparr>"

definition sample_file :: string where
  "sample_file = [CHR 0x7B] @ quote ''endpoints'' @ '':['' @ [CHR 0x7B] @ quote ''name'' @ '':'' @ quote ''user'' @ '','' @
     quote ''url'' @ '':'' @ quote ''https://h/p'' @ '','' @ quote ''method'' @ '':'' @ quote '' get'' @ '','' @
     quote ''allowed_query_keys'' @ '':['' @ quote ''uid'' @ '']'' @ [CHR 0x7D] @ '']'' @ [CHR 0x7D]"

definition sample_config :: ApiConfig where
  "sample_config = \<lparr>ac_Endpoints = [\<lparr>ep_Name = ''user'', ep_URL = ''https://h/p'', ep_Method = ''GET'',
     ep_QueryKeys = [''uid''], ep_BodyFields = []\<rparr>], ac_MaxResponseBytes = 524288\<rparr>"

definition sample_net :: "(http_request, string, http_response) remote" where
  "sample_net = (\<lambda>_. Inl ''refused'')"

theorem api_call_within_allowlist_witness:
  "case Api_Call sample_outside (the (NewApiService sample_config True True)) sample_net
      \<lparr>ai_Endpoint = ''user'', ai_Query = [(''uid'', ''7'')], ai_Body = None\<rparr> empty_session of
    None \<Rightarrow> False | Some (answer, st') \<Rightarrow> map URL (sent st') = [''https://h/p?uid=7'']"
proof -
  have cfg: "LoadApiConfig (w_unicode sample_outside) (w_urls sample_outside) (Inr sample_file) = Inr sample_config"
    by code_simp
  have srv: "NewApiService sample_config True True = Some (the (NewApiService sample_config True True))" by code_simp
  have "map_option (\<lambda>(a, st'). map URL (sent st')) (Api_Call sample_outside (the (NewApiService sample_config True True))
      sample_net \<lparr>ai_Endpoint = ''user'', ai_Query = [(''uid'', ''7'')], ai_Body = None\<rparr> empty_session)
    = Some [''https://h/p?uid=7'']"
    by code_simp
  then show ?thesis
    using api_call_within_allowlist[OF cfg srv, where net = sample_net and st = empty_session
        and input = "\<lparr>ai_Endpoint = ''user'', ai_Query = [(''uid'', ''7'')], ai_Body = None\<rparr>"]
    by (simp split: option.splits prod.splits)
qed

text \<open>C37: What stands in a complete JSON response under a key that names a secret, at any depth, is never in
  the output: it is replaced, and responses that differ only there give the same output.\<close>

theorem api_response_hides_secrets:
  assumes "contains (to_lower U contentType) ''json''"
    and "unmarshal_any data = Some v" "unmarshal_any data' = Some w" "similar (secret_key U api_markers) v w"
  shows "clean (secret_key U api_markers) (api_response_body U contentType False data)
    \<and> api_response_body U contentType False data = api_response_body U contentType False data'"
  using assms api_redaction.redact_hides[OF assms(4)] api_redaction.redact_clean[of U v]
  by (simp add: api_response_body_def)

theorem api_response_hides_secrets_witness:
  "api_response_body sample_unicode ''application/JSON'' False ([CHR 0x7B] @ quote ''AccessToken'' @ '':1'' @ [CHR 0x7D])
   = api_response_body sample_unicode ''application/JSON'' False ([CHR 0x7B] @ quote ''AccessToken'' @ '':2'' @ [CHR 0x7D])"
proof -
  have sec: "secret_key sample_unicode api_markers ''AccessToken''" by code_simp
  have "similar (secret_key sample_unicode api_markers) (AMap [(''AccessToken'', ANum ''1'')]) (AMap [(''AccessToken'', ANum ''2'')])"
    by (rule maps) (simp add: sec)
  moreover have "unmarshal_any ([CHR 0x7B] @ quote ''AccessToken'' @ '':1'' @ [CHR 0x7D]) = Some (AMap [(''AccessToken'', ANum ''1'')])"
    "unmarshal_any ([CHR 0x7B] @ quote ''AccessToken'' @ '':2'' @ [CHR 0x7D]) = Some (AMap [(''AccessToken'', ANum ''2'')])"
    "contains (to_lower sample_unicode ''application/JSON'') ''json''"
    by code_simp+
  ultimately show ?thesis using api_response_hides_secrets[of sample_unicode "''application/JSON''"] by blast
qed

text \<open>The redaction of texts does not know JSON's quotes: in a response that is cut at the limit, the
  value of a quoted key comes out as it is, although the same secret without quotes is hidden.\<close>

theorem api_truncated_json_leaks:
  "let leak = [CHR 0x7B] @ quote ''password'' @ '':'' @ quote ''hunter2'' in
   api_response_body sample_unicode ''application/json'' True leak = AStr leak
   \<and> api_response_body sample_unicode ''application/json'' True ''password: hunter2'' = AStr ''password: [REDACTED]''"
  by code_simp

end
