(* ===== verification/DbQuery.thy ===== *)
theory DbQuery
  imports MySQLClient GoHttp
begin

text \<open>
  \<open>internal/testdb/service.go\<close>, the service in front of a query client, and
  \<open>internal/testdb/client.go\<close>, the client that calls the remote test endpoint over HTTP.
\<close>

section \<open>The service\<close>

datatype 'e service_error = EngineNotSQL | ValidateSQL sql_error | ClientError 'e

record db_log =
  log_engine :: int
  log_hash :: string
  log_duration :: int
  log_rows :: int
  log_failed :: bool

text \<open>
  The service's fields and what it takes from outside: the client as a remote, whether it has
  a logger, \<open>sha256\<close> with the hexadecimal of its first eight bytes, and the measured duration.
\<close>

record 'e DbService =
  db_client :: "(QueryInput, 'e, QueryOutput) remote"
  db_logger :: bool
  db_hash8 :: "string \<Rightarrow> string"
  db_duration :: int

definition Service_Query :: "unicode \<Rightarrow> 'e DbService \<Rightarrow> QueryInput \<Rightarrow> (QueryInput, db_log) session
    \<Rightarrow> ('e service_error, QueryOutput) result \<times> (QueryInput, db_log) session" where
  "Service_Query U s input0 st =
    (let input = input0\<lparr>Statement := trim_space (Statement input0)\<rparr> in
     if Engine input \<noteq> EngineXianshiSQL \<and> Engine input \<noteq> EngineConfigSQL then (Inl EngineNotSQL, st)
     else (case ValidateReadOnlySQL U (Statement input) of
       Inl e \<Rightarrow> (Inl (ValidateSQL e), st)
     | Inr _ \<Rightarrow>
       (case send (db_client s) input st of
          (r, st') \<Rightarrow>
            (let line = \<lparr>log_engine = Engine input, log_hash = db_hash8 s (Statement input),
                   log_duration = db_duration s,
                   log_rows = (case r of Inr result \<Rightarrow> RowCount result | Inl _ \<Rightarrow> 0),
                   log_failed = \<not> is_ok r\<rparr>
             in (bind_err ClientError r Inr, write_log (db_logger s) line st')))))"

section \<open>The HTTP client\<close>

record HTTPClient =
  endpoint :: string
  hc_maxBody :: int

datatype new_client_error = InvalidEndpoint | ClientRequired | BodyLimitNotPositive

definition NewHTTPClient :: "(string \<Rightarrow> url option) \<Rightarrow> string \<Rightarrow> bool \<Rightarrow> int \<Rightarrow> (new_client_error, HTTPClient) result"
where
  "NewHTTPClient parse_request_uri address client max_body =
    guard_err (case parse_request_uri address of
        None \<Rightarrow> True
      | Some parsed \<Rightarrow> (u_scheme parsed \<noteq> ''http'' \<and> u_scheme parsed \<noteq> ''https'') \<or> u_host parsed = [])
      InvalidEndpoint (
    guard_err (\<not> client) ClientRequired (
    guard_err (max_body \<le> 0) BodyLimitNotPositive (
    Inr \<lparr>endpoint = address, hc_maxBody = max_body\<rparr>)))"

text \<open>The JSON of \<open>queryRequest\<close>.\<close>

definition encode_request :: "QueryInput \<Rightarrow> string" where
  "encode_request input =
    [CHR 0x7B] @ quote ''statement'' @ '':'' @ quote (Statement input) @ '','' @
    quote ''engine'' @ '':'' @ itoa (Engine input) @ [CHR 0x7D]"

record queryResponse =
  q_code :: int
  q_msg :: string
  q_ResultJSON :: string
  q_ResultJSONCamel :: string
  q_RowCount :: int
  q_RowCountCamel :: int
  q_ElapsedMS :: int
  q_ElapsedMSCamel :: int

definition zero_response :: queryResponse where
  "zero_response = \<lparr>q_code = 0, q_msg = [], q_ResultJSON = [], q_ResultJSONCamel = [], q_RowCount = 0,
     q_RowCountCamel = 0, q_ElapsedMS = 0, q_ElapsedMSCamel = 0\<rparr>"

text \<open>
  \<open>flexibleInt64.UnmarshalJSON\<close> sees the text of the value: a number, or a string, whose
  quotes (any number of them, an escaped one would leave its backslash) are trimmed.
\<close>

fun flexibleInt64 :: "int decoder" where
  "flexibleInt64 (JNum raw) _ = parse_int64 raw"
| "flexibleInt64 (JStr raw) _ = parse_int64 raw"
| "flexibleInt64 _ _ = None"

definition common_fields :: "(string \<times> queryResponse decoder) list" where
  "common_fields =
    [(''code'', at_field q_code (\<lambda>v r. r\<lparr>q_code := v\<rparr>) (decode_int (- (2 ^ 31)) (2 ^ 31 - 1))),
     (''msg'', at_field q_msg (\<lambda>v r. r\<lparr>q_msg := v\<rparr>) decode_string)]"

definition response_fields :: "(string \<times> queryResponse decoder) list" where
  "response_fields =
    [(''common'', decode_struct False common_fields),
     (''result_json'', at_field q_ResultJSON (\<lambda>v r. r\<lparr>q_ResultJSON := v\<rparr>) decode_string),
     (''resultJson'', at_field q_ResultJSONCamel (\<lambda>v r. r\<lparr>q_ResultJSONCamel := v\<rparr>) decode_string),
     (''row_count'', at_field q_RowCount (\<lambda>v r. r\<lparr>q_RowCount := v\<rparr>) flexibleInt64),
     (''rowCount'', at_field q_RowCountCamel (\<lambda>v r. r\<lparr>q_RowCountCamel := v\<rparr>) flexibleInt64),
     (''elapsed_ms'', at_field q_ElapsedMS (\<lambda>v r. r\<lparr>q_ElapsedMS := v\<rparr>) flexibleInt64),
     (''elapsedMs'', at_field q_ElapsedMSCamel (\<lambda>v r. r\<lparr>q_ElapsedMSCamel := v\<rparr>) flexibleInt64)]"

definition decode_response :: "string \<Rightarrow> queryResponse option" where
  "decode_response body = unmarshal (decode_struct False response_fields) body zero_response"

definition truncate_text :: "string \<Rightarrow> nat \<Rightarrow> string" where
  "truncate_text value limit = (if length value \<le> limit then value else take limit value @ ''...'')"

datatype http_query_error =
    CallFailed string
  | ReadFailed string
  | ResponseTooLarge int
  | HTTPStatus int string
  | DecodeFailed
  | Rejected int string
  | InvalidResultJSON

definition query_http_request :: "HTTPClient \<Rightarrow> QueryInput \<Rightarrow> http_request" where
  "query_http_request c input =
    \<lparr>Method = ''POST'', URL = endpoint c,
     ReqHeaders = set_header ''Content-Type'' ''application/json'' [],
     ReqBody = encode_request input\<rparr>"

text \<open>From the body of a 2xx response to the output.\<close>

definition decode_output :: "QueryInput \<Rightarrow> string \<Rightarrow> (http_query_error, QueryOutput) result" where
  "decode_output input responseBody =
    (case decode_response responseBody of
       None \<Rightarrow> Inl DecodeFailed
     | Some decoded \<Rightarrow>
       guard_err (q_code decoded \<noteq> 0) (Rejected (q_code decoded) (q_msg decoded)) (
       let result_json = (if q_ResultJSON decoded = [] then q_ResultJSONCamel decoded else q_ResultJSON decoded);
           row_count = (if q_RowCount decoded = 0 then q_RowCountCamel decoded else q_RowCount decoded);
           elapsed = (if q_ElapsedMS decoded = 0 then q_ElapsedMSCamel decoded else q_ElapsedMS decoded)
       in guard_err (\<not> json_valid result_json) InvalidResultJSON (
       Inr \<lparr>OutEngine = Engine input, ResultJSON = result_json, RowCount = row_count,
             ElapsedMS = elapsed\<rparr>)))"

definition read_query_response :: "HTTPClient \<Rightarrow> QueryInput \<Rightarrow> http_response \<Rightarrow> (http_query_error, QueryOutput) result"
where
  "read_query_response c input resp =
    bind_err ReadFailed (read_limited (hc_maxBody c + 1) resp) (\<lambda>responseBody.
    guard_err (hc_maxBody c < int (length responseBody)) (ResponseTooLarge (hc_maxBody c)) (
    guard_err (StatusCode resp < 200 \<or> 300 \<le> StatusCode resp)
      (HTTPStatus (StatusCode resp) (truncate_text responseBody 512)) (
    decode_output input responseBody)))"

text \<open>
  The request as it is handed to \<open>client.Do\<close>: one element of the session is one call of it. The client of
  \<open>main\<close> has no \<open>CheckRedirect\<close>, so \<open>net/http\<close> may repeat the request within that call after a redirect;
  such repetitions are not in the session.
\<close>

definition HTTP_Query :: "HTTPClient \<Rightarrow> (http_request, string, http_response) remote \<Rightarrow> QueryInput
    \<Rightarrow> (http_request, 'l) session \<Rightarrow> (http_query_error, QueryOutput) result \<times> (http_request, 'l) session" where
  "HTTP_Query c net input st =
    (case send net (query_http_request c input) st of
       (Inl e, st') \<Rightarrow> (Inl (CallFailed e), st')
     | (Inr resp, st') \<Rightarrow> (read_query_response c input resp, st'))"

section \<open>Facts\<close>

definition db_admitted :: "unicode \<Rightarrow> QueryInput \<Rightarrow> bool" where
  "db_admitted U q \<longleftrightarrow> ValidateReadOnlySQL U (Statement q) = ok
     \<and> (Engine q = EngineXianshiSQL \<or> Engine q = EngineConfigSQL) \<and> trim_space (Statement q) = Statement q"

lemma Service_Query_cases:
  obtains (refused) e where "Service_Query U s i st = (Inl e, st)" "\<nexists>c. e = ClientError c"
  | (asked) q line where "q = i\<lparr>Statement := trim_space (Statement i)\<rparr>" "db_admitted U q"
      "Service_Query U s i st = (bind_err ClientError (db_client s (sent st @ [q])) Inr,
         write_log (db_logger s) line (st\<lparr>sent := sent st @ [q]\<rparr>))"
      "log_hash line = db_hash8 s (Statement q)"
      "log_failed line = (\<not> is_ok (db_client s (sent st @ [q])))"
proof (cases "Engine i \<noteq> EngineXianshiSQL \<and> Engine i \<noteq> EngineConfigSQL")
  case True
  then show ?thesis by (auto intro!: refused simp: Service_Query_def Let_def)
next
  case engine: False
  let ?q = "i\<lparr>Statement := trim_space (Statement i)\<rparr>"
  show ?thesis
  proof (cases "ValidateReadOnlySQL U (Statement ?q)")
    case (Inl e)
    then show ?thesis using engine by (auto intro!: refused simp: Service_Query_def Let_def)
  next
    case (Inr u)
    then show ?thesis
      using engine asked[of ?q] by (auto simp: Service_Query_def Let_def send_def db_admitted_def)
  qed
qed

lemma read_limited_all:
  assumes "read_limited n resp = Inr d" "int (length d) < n"
  shows "d = BodyBytes resp \<and> BodyError resp = None"
proof (cases "n \<le> int (length (BodyBytes resp))")
  case True
  then have "d = take (nat n) (BodyBytes resp)" using assms(1) by (simp add: read_limited_def)
  then show ?thesis using assms(2) True by (simp split: if_splits)
next
  case False
  then show ?thesis using assms(1) by (simp add: read_limited_def split: option.splits)
qed

lemma decode_output_ok:
  assumes "decode_output input body = Inr out"
  shows "\<exists>decoded. decode_response body = Some decoded \<and> q_code decoded = 0"
    and "json_valid (ResultJSON out)" and "OutEngine out = Engine input"
proof -
  obtain decoded where d: "decode_response body = Some decoded"
    using assms by (cases "decode_response body") (simp_all add: decode_output_def)
  then have code: "q_code decoded = 0" using assms by (simp add: decode_output_def)
  with d show "\<exists>decoded. decode_response body = Some decoded \<and> q_code decoded = 0" by blast
  let ?r = "if q_ResultJSON decoded = [] then q_ResultJSONCamel decoded else q_ResultJSON decoded"
  have "json_valid ?r \<and> ResultJSON out = ?r \<and> OutEngine out = Engine input"
    using assms d by (auto simp: decode_output_def Let_def simp del: if_split)
  then show "json_valid (ResultJSON out)" "OutEngine out = Engine input" by simp_all
qed

lemma read_query_response_ok:
  assumes "read_query_response c input resp = Inr out"
  shows "200 \<le> StatusCode resp \<and> StatusCode resp < 300 \<and> BodyError resp = None
    \<and> int (length (BodyBytes resp)) \<le> hc_maxBody c
    \<and> (\<exists>decoded. decode_response (BodyBytes resp) = Some decoded \<and> q_code decoded = 0)
    \<and> json_valid (ResultJSON out) \<and> OutEngine out = Engine input"
proof -
  obtain body where body: "read_limited (hc_maxBody c + 1) resp = Inr body"
      "\<not> hc_maxBody c < int (length body)" and status: "\<not> (StatusCode resp < 200 \<or> 300 \<le> StatusCode resp)"
      and dec: "decode_output input body = Inr out"
    using assms unfolding read_query_response_def bind_err_Inr guard_err_Inr by blast
  have "body = BodyBytes resp" "BodyError resp = None"
    using read_limited_all[OF body(1)] body(2) by simp_all
  with body(2) status decode_output_ok[OF dec] show ?thesis by auto
qed

interpretation db: guarded_query "Service_Query U s" "db_admitted U" for U s
proof unfold_locales
  show "\<exists>qs. sent (snd (Service_Query U s i st)) = sent st @ qs \<and> list_all (db_admitted U) qs" for i st
    by (cases rule: Service_Query_cases[of U s i st]) auto
  show "is_ok (fst (Service_Query U s i st)) \<Longrightarrow> sent (snd (Service_Query U s i st)) \<noteq> sent st" for i st
    by (cases rule: Service_Query_cases[of U s i st]) auto
qed

section \<open>Properties\<close>

text \<open>Whatever sequence of questions the SQL service gets, every request it has passed on to its
  client carries a trimmed statement the validator accepts, for one of the two SQL engines.\<close>

theorem db_service_guard:
  assumes "reach (\<lambda>st. sent st = []) (\<lambda>st st'. \<exists>i. st' = snd (Service_Query U s i st)) st"
    and "q \<in> set (sent st)"
  shows "ValidateReadOnlySQL U (Statement q) = ok
    \<and> (Engine q = EngineXianshiSQL \<or> Engine q = EngineConfigSQL)
    \<and> trim_space (Statement q) = Statement q"
  using db.session_admitted[of U s st] assms
  by (auto simp: db.asks_def[abs_def] list_all_iff db_admitted_def)

definition sample_db :: "unit DbService" where
  "sample_db = \<lparr>db_client = (\<lambda>_. Inr \<lparr>OutEngine = 1, ResultJSON = ''{}'', RowCount = 0, ElapsedMS = 1\<rparr>),
     db_logger = True, db_hash8 = (\<lambda>s. take 2 s), db_duration = 4\<rparr>"

theorem db_service_guard_witness:
  "ValidateReadOnlySQL sample_unicode ''SHOW TABLES'' = ok \<and> trim_space ''SHOW TABLES'' = ''SHOW TABLES''"
proof -
  let ?i = "\<lparr>Statement = '' SHOW TABLES '', Engine = 1\<rparr>"
  let ?st = "snd (Service_Query sample_unicode sample_db ?i empty_session)"
  have s: "sent ?st = [\<lparr>Statement = ''SHOW TABLES'', Engine = 1\<rparr>]" by code_simp
  have r: "reach (\<lambda>st. sent st = []) (\<lambda>st st'. \<exists>i. st' = snd (Service_Query sample_unicode sample_db i st)) ?st"
    by (rule reach_step[OF reach_start]) (auto simp: empty_session_def)
  show ?thesis using db_service_guard[OF r, of "\<lparr>Statement = ''SHOW TABLES'', Engine = 1\<rparr>"] by (simp add: s)
qed

text \<open>The audit line shows nothing of the statement beyond its hash: two accepted questions on one
  engine with equal hashes and equal answers leave the same log.\<close>

theorem db_audit_hides_statement:
  assumes "Engine i = Engine i'"
    and "db_hash8 s (trim_space (Statement i)) = db_hash8 s (trim_space (Statement i'))"
    and "is_ok (ValidateReadOnlySQL U (Statement i))" "is_ok (ValidateReadOnlySQL U (Statement i'))"
    and "db_client s (sent st @ [i\<lparr>Statement := trim_space (Statement i)\<rparr>])
       = db_client s (sent st @ [i'\<lparr>Statement := trim_space (Statement i')\<rparr>])"
  shows "audit (snd (Service_Query U s i st)) = audit (snd (Service_Query U s i' st))"
  using assms by (auto simp: Service_Query_def Let_def send_def write_log_def validate_trim)

theorem db_audit_hides_statement_witness:
  "audit (snd (Service_Query sample_unicode sample_db \<lparr>Statement = ''SHOW TABLES'', Engine = 1\<rparr> empty_session))
   = audit (snd (Service_Query sample_unicode sample_db \<lparr>Statement = ''SHOW INDEX FROM t'', Engine = 1\<rparr>
       empty_session))"
  by (rule db_audit_hides_statement) code_simp+

text \<open>C28: The HTTP client answers only from a 2xx response within the body limit whose JSON decodes with
  code 0; its result is valid JSON for the engine that was asked, and exactly one POST of the
  statement went to the configured endpoint whatever the outcome.\<close>

theorem http_query_sound:
  "sent (snd (HTTP_Query c net input st)) = sent st @ [query_http_request c input] \<and>
   (fst (HTTP_Query c net input st) = Inr out \<longrightarrow>
     (\<exists>resp decoded. net (sent st @ [query_http_request c input]) = Inr resp
       \<and> 200 \<le> StatusCode resp \<and> StatusCode resp < 300
       \<and> BodyError resp = None \<and> int (length (BodyBytes resp)) \<le> hc_maxBody c
       \<and> decode_response (BodyBytes resp) = Some decoded \<and> q_code decoded = 0
       \<and> json_valid (ResultJSON out) \<and> OutEngine out = Engine input))"
proof (cases "net (sent st @ [query_http_request c input])")
  case (Inl e)
  then show ?thesis by (simp add: HTTP_Query_def send_def)
next
  case (Inr resp)
  have run: "HTTP_Query c net input st =
      (read_query_response c input resp, st\<lparr>sent := sent st @ [query_http_request c input]\<rparr>)"
    using Inr by (simp add: HTTP_Query_def send_def)
  show ?thesis using Inr read_query_response_ok[of c input resp out] by (simp add: run)
qed

definition sample_http :: HTTPClient where
  "sample_http = \<lparr>endpoint = ''http://db'', hc_maxBody = 100\<rparr>"

definition sample_reply :: http_response where
  "sample_reply = \<lparr>StatusCode = 200, ContentTypeHeader = [],
     BodyBytes = [CHR 0x7B] @ quote ''common'' @ '':{},'' @ quote ''result_json'' @ '':'' @ quote ''[]'' @ '',''
       @ quote ''row_count'' @ '':'' @ quote ''2'' @ [CHR 0x7D],
     BodyError = None\<rparr>"

theorem http_query_sound_witness:
  "int (length (BodyBytes sample_reply)) \<le> 100 \<and> json_valid ''[]''"
proof -
  let ?i = "\<lparr>Statement = ''SHOW TABLES'', Engine = 3\<rparr>"
  have run: "fst (HTTP_Query sample_http (\<lambda>_. Inr sample_reply) ?i (empty_session :: (http_request, nat) session))
      = Inr \<lparr>OutEngine = 3, ResultJSON = ''[]'', RowCount = 2, ElapsedMS = 0\<rparr>"
    by code_simp
  show ?thesis
    using http_query_sound[of sample_http "\<lambda>_. Inr sample_reply" ?i "empty_session :: (http_request, nat) session"
        "\<lparr>OutEngine = 3, ResultJSON = ''[]'', RowCount = 2, ElapsedMS = 0\<rparr>"]
    by (simp add: run) (auto simp: sample_http_def)
qed

end
