(* ===== verification/UserSnapshot.thy ===== *)
theory UserSnapshot
  imports DbQuery SqlSelect
begin

text \<open>
  \<open>internal/usersnapshot\<close>: the snapshot of one user, read through the SQL service in five
  sections. A section that fails carries its error and does not stop the others.
\<close>

section \<open>Types\<close>

definition maxUID :: "64 word" where "maxUID = 0xFFFFFFFF"

record GetInput =
  UID :: "64 word"
  BackpackLimit :: int

text \<open>A section: its rows (\<open>None\<close> is the nil slice), each a map from column to value.\<close>

type_synonym row = "(string \<times> goany) list"

record Section =
  Rows :: "row list option"
  s_Truncated :: bool
  s_Error :: string

record Backpack =
  Commodities :: Section
  Equipped :: Section
  PropCards :: Section

record GetOutput =
  o_UID :: "64 word"
  o_User :: Section
  o_VIP :: Section
  o_Backpack :: Backpack

record sqlResult =
  Columns :: "string list"
  r_Rows :: "goany list list"

definition result_fields :: "(string \<times> sqlResult decoder) list" where
  "result_fields =
    [(''columns'', at_field Columns (\<lambda>v r. r\<lparr>Columns := v\<rparr>) (decode_slice decode_string [])),
     (''rows'', at_field r_Rows (\<lambda>v r. r\<lparr>r_Rows := v\<rparr>) (decode_slice (decode_slice decode_any_at ANil) []))]"

definition decode_result :: "string \<Rightarrow> sqlResult option" where
  "decode_result text = unmarshal (decode_struct False result_fields) text \<lparr>Columns = [], r_Rows = []\<rparr>"

record snapshot_log =
  sl_uid_hash :: string
  sl_limit :: int
  sl_partial :: nat
  sl_duration :: int

text \<open>The service's fields and what it takes from outside: the text of a client error, the hash, the duration.\<close>

record 'e SnapshotService =
  us_logger :: bool
  us_error_text :: "'e \<Rightarrow> string"
  us_hash8 :: "string \<Rightarrow> string"
  us_duration :: int

section \<open>The statements\<close>

definition user_statement :: "string \<Rightarrow> string" where
  "user_statement uid =
     ''SELECT uid, app_id, sex, role, online_status, online_dateline, deleted, bigarea_id,'' @
     '' language, display_language FROM xs_user_profile WHERE uid = ''
     @ uid @ '' LIMIT 1''"

definition vip_statement :: "string \<Rightarrow> string" where
  "vip_statement uid =
     ''SELECT id, uid, level, vip_expire_time, rebate_expire_time, create_time, update_time'' @
     '' FROM xs_user_vip WHERE uid = ''
     @ uid @ '' ORDER BY level DESC, id DESC LIMIT 20''"

definition commodities_statement :: "string \<Rightarrow> string \<Rightarrow> string" where
  "commodities_statement uid queryLimit =
     ''SELECT id, cid, type, uid, can_give, source, give_count, status, seconds,'' @
     '' period_end, dateline, num FROM xs_user_commodity WHERE uid = ''
     @ uid @ '' ORDER BY id DESC LIMIT '' @ queryLimit"

definition equipped_statement :: "string \<Rightarrow> string \<Rightarrow> string" where
  "equipped_statement uid queryLimit =
     ''SELECT id, cid, type, uid, period_end, dress_status, dateline, updateline FROM'' @
     '' xs_user_commodity_spu WHERE uid = ''
     @ uid @ '' ORDER BY id DESC LIMIT '' @ queryLimit"

definition prop_cards_statement :: "string \<Rightarrow> string \<Rightarrow> string" where
  "prop_cards_statement uid queryLimit =
     ''SELECT id, uid, prop_card_id, num, send_num, expired_time, dateline, prop_card_type,'' @
     '' send_times FROM xs_user_prop_card WHERE uid = ''
     @ uid @ '' ORDER BY id DESC LIMIT '' @ queryLimit"

section \<open>The operations\<close>

text \<open>The loop over the rows: \<open>None\<close> when a row has not as many values as there are columns.\<close>

fun section_rows :: "string list \<Rightarrow> goany list list \<Rightarrow> row list option" where
  "section_rows columns [] = Some []"
| "section_rows columns (values # rest) =
    (if length values \<noteq> length columns then None
     else map_option ((#) (fold (\<lambda>(k, v). AList.update k v) (zip columns values) [])) (section_rows columns rest))"

definition text_not_decoded :: string where "text_not_decoded = ''query result could not be decoded''"
definition text_mismatch :: string where "text_mismatch = ''query result column count mismatch''"

definition decode_section :: "string \<Rightarrow> nat \<Rightarrow> Section" where
  "decode_section text lim =
    (case decode_result text of
       None \<Rightarrow> \<lparr>Rows = Some [], s_Truncated = False, s_Error = text_not_decoded\<rparr>
     | Some decoded \<Rightarrow>
       (let truncated = lim < length (r_Rows decoded);
            kept = (if truncated then take lim (r_Rows decoded) else r_Rows decoded)
        in case section_rows (Columns decoded) kept of
             None \<Rightarrow> \<lparr>Rows = None, s_Truncated = truncated, s_Error = text_mismatch\<rparr>
           | Some rows \<Rightarrow> \<lparr>Rows = Some rows, s_Truncated = truncated, s_Error = []\<rparr>))"

type_synonym ('e, 's) querier = "QueryInput \<Rightarrow> 's \<Rightarrow> ('e, QueryOutput) result \<times> 's"

definition querySection :: "'e SnapshotService \<Rightarrow> ('e, 's) querier \<Rightarrow> string \<Rightarrow> nat \<Rightarrow> 's \<Rightarrow> Section \<times> 's" where
  "querySection s query statement lim st =
    (case query \<lparr>Statement = statement, Engine = EngineXianshiSQL\<rparr> st of
       (Inl e, st') \<Rightarrow> (\<lparr>Rows = Some [], s_Truncated = False, s_Error = us_error_text s e\<rparr>, st')
     | (Inr result, st') \<Rightarrow> (decode_section (ResultJSON result) lim, st'))"

definition countErrors :: "GetOutput \<Rightarrow> nat" where
  "countErrors output = length (filter (\<lambda>section. s_Error section \<noteq> [])
    [o_User output, o_VIP output, Commodities (o_Backpack output), Equipped (o_Backpack output),
     PropCards (o_Backpack output)])"

datatype snapshot_error = UIDRange | BackpackLimitRange

definition effective_limit :: "GetInput \<Rightarrow> int" where
  "effective_limit input = (if BackpackLimit input = 0 then 50 else BackpackLimit input)"

definition read_sections :: "'e SnapshotService \<Rightarrow> ('e, 's) querier \<Rightarrow> GetInput \<Rightarrow> nat \<Rightarrow> 's \<Rightarrow> GetOutput \<times> 's" where
  "read_sections s query input lim st =
    (let uid = format_nat (uint (UID input)); queryLimit = itoa (int lim + 1);
         (user, st1) = querySection s query (user_statement uid) 1 st;
         (vip, st2) = querySection s query (vip_statement uid) 20 st1;
         (commodities, st3) = querySection s query (commodities_statement uid queryLimit) lim st2;
         (equipped, st4) = querySection s query (equipped_statement uid queryLimit) lim st3;
         (prop_cards, st5) = querySection s query (prop_cards_statement uid queryLimit) lim st4
     in (\<lparr>o_UID = UID input, o_User = user, o_VIP = vip,
          o_Backpack = \<lparr>Commodities = commodities, Equipped = equipped, PropCards = prop_cards\<rparr>\<rparr>, st5))"

definition Snapshot_Get :: "'e SnapshotService \<Rightarrow> ('e, 's) querier \<Rightarrow> GetInput \<Rightarrow> 's
    \<Rightarrow> (snapshot_error, GetOutput) result \<times> 's \<times> snapshot_log list" where
  "Snapshot_Get s query input st =
    (if UID input = 0 \<or> maxUID < UID input then (Inl UIDRange, st, [])
     else if effective_limit input < 1 \<or> 100 < effective_limit input then (Inl BackpackLimitRange, st, [])
     else (case read_sections s query input (nat (effective_limit input)) st of
       (output, st') \<Rightarrow> (Inr output, st',
         if us_logger s then
           [\<lparr>sl_uid_hash = us_hash8 s (format_nat (uint (UID input))), sl_limit = effective_limit input,
             sl_partial = countErrors output, sl_duration = us_duration s\<rparr>]
         else [])))"

section \<open>The statements pass the policy\<close>

definition user_words :: "string list \<times> string list" where
  "user_words =
    ([''uid,'', ''app_id,'', ''sex,'', ''role,'', ''online_status,'', ''online_dateline,'',
     ''deleted,'', ''bigarea_id,'', ''language,'', ''display_language'', ''FROM'',
     ''xs_user_profile'', ''WHERE'', ''uid'', ''=''],
     [])"

lemma user_words: "user_statement uid =
    join '' '' (''SELECT'' # (fst user_words @ [uid] @ snd user_words) @ [''LIMIT'', ''1''])"
  by (simp add: user_statement_def user_words_def)

definition vip_words :: "string list \<times> string list" where
  "vip_words =
    ([''id,'', ''uid,'', ''level,'', ''vip_expire_time,'', ''rebate_expire_time,'', ''create_time,'',
     ''update_time'', ''FROM'', ''xs_user_vip'', ''WHERE'', ''uid'', ''=''],
     [''ORDER'', ''BY'', ''level'', ''DESC,'', ''id'', ''DESC''])"

lemma vip_words: "vip_statement uid =
    join '' '' (''SELECT'' # (fst vip_words @ [uid] @ snd vip_words) @ [''LIMIT'', ''20''])"
  by (simp add: vip_statement_def vip_words_def)

definition commodities_words :: "string list \<times> string list" where
  "commodities_words =
    ([''id,'', ''cid,'', ''type,'', ''uid,'', ''can_give,'', ''source,'', ''give_count,'',
     ''status,'', ''seconds,'', ''period_end,'', ''dateline,'', ''num'', ''FROM'',
     ''xs_user_commodity'', ''WHERE'', ''uid'', ''=''],
     [''ORDER'', ''BY'', ''id'', ''DESC''])"

lemma commodities_words: "commodities_statement uid queryLimit =
    join '' '' (''SELECT'' # (fst commodities_words @ [uid] @ snd commodities_words) @ [''LIMIT'', queryLimit])"
  by (simp add: commodities_statement_def commodities_words_def)

definition equipped_words :: "string list \<times> string list" where
  "equipped_words =
    ([''id,'', ''cid,'', ''type,'', ''uid,'', ''period_end,'', ''dress_status,'', ''dateline,'',
     ''updateline'', ''FROM'', ''xs_user_commodity_spu'', ''WHERE'', ''uid'', ''=''],
     [''ORDER'', ''BY'', ''id'', ''DESC''])"

lemma equipped_words: "equipped_statement uid queryLimit =
    join '' '' (''SELECT'' # (fst equipped_words @ [uid] @ snd equipped_words) @ [''LIMIT'', queryLimit])"
  by (simp add: equipped_statement_def equipped_words_def)

definition prop_cards_words :: "string list \<times> string list" where
  "prop_cards_words =
    ([''id,'', ''uid,'', ''prop_card_id,'', ''num,'', ''send_num,'', ''expired_time,'',
     ''dateline,'', ''prop_card_type,'', ''send_times'', ''FROM'', ''xs_user_prop_card'', ''WHERE'',
     ''uid'', ''=''],
     [''ORDER'', ''BY'', ''id'', ''DESC''])"

lemma prop_cards_words: "prop_cards_statement uid queryLimit =
    join '' '' (''SELECT'' # (fst prop_cards_words @ [uid] @ snd prop_cards_words) @ [''LIMIT'', queryLimit])"
  by (simp add: prop_cards_statement_def prop_cards_words_def)

definition words_ok :: "string list \<times> string list \<Rightarrow> bool" where
  "words_ok w \<longleftrightarrow> list_all plain_word (''SELECT'' # fst w @ snd w @ [''LIMIT''])
    \<and> sum_list (map (\<lambda>t. Suc (length t)) (fst w @ snd w)) < 300"

lemma words_plain:
  "words_ok user_words" "words_ok vip_words" "words_ok commodities_words" "words_ok equipped_words"
  "words_ok prop_cards_words"
  by code_simp+

lemma length_join: "length (join '' '' ws) \<le> sum_list (map (\<lambda>t. Suc (length t)) ws)"
  by (induction "'' ''" ws rule: join.induct) auto

lemma length_format: "0 \<le> n \<Longrightarrow> n < 10 ^ Suc k \<Longrightarrow> length (format_nat n) \<le> Suc k"
proof (induction k arbitrary: n)
  case 0
  then show ?case by (subst format_nat.simps) simp
next
  case (Suc k)
  have "10 * (n div 10) \<le> n" by simp
  then have "n div 10 < 10 ^ Suc k" using Suc.prems(2) by simp
  then show ?case using Suc by (subst format_nat.simps) auto
qed

lemma format_digits: "0 \<le> n \<Longrightarrow> \<forall>c \<in> set (format_nat n). digit_cls c" "format_nat n \<noteq> []"
proof -
  have "digit_byte c \<Longrightarrow> digit_cls c" for c
    by (auto simp: digit_byte_def digit_value_def digit_cls_def Let_def split: if_splits)
  then show "0 \<le> n \<Longrightarrow> \<forall>c \<in> set (format_nat n). digit_cls c" using format_nat_digits by blast
  show "format_nat n \<noteq> []" by (subst format_nat.simps) simp
qed

lemma statement_accepted:
  assumes "words_ok w" "0 \<le> n" "n < 10 ^ 10" "0 \<le> k" "k < 1000"
  shows "ValidateReadOnlySQL U (join '' '' (''SELECT'' # (fst w @ [format_nat n] @ snd w) @ [''LIMIT'', format_nat k])) = ok
    \<and> trim_space (join '' '' (''SELECT'' # (fst w @ [format_nat n] @ snd w) @ [''LIMIT'', format_nat k]))
      = join '' '' (''SELECT'' # (fst w @ [format_nat n] @ snd w) @ [''LIMIT'', format_nat k])
    \<and> validateDirectDatabaseScope U (join '' '' (''SELECT'' # (fst w @ [format_nat n] @ snd w) @ [''LIMIT'', format_nat k])) = ok"
proof -
  have plain: "list_all plain_word (''SELECT'' # (fst w @ [format_nat n] @ snd w) @ [''LIMIT'', format_nat k])"
    using assms digits_plain[OF format_digits(2) format_digits(1)] by (simp add: words_ok_def)
  have "length (format_nat n) \<le> Suc 9" "length (format_nat k) \<le> Suc 2"
    using assms by (intro length_format; simp)+
  then have "sum_list (map (\<lambda>t. Suc (length t)) (''SELECT'' # (fst w @ [format_nat n] @ snd w) @ [''LIMIT'', format_nat k])) \<le> 8192"
    using assms(1) by (simp add: words_ok_def)
  then have "length (join '' '' (''SELECT'' # (fst w @ [format_nat n] @ snd w) @ [''LIMIT'', format_nat k])) \<le> maxSQLLength"
    unfolding maxSQLLength_def using length_join le_trans by blast
  then show ?thesis
    using select_accepted[OF plain refl format_digits(2) format_digits(1)[OF assms(4)]] select_in_scope[OF plain refl]
    by blast
qed

definition snapshot_statements :: "GetInput \<Rightarrow> string list" where
  "snapshot_statements input =
    (let uid = format_nat (uint (UID input)); queryLimit = itoa (effective_limit input + 1) in
     [user_statement uid, vip_statement uid, commodities_statement uid queryLimit,
      equipped_statement uid queryLimit, prop_cards_statement uid queryLimit])"

definition valid_input :: "GetInput \<Rightarrow> bool" where
  "valid_input input \<longleftrightarrow> UID input \<noteq> 0 \<and> UID input \<le> maxUID
    \<and> 1 \<le> effective_limit input \<and> effective_limit input \<le> 100"

lemma snapshot_statements_ok:
  assumes "valid_input input" "t \<in> set (snapshot_statements input)"
  shows "ValidateReadOnlySQL U t = ok \<and> trim_space t = t \<and> validateDirectDatabaseScope U t = ok"
proof -
  have "uint (UID input) \<le> 0xFFFFFFFF" using assms(1) by (simp add: valid_input_def maxUID_def word_le_def)
  then have n: "0 \<le> uint (UID input)" "uint (UID input) < 10 ^ 10" by simp_all
  have k: "itoa (effective_limit input + 1) = format_nat (effective_limit input + 1)"
      "0 \<le> effective_limit input + 1" "effective_limit input + 1 < 1000"
    using assms(1) by (auto simp: valid_input_def itoa_def)
  have one: "format_nat 1 = ''1''" "format_nat 20 = ''20''" by code_simp+
  note acc = statement_accepted[OF _ n]
  from assms(2) consider "t = user_statement (format_nat (uint (UID input)))" | "t = vip_statement (format_nat (uint (UID input)))"
    | "t = commodities_statement (format_nat (uint (UID input))) (format_nat (effective_limit input + 1))"
    | "t = equipped_statement (format_nat (uint (UID input))) (format_nat (effective_limit input + 1))"
    | "t = prop_cards_statement (format_nat (uint (UID input))) (format_nat (effective_limit input + 1))"
    by (auto simp: snapshot_statements_def Let_def k)
  then show ?thesis
  proof cases
    case 1
    then show ?thesis using acc[OF words_plain(1), of 1] unfolding user_words one by simp
  next
    case 2
    then show ?thesis using acc[OF words_plain(2), of 20] unfolding vip_words one by simp
  next
    case 3
    then show ?thesis using acc[OF words_plain(3) k(2,3)] unfolding commodities_words by simp
  next
    case 4
    then show ?thesis using acc[OF words_plain(4) k(2,3)] unfolding equipped_words by simp
  next
    case 5
    then show ?thesis using acc[OF words_plain(5) k(2,3)] unfolding prop_cards_words by simp
  qed
qed

section \<open>The sections\<close>

definition section_ok :: "nat \<Rightarrow> Section \<Rightarrow> bool" where
  "section_ok lim sec \<longleftrightarrow>
    (case Rows sec of
       None \<Rightarrow> s_Error sec = text_mismatch
     | Some rows \<Rightarrow> length rows \<le> lim \<and> (if s_Truncated sec then length rows = lim else True)
         \<and> (if s_Error sec \<noteq> [] then rows = [] else True)
         \<and> (\<exists>columns. list_all (\<lambda>r. fst ` set r = columns \<and> distinct (map fst r)) rows))"

lemma section_rows_spec:
  "section_rows columns vss = Some rows \<Longrightarrow> length rows = length vss
    \<and> list_all (\<lambda>r. fst ` set r = set columns \<and> distinct (map fst r)) rows"
proof (induction vss arbitrary: rows)
  case (Cons vals rest)
  then have len: "length vals = length columns" by (auto split: if_splits)
  have "fst ` set (fold (\<lambda>(k, v). AList.update k v) (zip ks vs) r) = set ks \<union> fst ` set r
      \<and> (distinct (map fst r) \<longrightarrow> distinct (map fst (fold (\<lambda>(k, v). AList.update k v) (zip ks vs) r)))"
    if "length vs = length ks" for ks and vs :: "goany list" and r
    using that by (induction vs ks arbitrary: r rule: list_induct2) (auto simp: dom_update distinct_update)
  from this[OF len, of "[]"] show ?case using Cons by (auto split: if_splits)
qed simp

lemma decode_section_ok: "section_ok lim (decode_section text lim)"
proof (cases "decode_result text")
  case dec: (Some d)
  let ?kept = "if lim < length (r_Rows d) then take lim (r_Rows d) else r_Rows d"
  show ?thesis
  proof (cases "section_rows (Columns d) ?kept")
    case (Some rows)
    then show ?thesis using dec section_rows_spec[OF Some]
      by (auto simp: section_ok_def decode_section_def Let_def split: if_splits)
  qed (simp add: section_ok_def decode_section_def Let_def dec)
qed (simp add: section_ok_def decode_section_def)

lemma querySection_ok: "section_ok lim (fst (querySection s query statement lim st))"
  by (auto simp: querySection_def decode_section_ok split: prod.split sum.split) (simp add: section_ok_def)

lemma querySection_sent:
  "sent (snd (querySection us (send client) statement lim st))
    = sent st @ [\<lparr>Statement = statement, Engine = EngineXianshiSQL\<rparr>]"
  by (auto simp: querySection_def send_def split: sum.split)

text \<open>What a run asks.\<close>

lemma Snapshot_Get_asks:
  "sent (fst (snd (Snapshot_Get us (send client) input st))) = sent st @ (if valid_input input
      then map (\<lambda>t. \<lparr>Statement = t, Engine = EngineXianshiSQL\<rparr>) (snapshot_statements input) else [])"
proof (cases "valid_input input")
  case True
  have lim: "0 \<le> effective_limit input" using True by (simp add: valid_input_def)
  have go: "\<not> (UID input = 0 \<or> maxUID < UID input)" "\<not> (effective_limit input < 1 \<or> 100 < effective_limit input)"
    using True by (auto simp: valid_input_def)
  have "sent (snd (read_sections us (send client) input (nat (effective_limit input)) st))
      = sent st @ map (\<lambda>t. \<lparr>Statement = t, Engine = EngineXianshiSQL\<rparr>) (snapshot_statements input)"
    by (simp add: read_sections_def Let_def case_prod_unfold lim snapshot_statements_def querySection_sent)
  then show ?thesis using True go by (simp add: Snapshot_Get_def case_prod_unfold)
qed (auto simp: Snapshot_Get_def valid_input_def)

section \<open>Properties\<close>

text \<open>C29: Whatever client the service is given and whatever it answers, a snapshot for a valid input always
  has an answer and asks exactly the five statements, in order and all of the SQL engine 1; each
  of them, for every user and limit, is a bounded read the SQL validator accepts and the scope
  check of the direct client lets pass, although no validator stands between the two. An invalid
  input is an error and nothing is asked.\<close>

theorem snapshot_requests:
  "case Snapshot_Get us (send client) input st of (answer, st', logs) \<Rightarrow>
    (is_ok answer \<longleftrightarrow> valid_input input) \<and>
    sent st' = sent st @ (if valid_input input
      then map (\<lambda>t. \<lparr>Statement = t, Engine = EngineXianshiSQL\<rparr>) (snapshot_statements input) else []) \<and>
    (if valid_input input then list_all (\<lambda>t. ValidateReadOnlySQL U t = ok \<and> validateDirectDatabaseScope U t = ok)
       (snapshot_statements input) else True)"
proof -
  have answered: "is_ok (fst (Snapshot_Get us (send client) input st)) \<longleftrightarrow> valid_input input"
    by (auto simp: Snapshot_Get_def valid_input_def case_prod_unfold)
  have accepted: "list_all (\<lambda>t. ValidateReadOnlySQL U t = ok \<and> validateDirectDatabaseScope U t = ok) (snapshot_statements input)"
    if "valid_input input"
    using snapshot_statements_ok[OF that] by (simp add: list_all_iff)
  show ?thesis using Snapshot_Get_asks[of us client input st] answered accepted by (auto simp: case_prod_unfold)
qed

text \<open>Whatever the service answers, each section of a snapshot has at most as many rows as asked,
  exactly as many when it is marked truncated, none when it carries an error, and its rows are
  maps over the same columns.\<close>

theorem snapshot_sections_bounded:
  "case fst (Snapshot_Get us query input st) of
     Inl e \<Rightarrow> \<not> valid_input input
   | Inr out \<Rightarrow> o_UID out = UID input \<and> section_ok 1 (o_User out) \<and> section_ok 20 (o_VIP out)
       \<and> list_all (section_ok (nat (effective_limit input)))
           [Commodities (o_Backpack out), Equipped (o_Backpack out), PropCards (o_Backpack out)]"
  by (auto simp: Snapshot_Get_def read_sections_def Let_def case_prod_unfold querySection_ok valid_input_def)

end
