(* ===== verification/Redis.thy ===== *)
theory Redis
  imports DbQuery
begin

text \<open>
  \<open>internal/testredis\<close>: the command validator, the service in front of a client, the client
  that goes through the SQL test endpoint and the direct client. Go's \<open>int\<close> is 64 bits wide.
\<close>

section \<open>The validator\<close>

definition maxCommandLength :: nat where "maxCommandLength = 4096"
definition maxRangeItems :: int where "maxRangeItems = 500"
definition maxScanCount :: int where "maxScanCount = 500"

definition fixedArity :: "(string \<times> nat \<times> nat) list" where
  "fixedArity =
    [(''GET'', 2, 2), (''MGET'', 2, 51), (''STRLEN'', 2, 2), (''EXISTS'', 2, 51),
     (''TYPE'', 2, 2), (''TTL'', 2, 2), (''PTTL'', 2, 2),
     (''HGET'', 3, 3), (''HMGET'', 3, 52), (''HLEN'', 2, 2), (''HEXISTS'', 3, 3),
     (''LLEN'', 2, 2), (''LINDEX'', 3, 3),
     (''SCARD'', 2, 2), (''SISMEMBER'', 3, 3),
     (''ZCARD'', 2, 2), (''ZSCORE'', 3, 3), (''ZRANK'', 3, 3), (''ZREVRANK'', 3, 3)]"

datatype redis_error =
    CommandEmpty
  | CommandTooLong
  | SeparatorOrInvalid
  | Arity string nat nat
  | NotAllowed string
  | RangeTokens string
  | RangeStart string
  | RangeStop string
  | ScanCursorMissing string
  | ScanCursorInvalid string
  | ScanMatch string
  | ScanCountValue string
  | ScanCountBounds string
  | ScanOption string
  | ScanCountMissing string
  | IndexPanic

text \<open>\<open>stop-start+1 > maxRangeItems\<close> in 64-bit arithmetic.\<close>

definition range_too_long :: "int \<Rightarrow> int \<Rightarrow> bool" where
  "range_too_long start stop \<longleftrightarrow>
    maxRangeItems < sint (word_of_int stop - word_of_int start + 1 :: 64 word)"

definition validateRange :: "string \<Rightarrow> string list \<Rightarrow> (redis_error, unit) result" where
  "validateRange name parts =
    (if length parts \<noteq> 4 then Inl (RangeTokens name)
     else (case atoi (parts ! 2) of
       None \<Rightarrow> Inl (RangeStart name)
     | Some start \<Rightarrow>
       if start < 0 then Inl (RangeStart name)
       else (case atoi (parts ! 3) of
         None \<Rightarrow> Inl (RangeStop name)
       | Some stop \<Rightarrow>
         if stop < start \<or> range_too_long start stop then Inl (RangeStop name) else ok)))"

text \<open>The option loop: what follows the cursor, and \<open>seenCount\<close>.\<close>

fun scan_options :: "unicode \<Rightarrow> string \<Rightarrow> bool \<Rightarrow> string list \<Rightarrow> (redis_error, unit) result" where
  "scan_options U name seen [] = (if seen then ok else Inl (ScanCountMissing name))"
| "scan_options U name seen (opt # rest) =
    (if to_upper U opt = ''MATCH'' then
       (case rest of
          [] \<Rightarrow> Inl (ScanMatch name)
        | p # rest' \<Rightarrow> if p = [] then Inl (ScanMatch name) else scan_options U name seen rest')
     else if to_upper U opt = ''COUNT'' then
       (case rest of
          [] \<Rightarrow> Inl (ScanCountValue name)
        | n # rest' \<Rightarrow>
          if seen then Inl (ScanCountValue name)
          else (case atoi n of
            None \<Rightarrow> Inl (ScanCountBounds name)
          | Some count \<Rightarrow>
            if count < 1 \<or> maxScanCount < count then Inl (ScanCountBounds name)
            else scan_options U name True rest'))
     else Inl (ScanOption name))"

definition validateScan :: "unicode \<Rightarrow> string \<Rightarrow> string list \<Rightarrow> nat \<Rightarrow> (redis_error, unit) result" where
  "validateScan U name parts baseTokens =
    (if length parts < baseTokens then Inl (ScanCursorMissing name)
     else if parse_uint64 (parts ! (baseTokens - 1)) = None then Inl (ScanCursorInvalid name)
     else scan_options U name False (drop baseTokens parts))"

text \<open>Indexing the first token of an empty list would panic.\<close>

definition validate_tokens :: "unicode \<Rightarrow> string list \<Rightarrow> (redis_error, unit) result" where
  "validate_tokens U parts =
    (case parts of
       [] \<Rightarrow> Inl IndexPanic
     | first # _ \<Rightarrow>
       (let name = to_upper U first in
        case map_of fixedArity name of
          Some (lo, hi) \<Rightarrow>
            if length parts < lo \<or> hi < length parts then Inl (Arity name lo hi) else ok
        | None \<Rightarrow>
          if name \<in> {''LRANGE'', ''ZRANGE'', ''ZREVRANGE''} then validateRange name parts
          else if name = ''SCAN'' then validateScan U name parts 2
          else if name \<in> {''HSCAN'', ''SSCAN'', ''ZSCAN''} then validateScan U name parts 3
          else Inl (NotAllowed name)))"

definition redis_separators :: string where
  "redis_separators = [CHR '';'', CHR 0x0D, CHR 0x0A, CHR 0x00]"

definition ValidateReadOnlyCommand :: "unicode \<Rightarrow> string \<Rightarrow> (redis_error, unit) result" where
  "ValidateReadOnlyCommand U command0 =
    (let command = trim_space command0 in
     if command = [] then Inl CommandEmpty
     else if maxCommandLength < length command then Inl CommandTooLong
     else if contains_any command redis_separators then Inl SeparatorOrInvalid
     else validate_tokens U (str_fields command))"

section \<open>The service\<close>

record RedisInput =
  Command :: string

record RedisOutput =
  RedisJSON :: string
  RedisElapsedMS :: int

record redis_log =
  rlog_hash :: string
  rlog_duration :: int
  rlog_failed :: bool

datatype 'e redis_service_error = ValidateCommand redis_error | RedisClientError 'e

record 'e RedisService =
  redis_client :: "(RedisInput, 'e, RedisOutput) remote"
  redis_logger :: bool
  redis_hash8 :: "string \<Rightarrow> string"
  redis_duration :: int

definition Redis_Query :: "unicode \<Rightarrow> 'e RedisService \<Rightarrow> RedisInput \<Rightarrow> (RedisInput, redis_log) session
    \<Rightarrow> ('e redis_service_error, RedisOutput) result \<times> (RedisInput, redis_log) session" where
  "Redis_Query U s input0 st =
    (let input = input0\<lparr>Command := trim_space (Command input0)\<rparr> in
     case ValidateReadOnlyCommand U (Command input) of
       Inl e \<Rightarrow> (Inl (ValidateCommand e), st)
     | Inr _ \<Rightarrow>
       (case send (redis_client s) input st of
          (r, st') \<Rightarrow>
            (bind_err RedisClientError r Inr,
             write_log (redis_logger s)
               \<lparr>rlog_hash = redis_hash8 s (Command input), rlog_duration = redis_duration s,
                rlog_failed = \<not> is_ok r\<rparr> st')))"

text \<open>\<open>httpClient.Query\<close>: the SQL test endpoint, asked with the engine of Redis.\<close>

definition httpClient_Query :: "(QueryInput \<Rightarrow> 's \<Rightarrow> ('e, QueryOutput) result \<times> 's) \<Rightarrow> RedisInput \<Rightarrow> 's
    \<Rightarrow> ('e, RedisOutput) result \<times> 's" where
  "httpClient_Query query input st =
    (case query \<lparr>Statement = Command input, Engine = EngineRedis\<rparr> st of
       (r, st') \<Rightarrow>
         (bind_err id r (\<lambda>result.
            Inr \<lparr>RedisJSON = ResultJSON result, RedisElapsedMS = ElapsedMS result\<rparr>), st'))"

section \<open>The direct client\<close>

record DirectConfig =
  Address :: string
  RedisPassword :: string
  RedisDatabase :: int

text \<open>What \<open>redis.NewClient\<close> is given: address, password, database and the three timeouts.\<close>

record redis_options =
  ro_addr :: string
  ro_password :: string
  ro_db :: int
  ro_dial :: int
  ro_read :: int
  ro_write :: int

datatype redis_conn_op = NewConn redis_options | PingConn | CloseConn

definition direct_options :: "DirectConfig \<Rightarrow> redis_options" where
  "direct_options c = \<lparr>ro_addr = Address c, ro_password = RedisPassword c, ro_db = RedisDatabase c,
     ro_dial = 3 * second, ro_read = 3 * second, ro_write = 3 * second\<rparr>"

definition OpenDirectClient :: "(redis_options \<Rightarrow> string option) \<Rightarrow> DirectConfig
    \<Rightarrow> (string, redis_options) result \<times> redis_conn_op list" where
  "OpenDirectClient ping_server config =
    (let opts = direct_options config in
     case ping_server opts of
       Some e \<Rightarrow> (Inl e, [NewConn opts, PingConn, CloseConn])
     | None \<Rightarrow> (Inr opts, [NewConn opts, PingConn]))"

definition Direct_Close :: "redis_options \<Rightarrow> redis_conn_op list" where
  "Direct_Close c = [CloseConn]"

text \<open>A reply of the server: a value, \<open>redis.Nil\<close>, or a value JSON cannot express.\<close>

datatype redis_reply = ReplyNil | ReplyValue goany | ReplyOpaque string

datatype direct_error = QueryFailed string | EncodeReplyFailed string

definition Direct_Query :: "(string list, string, redis_reply) remote \<Rightarrow> int \<Rightarrow> RedisInput
    \<Rightarrow> (string list, 'l) session \<Rightarrow> (direct_error, RedisOutput) result \<times> (string list, 'l) session" where
  "Direct_Query server elapsed input st =
    (case send server (str_fields (Command input)) st of
       (Inl e, st') \<Rightarrow> (Inl (QueryFailed e), st')
     | (Inr reply, st') \<Rightarrow>
       ((case reply of
           ReplyNil \<Rightarrow> Inr \<lparr>RedisJSON = marshal ANil, RedisElapsedMS = elapsed\<rparr>
         | ReplyValue v \<Rightarrow> Inr \<lparr>RedisJSON = marshal v, RedisElapsedMS = elapsed\<rparr>
         | ReplyOpaque e \<Rightarrow> Inl (EncodeReplyFailed e)), st'))"

section \<open>Facts about the validator\<close>

lemma digits_from_nonneg: "digits_from v s = Some n \<Longrightarrow> 0 \<le> v \<Longrightarrow> 0 \<le> n"
  by (induction s arbitrary: v) (auto simp: digit_value_def Let_def split: option.splits if_splits)

lemma atoi_range: "atoi s = Some n \<Longrightarrow> - (2 ^ 63) \<le> n \<and> n < 2 ^ 63"
  by (auto simp: parse_int64_def Let_def split: if_splits option.splits dest: digits_from_nonneg)

lemma range_too_long_iff:
  assumes "0 \<le> start" "start \<le> stop" "stop < 2 ^ 63"
  shows "range_too_long start stop \<longleftrightarrow> 500 \<le> stop - start \<and> stop - start < 2 ^ 63 - 1"
proof -
  have w: "word_of_int stop - word_of_int start + 1 = (word_of_int (stop - start + 1) :: 64 word)"
    by simp
  have "sint (word_of_int (stop - start + 1) :: 64 word) = signed_take_bit 63 (stop - start + 1)"
    by (subst sint_sbintrunc') simp
  moreover have "signed_take_bit 63 (stop - start + 1) =
      (if stop - start + 1 = 2 ^ 63 then - (2 ^ 63) else stop - start + 1)"
  proof (cases "stop - start + 1 = 2 ^ 63")
    case True
    then show ?thesis by (simp only: True) simp
  next
    case False
    then have "- (2 ^ 63) \<le> stop - start + 1" "stop - start + 1 < 2 ^ 63" using assms by simp_all
    then have "signed_take_bit 63 (stop - start + 1) = stop - start + 1"
      by (simp add: signed_take_bit_int_eq_self)
    with False show ?thesis by simp
  qed
  ultimately show ?thesis
    unfolding range_too_long_def w maxRangeItems_def using assms by simp
qed

lemma validateRange_ok:
  "validateRange name parts = ok \<longleftrightarrow>
    (\<exists>a b start stop. parts = [a, b, start, stop] \<and>
      (\<exists>i j. atoi start = Some i \<and> atoi stop = Some j \<and> 0 \<le> i \<and> i \<le> j \<and> \<not> range_too_long i j))"
proof (cases "length parts = 4")
  case True
  then obtain a b c d where "parts = [a, b, c, d]"
    by (auto simp: eval_nat_numeral length_Suc_conv)
  then show ?thesis by (auto simp: validateRange_def not_less split: option.splits if_splits)
next
  case False
  then show ?thesis by (auto simp: validateRange_def)
qed

text \<open>The options of a scan, in pairs.\<close>

definition pair_tokens :: "(string \<times> string) list \<Rightarrow> string list" where
  "pair_tokens ps = concat (map (\<lambda>(o1, v). [o1, v]) ps)"

definition scan_pair_ok :: "unicode \<Rightarrow> string \<times> string \<Rightarrow> bool" where
  "scan_pair_ok U p \<longleftrightarrow> (to_upper U (fst p) = ''MATCH'' \<and> snd p \<noteq> []) \<or>
    (to_upper U (fst p) = ''COUNT'' \<and> (\<exists>n. atoi (snd p) = Some n \<and> 1 \<le> n \<and> n \<le> 500))"

definition count_options :: "unicode \<Rightarrow> (string \<times> string) list \<Rightarrow> nat" where
  "count_options U ps = length (filter (\<lambda>p. to_upper U (fst p) = ''COUNT'') ps)"

lemma pair_tokens_simps [simp]:
  "pair_tokens [] = []" "pair_tokens (p # ps) = fst p # snd p # pair_tokens ps"
  by (simp_all add: pair_tokens_def case_prod_beta)

lemma scan_options_ok:
  "scan_options U name seen rest = ok \<Longrightarrow>
    \<exists>ps. rest = pair_tokens ps \<and> list_all (scan_pair_ok U) ps \<and> count_options U ps = (if seen then 0 else 1)"
proof (induction U name seen rest rule: scan_options.induct)
  case (1 U name seen)
  then show ?case by (intro exI[of _ "[]"]) (simp add: count_options_def split: if_splits)
next
  case (2 U name seen opt rest)
  consider (m) p r where "to_upper U opt = ''MATCH''" "rest = p # r" "p \<noteq> []" "scan_options U name seen r = ok"
    | (c) p r n where "to_upper U opt = ''COUNT''" "rest = p # r" "\<not> seen" "atoi p = Some n" "1 \<le> n"
        "n \<le> 500" "scan_options U name True r = ok"
    using "2.prems" by (auto simp: maxScanCount_def split: if_splits list.splits option.splits)
  then show ?case
  proof cases
    case m
    then obtain ps where "r = pair_tokens ps" "list_all (scan_pair_ok U) ps"
        "count_options U ps = (if seen then 0 else 1)"
      using "2.IH"(1)[of p r] by auto
    then show ?thesis
      using m scan_pair_ok_def[of U "(opt, p)"] by (intro exI[of _ "(opt, p) # ps"]) (simp add: count_options_def)
  next
    case c
    then obtain ps where "r = pair_tokens ps" "list_all (scan_pair_ok U) ps" "count_options U ps = 0"
      using "2.IH"(2)[of p r n] by (auto simp: maxScanCount_def)
    then show ?thesis
      using c scan_pair_ok_def[of U "(opt, p)"] by (intro exI[of _ "(opt, p) # ps"]) (simp add: count_options_def)
  qed
qed

text \<open>What the limits ask of a command: at most 500 items of a range or a step of a scan.\<close>

definition range_commands :: "string set" where "range_commands = {''LRANGE'', ''ZRANGE'', ''ZREVRANGE''}"

definition bounded_command :: "unicode \<Rightarrow> string list \<Rightarrow> bool" where
  "bounded_command U parts \<longleftrightarrow>
    (let name = to_upper U (hd parts) in
     (\<exists>lo hi. map_of fixedArity name = Some (lo, hi) \<and> lo \<le> length parts \<and> length parts \<le> hi) \<or>
     (name \<in> range_commands \<and> length parts = 4 \<and>
       (\<exists>i j. atoi (parts ! 2) = Some i \<and> atoi (parts ! 3) = Some j \<and> 0 \<le> i \<and> i \<le> j \<and> j - i < 500)) \<or>
     (\<exists>n ps. (name = ''SCAN'' \<and> n = 2 \<or> name \<in> {''HSCAN'', ''SSCAN'', ''ZSCAN''} \<and> n = 3)
       \<and> n \<le> length parts \<and> parse_uint64 (parts ! (n - 1)) \<noteq> None
       \<and> drop n parts = pair_tokens ps \<and> list_all (scan_pair_ok U) ps \<and> count_options U ps = 1))"

text \<open>The one range whose 64-bit length \<open>stop-start+1\<close> wraps around: from 0 to the largest integer.\<close>

definition full_range :: "unicode \<Rightarrow> string list \<Rightarrow> bool" where
  "full_range U parts \<longleftrightarrow> to_upper U (hd parts) \<in> range_commands \<and> length parts = 4
    \<and> atoi (parts ! 2) = Some 0 \<and> atoi (parts ! 3) = Some (2 ^ 63 - 1)"

lemma full_range_unbounded: "full_range U parts \<Longrightarrow> \<not> bounded_command U parts"
  by (auto simp: full_range_def bounded_command_def Let_def range_commands_def fixedArity_def)

lemma validateScan_ok:
  assumes "validateScan U name parts n = ok"
  shows "n \<le> length parts \<and> parse_uint64 (parts ! (n - 1)) \<noteq> None \<and>
    (\<exists>ps. drop n parts = pair_tokens ps \<and> list_all (scan_pair_ok U) ps \<and> count_options U ps = 1)"
  using assms scan_options_ok[of U name False "drop n parts"]
  by (auto simp: validateScan_def not_less split: if_splits)

lemma validateRange_bounded:
  assumes "validateRange name parts = ok"
  shows "length parts = 4 \<and> (\<exists>i j. atoi (parts ! 2) = Some i \<and> atoi (parts ! 3) = Some j \<and> 0 \<le> i \<and> i \<le> j
     \<and> (j - i < 500 \<or> i = 0 \<and> j = 2 ^ 63 - 1))"
proof -
  obtain a b c d i j where p: "parts = [a, b, c, d]" "atoi c = Some i" "atoi d = Some j" "0 \<le> i" "i \<le> j"
      "\<not> range_too_long i j"
    using assms unfolding validateRange_ok by blast
  have "j < 2 ^ 63" using atoi_range[OF p(3)] by simp
  then have "j - i < 500 \<or> i = 0 \<and> j = 2 ^ 63 - 1"
    using range_too_long_iff[OF p(4,5)] p(4-6) by auto
  with p show ?thesis by (intro conjI exI[of _ i] exI[of _ j]) simp_all
qed

lemma validate_tokens_bounded:
  assumes "validate_tokens U parts = ok"
  shows "parts \<noteq> [] \<and> (bounded_command U parts \<or> full_range U parts)"
proof -
  obtain first rest where p: "parts = first # rest"
    using assms by (cases parts) (simp_all add: validate_tokens_def)
  let ?name = "to_upper U first"
  show ?thesis
  proof (cases "map_of fixedArity ?name")
    case (Some b)
    then show ?thesis
      using assms p by (cases b) (auto simp: validate_tokens_def bounded_command_def Let_def split: if_splits)
  next
    case None
    consider "?name \<in> {''LRANGE'', ''ZRANGE'', ''ZREVRANGE''}" "validateRange ?name parts = ok"
      | "?name = ''SCAN''" "validateScan U ?name parts 2 = ok"
      | "?name \<in> {''HSCAN'', ''SSCAN'', ''ZSCAN''}" "validateScan U ?name parts 3 = ok"
      using assms None p unfolding validate_tokens_def Let_def p list.case by (auto split: if_splits)
    then show ?thesis
    proof cases
      case 1
      then show ?thesis
        using validateRange_bounded[OF 1(2)] unfolding bounded_command_def full_range_def range_commands_def Let_def p list.sel by blast
    next
      case 2
      then show ?thesis
        using validateScan_ok[OF 2(2)] unfolding bounded_command_def Let_def p list.sel by blast
    next
      case 3
      then show ?thesis
        using validateScan_ok[OF 3(2)] unfolding bounded_command_def Let_def p list.sel by blast
    qed
  qed
qed

lemma redis_ok_iff:
  "ValidateReadOnlyCommand U c = ok \<longleftrightarrow>
    trim_space c \<noteq> [] \<and> length (trim_space c) \<le> maxCommandLength
    \<and> \<not> contains_any (trim_space c) redis_separators
    \<and> validate_tokens U (str_fields (trim_space c)) = ok"
  by (auto simp: ValidateReadOnlyCommand_def Let_def)

lemma scan_options_no_panic: "scan_options U name seen rest \<noteq> Inl IndexPanic"
  by (induction U name seen rest rule: scan_options.induct) (auto split: list.splits option.splits)

lemma validate_tokens_no_panic:
  assumes "parts \<noteq> []"
  shows "validate_tokens U parts \<noteq> Inl IndexPanic"
proof -
  have "validateRange name ps \<noteq> Inl IndexPanic" for name ps
    by (simp add: validateRange_def split: option.splits)
  moreover have "validateScan U name ps n \<noteq> Inl IndexPanic" for name ps n
    using scan_options_no_panic by (simp add: validateScan_def)
  ultimately show ?thesis
    using assms by (auto simp: validate_tokens_def Let_def neq_Nil_conv split: option.splits if_splits)
qed

definition redis_admitted :: "unicode \<Rightarrow> RedisInput \<Rightarrow> bool" where
  "redis_admitted U q \<longleftrightarrow> ValidateReadOnlyCommand U (Command q) = ok \<and> trim_space (Command q) = Command q"

lemma Redis_Query_cases:
  obtains (refused) e where "Redis_Query U s i st = (Inl (ValidateCommand e), st)"
      "ValidateReadOnlyCommand U (trim_space (Command i)) = Inl e"
  | (asked) q line where "q = i\<lparr>Command := trim_space (Command i)\<rparr>" "redis_admitted U q"
      "Redis_Query U s i st = (bind_err RedisClientError (redis_client s (sent st @ [q])) Inr,
         write_log (redis_logger s) line (st\<lparr>sent := sent st @ [q]\<rparr>))"
proof (cases "ValidateReadOnlyCommand U (trim_space (Command i))")
  case (Inl e)
  then show ?thesis by (auto intro!: refused simp: Redis_Query_def Let_def)
next
  case (Inr u)
  then show ?thesis
    using asked[of "i\<lparr>Command := trim_space (Command i)\<rparr>"]
    by (auto simp: Redis_Query_def Let_def send_def redis_admitted_def)
qed

interpretation redis: guarded_query "Redis_Query U s" "redis_admitted U" for U s
proof unfold_locales
  show "\<exists>qs. sent (snd (Redis_Query U s i st)) = sent st @ qs \<and> list_all (redis_admitted U) qs" for i st
    by (cases rule: Redis_Query_cases[of U s i st]) auto
  show "is_ok (fst (Redis_Query U s i st)) \<Longrightarrow> sent (snd (Redis_Query U s i st)) \<noteq> sent st" for i st
    by (cases rule: Redis_Query_cases[of U s i st]) auto
qed

section \<open>Properties\<close>

text \<open>C24: An accepted Redis command has no separator, and it is bounded (a fixed command within its token
  counts, a range of at most 500 items, or a scan with exactly one COUNT, of 1 to 500) unless it is the
  range from 0 to the largest 64-bit integer, whose length wraps around; that range is not bounded.\<close>

theorem redis_accepted_bounded:
  assumes "ValidateReadOnlyCommand U c = ok"
  shows "(bounded_command U (str_fields (trim_space c)) \<longleftrightarrow> \<not> full_range U (str_fields (trim_space c)))
    \<and> length (trim_space c) \<le> 4096 \<and> CHR '';'' \<notin> set (trim_space c) \<and> CHR 0x0A \<notin> set (trim_space c)"
  using assms validate_tokens_bounded[of U "str_fields (trim_space c)"] full_range_unbounded[of U "str_fields (trim_space c)"]
  by (auto simp: redis_ok_iff maxCommandLength_def contains_any_iff redis_separators_def)

theorem redis_accepted_bounded_witness:
  "bounded_command sample_unicode (str_fields (trim_space '' hscan h 0 match a* count 20''))
   \<and> \<not> bounded_command sample_unicode (str_fields (trim_space ''LRANGE k 0 9223372036854775807''))"
proof
  have "ValidateReadOnlyCommand sample_unicode '' hscan h 0 match a* count 20'' = ok" by code_simp
  moreover have "\<not> full_range sample_unicode (str_fields (trim_space '' hscan h 0 match a* count 20''))" by code_simp
  ultimately show "bounded_command sample_unicode (str_fields (trim_space '' hscan h 0 match a* count 20''))"
    using redis_accepted_bounded by blast
  have "ValidateReadOnlyCommand sample_unicode ''LRANGE k 0 9223372036854775807'' = ok" by code_simp
  moreover have "full_range sample_unicode (str_fields (trim_space ''LRANGE k 0 9223372036854775807''))" by code_simp
  ultimately show "\<not> bounded_command sample_unicode (str_fields (trim_space ''LRANGE k 0 9223372036854775807''))"
    using redis_accepted_bounded by blast
qed

text \<open>The 64-bit length \<open>stop-start+1\<close> wraps around: the whole list, 2^63 items, is accepted as a
  range of at most 500, while a range of 501 is refused.\<close>

theorem redis_range_overflow:
  "ValidateReadOnlyCommand sample_unicode ''LRANGE k 0 9223372036854775807'' = ok \<and>
   ValidateReadOnlyCommand sample_unicode ''LRANGE k 0 500'' = Inl (RangeStop ''LRANGE'')"
proof
  show "ValidateReadOnlyCommand sample_unicode ''LRANGE k 0 9223372036854775807'' = ok" by code_simp
  show "ValidateReadOnlyCommand sample_unicode ''LRANGE k 0 500'' = Inl (RangeStop ''LRANGE'')" by code_simp
qed

text \<open>The validator never panics: a command that is not blank has a first token.\<close>

theorem redis_validator_no_panic: "ValidateReadOnlyCommand U c \<noteq> Inl IndexPanic"
  using fields_trim_nonempty[of c] validate_tokens_no_panic[of "str_fields (trim_space c)" U]
  by (auto simp: ValidateReadOnlyCommand_def Let_def)

text \<open>Whatever it is asked, the Redis service passes on to its client only trimmed commands that the
  validator accepts.\<close>

theorem redis_service_guard:
  assumes "reach (\<lambda>st. sent st = []) (\<lambda>st st'. \<exists>i. st' = snd (Redis_Query U s i st)) st"
    and "q \<in> set (sent st)"
  shows "ValidateReadOnlyCommand U (Command q) = ok \<and> trim_space (Command q) = Command q"
  using redis.session_admitted[of U s st] assms
  by (auto simp: redis.asks_def[abs_def] list_all_iff redis_admitted_def)

definition sample_redis :: "unit RedisService" where
  "sample_redis = \<lparr>redis_client = (\<lambda>_. Inr \<lparr>RedisJSON = ''1'', RedisElapsedMS = 1\<rparr>),
     redis_logger = True, redis_hash8 = (\<lambda>s. take 2 s), redis_duration = 4\<rparr>"

theorem redis_service_guard_witness:
  "ValidateReadOnlyCommand sample_unicode ''get k'' = ok"
proof -
  let ?st = "snd (Redis_Query sample_unicode sample_redis \<lparr>Command = '' get k''\<rparr> empty_session)"
  have s: "sent ?st = [\<lparr>Command = ''get k''\<rparr>]" by code_simp
  have r: "reach (\<lambda>st. sent st = []) (\<lambda>st st'. \<exists>i. st' = snd (Redis_Query sample_unicode sample_redis i st)) ?st"
    by (rule reach_step[OF reach_start]) (auto simp: empty_session_def)
  show ?thesis using redis_service_guard[OF r, of "\<lparr>Command = ''get k''\<rparr>"] by (simp add: s)
qed

end
