(* ===== verification/RedisInspect.thy ===== *)
theory RedisInspect
  imports Redis
begin

text \<open>
  \<open>internal/redisinspect\<close>: the inspector of one key, a client of the Redis service. It asks for the
  type, the time to live and, when the type has a bounded read, the value.
\<close>

section \<open>Input and output\<close>

record InspectInput =
  Key :: string
  MaxItems :: int

text \<open>The reason the value is missing; the output carries its text.\<close>

datatype 'e value_error =
    NoValueError
  | ValueQueryFailed 'e
  | ValueNotDecoded
  | ScanShape
  | TypeNotSupported

record 'e InspectOutput =
  OutKey :: string
  OutType :: string
  TTLSeconds :: int
  OutValue :: goany
  NextCursor :: string
  Truncated :: bool
  ValueError :: "'e value_error"

datatype key_error = KeyLength | KeyCharacter

datatype 'e inspect_error =
    BadKey key_error
  | MaxItemsOutOfRange
  | TypeQueryFailed 'e
  | TypeNotDecoded
  | TTLQueryFailed 'e
  | TTLNotDecoded

section \<open>The operations\<close>

definition validateKey :: "string \<Rightarrow> (key_error, unit) result" where
  "validateKey key =
    guard_err (key = [] \<or> 512 < length key) KeyLength (
    guard_err (list_ex (\<lambda>r. is_space r \<or> is_control r \<or> r = byte_val CHR '';'') (runes key)) KeyCharacter
    ok)"

definition valueCommand :: "unicode \<Rightarrow> string \<Rightarrow> string \<Rightarrow> int \<Rightarrow> string" where
  "valueCommand U redisType key maxItems =
    (let t = to_lower U redisType in
     if t = ''string'' then ''GET '' @ key
     else if t = ''list'' then ''LRANGE '' @ key @ '' 0 '' @ itoa (maxItems - 1)
     else if t = ''hash'' then ''HSCAN '' @ key @ '' 0 COUNT '' @ itoa maxItems
     else if t = ''set'' then ''SSCAN '' @ key @ '' 0 COUNT '' @ itoa maxItems
     else if t = ''zset'' then ''ZSCAN '' @ key @ '' 0 COUNT '' @ itoa maxItems
     else [])"

text \<open>
  \<open>fmt.Sprint\<close> of a decoded value; how it prints a \<open>float64\<close> is the parameter \<open>float_text\<close>.
\<close>

fun sprint :: "(string \<Rightarrow> string) \<Rightarrow> goany \<Rightarrow> string" where
  "sprint float_text ANil = ''<nil>''"
| "sprint float_text (ABool b) = (if b then ''true'' else ''false'')"
| "sprint float_text (ANum n) = float_text n"
| "sprint float_text (AStr s) = s"
| "sprint float_text (ASlice vs) = ''['' @ join '' '' (map (sprint float_text) vs) @ '']''"
| "sprint float_text (AMap m) = ''map['' @ join '' '' (map (\<lambda>(k, t). k @ '':'' @ t)
     (sort_keys (map (\<lambda>(k, v). (k, sprint float_text v)) m))) @ '']''"

definition decodeValue :: "(string \<Rightarrow> string) \<Rightarrow> string \<Rightarrow> 'e InspectOutput
    \<Rightarrow> 'e value_error \<times> 'e InspectOutput" where
  "decodeValue float_text raw output =
    (case unmarshal_any raw of
       None \<Rightarrow> (ValueNotDecoded, output)
     | Some value \<Rightarrow>
       if OutType output \<in> {''hash'', ''set'', ''zset''} then
         (case value of
            ASlice [cursor, items] \<Rightarrow>
              (let next = sprint float_text cursor in
               (NoValueError, output\<lparr>NextCursor := next, Truncated := (next \<noteq> ''0''), OutValue := items\<rparr>))
          | _ \<Rightarrow> (ScanShape, output))
       else (NoValueError, output\<lparr>OutValue := value\<rparr>))"

text \<open>The log line, when the service has a logger.\<close>

record inspect_log =
  ilog_key_hash :: string
  ilog_type :: string
  ilog_ttl :: int
  ilog_max_items :: int
  ilog_value_error :: bool

record InspectService =
  is_logger :: bool
  is_hash8 :: "string \<Rightarrow> string"
  is_float_text :: "string \<Rightarrow> string"

definition effective_items :: "InspectInput \<Rightarrow> int" where
  "effective_items input = (if MaxItems input = 0 then 100 else MaxItems input)"

definition type_question :: "string \<Rightarrow> RedisInput" where
  "type_question key = \<lparr>Command = ''TYPE '' @ key\<rparr>"

definition ttl_question :: "string \<Rightarrow> RedisInput" where
  "ttl_question key = \<lparr>Command = ''TTL '' @ key\<rparr>"

text \<open>The third query and its decoding.\<close>

definition inspect_value :: "unicode \<Rightarrow> InspectService \<Rightarrow> (RedisInput \<Rightarrow> 's \<Rightarrow> ('e, RedisOutput) result \<times> 's)
    \<Rightarrow> int \<Rightarrow> 'e InspectOutput \<Rightarrow> 's \<Rightarrow> 'e InspectOutput \<times> 's" where
  "inspect_value U s query maxItems output st =
    (let command = valueCommand U (OutType output) (OutKey output) maxItems in
     if command \<noteq> [] then
       (case query \<lparr>Command = command\<rparr> st of
          (Inl e, st') \<Rightarrow> (output\<lparr>ValueError := ValueQueryFailed e\<rparr>, st')
        | (Inr valueResult, st') \<Rightarrow>
          (case decodeValue (is_float_text s) (RedisJSON valueResult) output of
             (err, output') \<Rightarrow> (output'\<lparr>ValueError := err\<rparr>, st')))
     else if OutType output \<noteq> ''none'' then (output\<lparr>ValueError := TypeNotSupported\<rparr>, st)
     else (output, st))"

definition Inspect :: "unicode \<Rightarrow> InspectService \<Rightarrow> (RedisInput \<Rightarrow> 's \<Rightarrow> ('e, RedisOutput) result \<times> 's)
    \<Rightarrow> InspectInput \<Rightarrow> 's \<Rightarrow> ('e inspect_error, 'e InspectOutput) result \<times> 's \<times> inspect_log list" where
  "Inspect U s query input st =
    (case validateKey (Key input) of
       Inl e \<Rightarrow> (Inl (BadKey e), st, [])
     | Inr _ \<Rightarrow>
    (let maxItems = effective_items input in
     if maxItems < 1 \<or> 500 < maxItems then (Inl MaxItemsOutOfRange, st, [])
     else (case query (type_question (Key input)) st of
       (Inl e, st1) \<Rightarrow> (Inl (TypeQueryFailed e), st1, [])
     | (Inr typeResult, st1) \<Rightarrow>
    (case unmarshal decode_string (RedisJSON typeResult) [] of
       None \<Rightarrow> (Inl TypeNotDecoded, st1, [])
     | Some [] \<Rightarrow> (Inl TypeNotDecoded, st1, [])
     | Some (c # cs) \<Rightarrow>
    (case query (ttl_question (Key input)) st1 of
       (Inl e, st2) \<Rightarrow> (Inl (TTLQueryFailed e), st2, [])
     | (Inr ttlResult, st2) \<Rightarrow>
    (case unmarshal decode_int64 (RedisJSON ttlResult) 0 of
       None \<Rightarrow> (Inl TTLNotDecoded, st2, [])
     | Some ttl \<Rightarrow>
    (case inspect_value U s query maxItems
            \<lparr>OutKey = Key input, OutType = c # cs, TTLSeconds = ttl, OutValue = ANil, NextCursor = [],
             Truncated = False, ValueError = NoValueError\<rparr> st2 of
       (output, st3) \<Rightarrow>
         (Inr output, st3,
          if is_logger s then
            [\<lparr>ilog_key_hash = is_hash8 s (Key input), ilog_type = OutType output,
              ilog_ttl = TTLSeconds output, ilog_max_items = maxItems,
              ilog_value_error = (ValueError output \<noteq> NoValueError)\<rparr>]
          else []))))))))"

section \<open>The commands of the inspector\<close>

lemma validateKey_ok:
  assumes "validateKey key = ok"
  shows "key \<noteq> []" "length key \<le> 512" "no_space key" "\<not> contains_any key redis_separators"
proof -
  have runes: "\<not> is_space r \<and> \<not> is_control r \<and> r \<noteq> byte_val CHR '';''" if "r \<in> set (runes key)" for r
    using assms that by (auto simp: validateKey_def list_ex_iff)
  show "key \<noteq> []" "length key \<le> 512" using assms by (auto simp: validateKey_def)
  show "no_space key" using runes by (intro no_space_runes) blast
  have bad: "ascii c \<and> (is_control (byte_val c) \<or> c = CHR '';'')" if "c \<in> set redis_separators" for c
  proof -
    have "\<forall>c \<in> set redis_separators. ascii c \<and> (is_control (byte_val c) \<or> c = CHR '';'')" by code_simp
    with that show ?thesis by blast
  qed
  have "False" if c: "c \<in> set key" "c \<in> set redis_separators" for c
    using bad[OF c(2)] runes[OF ascii_in_runes[OF c(1)]] by auto
  then show "\<not> contains_any key redis_separators" by (auto simp: contains_any_iff)
qed

text \<open>The verbs, upper-cased.\<close>

lemma upper_verb:
  assumes "v \<in> {''TYPE'', ''TTL'', ''GET'', ''LRANGE'', ''HSCAN'', ''SSCAN'', ''ZSCAN'', ''COUNT''}"
  shows "to_upper U v = v" and "no_space v"
proof -
  have "\<forall>v \<in> set [''TYPE'', ''TTL'', ''GET'', ''LRANGE'', ''HSCAN'', ''SSCAN'', ''ZSCAN'', ''COUNT''].
      all_ascii v \<and> map upper_byte v = v \<and> no_space v"
    by code_simp
  moreover have "v \<in> set [''TYPE'', ''TTL'', ''GET'', ''LRANGE'', ''HSCAN'', ''SSCAN'', ''ZSCAN'', ''COUNT'']"
    using assms by (simp only: list.set)
  ultimately have v: "all_ascii v \<and> map upper_byte v = v \<and> no_space v" by (rule bspec)
  then show "to_upper U v = v" by (simp only: to_upper_ascii)
  from v show "no_space v" by (elim conjE)
qed

lemma itoa_word: "0 \<le> n \<Longrightarrow> itoa n \<noteq> [] \<and> no_space (itoa n)"
  by (simp add: itoa_nonneg no_space_format)

lemma length_format_nat: "0 \<le> n \<Longrightarrow> n < 1000 \<Longrightarrow> length (format_nat n) \<le> 3"
proof -
  have one: "length (format_nat d) = 1" if "d < 10" for d using that by (subst format_nat.simps) simp
  have more: "length (format_nat d) = Suc (length (format_nat (d div 10)))" if "10 \<le> d" for d
    using that by (subst format_nat.simps) simp
  assume "0 \<le> n" "n < 1000"
  then consider "n < 10" | "10 \<le> n" "n div 10 < 10" | "10 \<le> n" "10 \<le> n div 10" "n div 10 div 10 < 10"
    by linarith
  then show ?thesis by cases (simp_all add: one more)
qed

lemma digits_no_separator:
  assumes "0 \<le> n"
  shows "\<not> contains_any (itoa n) redis_separators"
proof -
  have "\<forall>c \<in> set redis_separators. \<not> digit_byte c" by code_simp
  then show ?thesis using format_nat_digits assms by (auto simp: contains_any_iff itoa_nonneg)
qed

text \<open>A command of words, accepted when its tokens are.\<close>

lemma words_accepted:
  assumes "ws \<noteq> []" "\<forall>w \<in> set ws. w \<noteq> [] \<and> no_space w \<and> \<not> contains_any w redis_separators"
    and "length (join '' '' ws) \<le> 4096" "validate_tokens U ws = ok"
  shows "ValidateReadOnlyCommand U (join '' '' ws) = ok \<and> trim_space (join '' '' ws) = join '' '' ws"
proof -
  have sep: "CHR '' '' \<notin> set redis_separators" by code_simp
  have join_set: "set (join '' '' vs) \<subseteq> insert CHR '' '' (\<Union> (set ` set vs))" for vs
    by (induction "'' ''" vs rule: join.induct) auto
  have "\<not> contains_any (join '' '' ws) redis_separators"
    using assms(2) join_set[of ws] sep by (fastforce simp: contains_any_iff)
  moreover have "trim_space (join '' '' ws) = join '' '' ws"
    using assms(1,2) by (intro trim_join) auto
  moreover have "str_fields (join '' '' ws) = ws"
    using assms(2) by (intro fields_join) auto
  moreover have "join '' '' ws \<noteq> []"
    using assms(1,2) by (cases ws; cases "tl ws") (auto simp: join_Cons)
  ultimately show ?thesis
    using assms(3,4) by (simp add: redis_ok_iff maxCommandLength_def)
qed

lemma verb_separators:
  "v \<in> {''TYPE'', ''TTL'', ''GET'', ''LRANGE'', ''HSCAN'', ''SSCAN'', ''ZSCAN'', ''COUNT'', ''0''}
    \<Longrightarrow> \<not> contains_any v redis_separators"
proof -
  have "\<forall>v \<in> set [''TYPE'', ''TTL'', ''GET'', ''LRANGE'', ''HSCAN'', ''SSCAN'', ''ZSCAN'', ''COUNT'', ''0''].
      \<not> contains_any v redis_separators"
    by code_simp
  moreover assume "v \<in> {''TYPE'', ''TTL'', ''GET'', ''LRANGE'', ''HSCAN'', ''SSCAN'', ''ZSCAN'', ''COUNT'', ''0''}"
  then have "v \<in> set [''TYPE'', ''TTL'', ''GET'', ''LRANGE'', ''HSCAN'', ''SSCAN'', ''ZSCAN'', ''COUNT'', ''0'']"
    by (simp only: list.set)
  ultimately show ?thesis by (rule bspec)
qed

lemma fixed_verbs:
  "map_of fixedArity ''TYPE'' = Some (2, 2)" "map_of fixedArity ''TTL'' = Some (2, 2)"
  "map_of fixedArity ''GET'' = Some (2, 2)" "map_of fixedArity ''LRANGE'' = None"
  "map_of fixedArity ''HSCAN'' = None" "map_of fixedArity ''SSCAN'' = None"
  "map_of fixedArity ''ZSCAN'' = None"
  by code_simp+

lemma simple_command:
  assumes "validateKey key = ok" "verb \<in> {''TYPE'', ''TTL'', ''GET''}"
  shows "ValidateReadOnlyCommand U (verb @ '' '' @ key) = ok
    \<and> trim_space (verb @ '' '' @ key) = verb @ '' '' @ key"
proof -
  have up: "to_upper U verb = verb" "no_space verb"
    by (rule upper_verb; use assms(2) in auto)+
  have sep: "\<not> contains_any verb redis_separators" by (rule verb_separators) (use assms(2) in auto)
  have "map_of fixedArity verb = Some (2, 2)" using assms(2) by (elim insertE) (simp_all add: fixed_verbs)
  then have tokens: "validate_tokens U [verb, key] = ok" by (simp add: validate_tokens_def up)
  have v: "verb \<noteq> [] \<and> length verb \<le> 4" using assms(2) by auto
  have "ValidateReadOnlyCommand U (join '' '' [verb, key]) = ok
      \<and> trim_space (join '' '' [verb, key]) = join '' '' [verb, key]"
    using validateKey_ok[OF assms(1)] up sep v by (intro words_accepted tokens) auto
  then show ?thesis by simp
qed

lemma range_command:
  assumes "validateKey key = ok" "1 \<le> m" "m \<le> 500"
  shows "ValidateReadOnlyCommand U (''LRANGE '' @ key @ '' 0 '' @ itoa (m - 1)) = ok
    \<and> trim_space (''LRANGE '' @ key @ '' 0 '' @ itoa (m - 1)) = ''LRANGE '' @ key @ '' 0 '' @ itoa (m - 1)"
proof -
  have z: "atoi ''0'' = Some 0" "no_space ''0''" by code_simp+
  have m: "atoi (itoa (m - 1)) = Some (m - 1)" using assms by (intro parse_itoa) simp_all
  have "\<not> range_too_long 0 (m - 1)" using assms by (subst range_too_long_iff) simp_all
  then have tokens: "validate_tokens U [''LRANGE'', key, ''0'', itoa (m - 1)] = ok"
    using z m assms upper_verb(1)[of "''LRANGE''" U] fixed_verbs(4)
    by (simp add: validate_tokens_def validateRange_def)
  have "length (itoa (m - 1)) \<le> 3" using assms length_format_nat[of "m - 1"] by (simp add: itoa_nonneg)
  then have len: "length (join '' '' [''LRANGE'', key, ''0'', itoa (m - 1)]) \<le> 4096"
    using validateKey_ok(2)[OF assms(1)] by simp
  have "ValidateReadOnlyCommand U (join '' '' [''LRANGE'', key, ''0'', itoa (m - 1)]) = ok \<and>
      trim_space (join '' '' [''LRANGE'', key, ''0'', itoa (m - 1)]) = join '' '' [''LRANGE'', key, ''0'', itoa (m - 1)]"
    using assms validateKey_ok[OF assms(1)] itoa_word[of "m - 1"] digits_no_separator[of "m - 1"]
      upper_verb(2)[of "''LRANGE''"] verb_separators[of "''LRANGE''"] verb_separators[of "''0''"] z(2)
    by (intro words_accepted tokens len) auto
  then show ?thesis by simp
qed

lemma scan_command:
  assumes "validateKey key = ok" "1 \<le> m" "m \<le> 500" "verb \<in> {''HSCAN'', ''SSCAN'', ''ZSCAN''}"
  shows "ValidateReadOnlyCommand U (verb @ '' '' @ key @ '' 0 COUNT '' @ itoa m) = ok
    \<and> trim_space (verb @ '' '' @ key @ '' 0 COUNT '' @ itoa m) = verb @ '' '' @ key @ '' 0 COUNT '' @ itoa m"
proof -
  let ?ws = "[verb, key, ''0'', ''COUNT'', itoa m]"
  have z: "parse_uint64 ''0'' = Some 0" "no_space ''0''" by code_simp+
  have m: "atoi (itoa m) = Some m" using assms by (intro parse_itoa) simp_all
  have verb: "to_upper U verb = verb" "no_space verb" "\<not> contains_any verb redis_separators" "verb \<noteq> []"
    subgoal by (rule upper_verb) (use assms(4) in auto)
    subgoal by (rule upper_verb) (use assms(4) in auto)
    subgoal by (rule verb_separators) (use assms(4) in auto)
    subgoal using assms(4) by auto
    done
  have "validateScan U verb ?ws 3 = ok"
    using z m assms upper_verb(1)[of "''COUNT''" U] by (simp add: validateScan_def maxScanCount_def)
  moreover have none: "map_of fixedArity verb = None" using assms(4) by (elim insertE) (simp_all add: fixed_verbs)
  ultimately have tokens: "validate_tokens U ?ws = ok"
    using verb(1) none assms(4) by (auto simp: validate_tokens_def Let_def)
  have "length (itoa m) \<le> 3" using assms length_format_nat[of m] by (simp add: itoa_nonneg)
  then have len: "length (join '' '' ?ws) \<le> 4096" using validateKey_ok(2)[OF assms(1)] assms(4) by auto
  have "ValidateReadOnlyCommand U (join '' '' ?ws) = ok \<and> trim_space (join '' '' ?ws) = join '' '' ?ws"
    using assms verb validateKey_ok[OF assms(1)] itoa_word[of m] digits_no_separator[of m]
      upper_verb(2)[of "''COUNT''"] verb_separators[of "''COUNT''"] verb_separators[of "''0''"] z(2)
    by (intro words_accepted tokens len) auto
  then show ?thesis by simp
qed

lemma value_command:
  assumes "validateKey key = ok" "1 \<le> m" "m \<le> 500" "valueCommand U ty key m \<noteq> []"
  shows "ValidateReadOnlyCommand V (valueCommand U ty key m) = ok
    \<and> trim_space (valueCommand U ty key m) = valueCommand U ty key m"
  using simple_command[OF assms(1), of "''GET''" V] range_command[OF assms(1-3), of V]
    scan_command[OF assms(1-3), of "''HSCAN''" V] scan_command[OF assms(1-3), of "''SSCAN''" V]
    scan_command[OF assms(1-3), of "''ZSCAN''" V] assms(4)
  by (simp add: valueCommand_def Let_def split: if_splits)

section \<open>The inspector as a client\<close>

text \<open>The questions of a run: those it may ask, in order; a run may stop after any of them.\<close>

definition inspect_questions :: "unicode \<Rightarrow> InspectInput \<Rightarrow> string \<Rightarrow> RedisInput list" where
  "inspect_questions U input ty =
    (let v = valueCommand U ty (Key input) (effective_items input) in
     [type_question (Key input), ttl_question (Key input)]
       @ (if v = [] then [] else [\<lparr>Command = v\<rparr>]))"

lemma decodeValue_keeps: "decodeValue ft raw output = (err, output') \<Longrightarrow>
    OutKey output' = OutKey output \<and> OutType output' = OutType output \<and> TTLSeconds output' = TTLSeconds output
      \<and> (\<forall>e. err \<noteq> ValueQueryFailed e)"
  by (auto simp: decodeValue_def Let_def split: option.splits if_splits goany.splits list.splits)

text \<open>What the third question leaves of the output.\<close>

lemma inspect_value_cases:
  assumes "inspect_value U s query m output st = (output', st')" "ValueError output = NoValueError"
  defines "v \<equiv> valueCommand U (OutType output) (OutKey output) m"
  shows "st' = (if v = [] then st else snd (query \<lparr>Command = v\<rparr> st))"
    and "OutKey output' = OutKey output" "OutType output' = OutType output" "TTLSeconds output' = TTLSeconds output"
    and "ValueError output' = ValueQueryFailed e \<Longrightarrow> v \<noteq> [] \<and> fst (query \<lparr>Command = v\<rparr> st) = Inl e"
proof -
  consider (none) "v = []" | (err) e' where "v \<noteq> []" "query \<lparr>Command = v\<rparr> st = (Inl e', st')"
    | (ok) r where "v \<noteq> []" "query \<lparr>Command = v\<rparr> st = (Inr r, st')"
    using assms(1) unfolding inspect_value_def v_def Let_def
    by (auto split: prod.splits sum.splits if_splits)
  then have "st' = (if v = [] then st else snd (query \<lparr>Command = v\<rparr> st)) \<and> OutKey output' = OutKey output
    \<and> OutType output' = OutType output \<and> TTLSeconds output' = TTLSeconds output
    \<and> (ValueError output' = ValueQueryFailed e \<longrightarrow> v \<noteq> [] \<and> fst (query \<lparr>Command = v\<rparr> st) = Inl e)"
  proof cases
    case none
    then show ?thesis using assms(1,2) by (auto simp: inspect_value_def v_def Let_def split: if_splits)
  next
    case err
    then show ?thesis using assms(1) by (auto simp: inspect_value_def v_def Let_def)
  next
    case ok
    obtain err o' where d: "decodeValue (is_float_text s) (RedisJSON r) output = (err, o')" by fastforce
    then show ?thesis
      using assms(1) ok decodeValue_keeps[OF d] by (auto simp: inspect_value_def v_def Let_def)
  qed
  then show "st' = (if v = [] then st else snd (query \<lparr>Command = v\<rparr> st))"
    "OutKey output' = OutKey output" "OutType output' = OutType output" "TTLSeconds output' = TTLSeconds output"
    "ValueError output' = ValueQueryFailed e \<Longrightarrow> v \<noteq> [] \<and> fst (query \<lparr>Command = v\<rparr> st) = Inl e"
    by blast+
qed

text \<open>The runs of \<open>Inspect\<close>: refused before any question, stopped after one or two, or complete.\<close>

lemma Inspect_cases:
  obtains (refused) e where "Inspect U s query input st = (Inl e, st, [])"
      "\<nexists>x. e = TypeQueryFailed x \<or> e = TTLQueryFailed x"
  | (type_failed) e st1 logs where "validateKey (Key input) = ok"
      "1 \<le> effective_items input" "effective_items input \<le> 500"
      "query (type_question (Key input)) st = (e, st1)"
      "Inspect U s query input st = (Inl (case e of Inl x \<Rightarrow> TypeQueryFailed x | Inr _ \<Rightarrow> TypeNotDecoded), st1, logs)"
  | (ttl_failed) t e st1 st2 logs where "validateKey (Key input) = ok"
      "1 \<le> effective_items input" "effective_items input \<le> 500"
      "query (type_question (Key input)) st = (Inr t, st1)"
      "query (ttl_question (Key input)) st1 = (e, st2)"
      "Inspect U s query input st = (Inl (case e of Inl x \<Rightarrow> TTLQueryFailed x | Inr _ \<Rightarrow> TTLNotDecoded), st2, logs)"
  | (complete) t ty l ttl st1 st2 out st3 logs where "validateKey (Key input) = ok"
      "1 \<le> effective_items input" "effective_items input \<le> 500"
      "query (type_question (Key input)) st = (Inr t, st1)"
      "unmarshal decode_string (RedisJSON t) [] = Some ty" "ty \<noteq> []"
      "query (ttl_question (Key input)) st1 = (Inr l, st2)"
      "unmarshal decode_int64 (RedisJSON l) 0 = Some ttl"
      "inspect_value U s query (effective_items input)
         \<lparr>OutKey = Key input, OutType = ty, TTLSeconds = ttl, OutValue = ANil, NextCursor = [],
          Truncated = False, ValueError = NoValueError\<rparr> st2 = (out, st3)"
      "Inspect U s query input st = (Inr out, st3, logs)"
proof (cases "validateKey (Key input) = ok \<and> 1 \<le> effective_items input \<and> effective_items input \<le> 500")
  case False
  then show ?thesis
    using refused by (cases "validateKey (Key input)") (auto simp: Inspect_def Let_def not_le)
next
  case True
  then have go: "validateKey (Key input) = ok" "1 \<le> effective_items input" "effective_items input \<le> 500"
    and lim: "\<not> (effective_items input < 1 \<or> 500 < effective_items input)" by auto
  obtain e st1 where q1: "query (type_question (Key input)) st = (e, st1)" by fastforce
  show ?thesis
  proof (cases "\<exists>t ty. e = Inr t \<and> unmarshal decode_string (RedisJSON t) [] = Some ty \<and> ty \<noteq> []")
    case False
    have "Inspect U s query input st = (Inl (case e of Inl x \<Rightarrow> TypeQueryFailed x | Inr _ \<Rightarrow> TypeNotDecoded), st1, [])"
    proof (cases e)
      case (Inr t)
      then consider "unmarshal decode_string (RedisJSON t) [] = None"
        | "unmarshal decode_string (RedisJSON t) [] = Some []"
        using False by (cases "unmarshal decode_string (RedisJSON t) []") auto
      then show ?thesis by cases (simp_all add: Inspect_def Let_def go lim q1 Inr)
    qed (simp add: Inspect_def Let_def go lim q1)
    then show ?thesis by (rule type_failed[OF go q1])
  next
    case True
    then obtain t ty where e: "e = Inr t" and ty: "unmarshal decode_string (RedisJSON t) [] = Some ty" "ty \<noteq> []"
      by blast
    obtain e2 st2 where q2: "query (ttl_question (Key input)) st1 = (e2, st2)" by fastforce
    show ?thesis
    proof (cases "\<exists>l ttl. e2 = Inr l \<and> unmarshal decode_int64 (RedisJSON l) 0 = Some ttl")
      case False
      obtain c cs where cs: "ty = c # cs" using ty(2) by (cases ty) auto
      have "Inspect U s query input st = (Inl (case e2 of Inl x \<Rightarrow> TTLQueryFailed x | Inr _ \<Rightarrow> TTLNotDecoded), st2, [])"
      proof (cases e2)
        case (Inr l)
        then have "unmarshal decode_int64 (RedisJSON l) 0 = None"
          using False by (cases "unmarshal decode_int64 (RedisJSON l) 0") auto
        then show ?thesis by (simp add: Inspect_def Let_def go lim q1 q2 e ty(1) cs Inr)
      qed (simp add: Inspect_def Let_def go lim q1 q2 e ty(1) cs)
      then show ?thesis by (rule ttl_failed[OF go q1[unfolded e] q2])
    next
      case True
      then obtain l ttl where e2: "e2 = Inr l" and l: "unmarshal decode_int64 (RedisJSON l) 0 = Some ttl" by blast
      obtain out st3 where v: "inspect_value U s query (effective_items input)
         \<lparr>OutKey = Key input, OutType = ty, TTLSeconds = ttl, OutValue = ANil, NextCursor = [],
          Truncated = False, ValueError = NoValueError\<rparr> st2 = (out, st3)" by fastforce
      show ?thesis
        using complete[OF go q1[unfolded e] ty q2[unfolded e2] l v] ty v
        by (cases ty) (simp_all add: Inspect_def Let_def go lim q1 q2 e e2 l)
    qed
  qed
qed

text \<open>A run asks a beginning of its questions; an answer means that the first one was answered.\<close>

definition inspect_exec :: "unicode \<Rightarrow> InspectService \<Rightarrow> (RedisInput \<Rightarrow> 's \<Rightarrow> ('e, RedisOutput) result \<times> 's)
    \<Rightarrow> InspectInput \<Rightarrow> 's \<Rightarrow> ('e inspect_error, 'e InspectOutput) result \<times> 's" where
  "inspect_exec U s query input st = (case Inspect U s query input st of (r, st', _) \<Rightarrow> (r, st'))"

lemma inspect_exec_asks:
  assumes "inspect_exec U s query input st = (r, st')"
  shows "\<exists>is. st' = fold (\<lambda>i st. snd (query i st)) is st \<and>
    (case r of Inl _ \<Rightarrow> True
     | Inr out \<Rightarrow> is = inspect_questions U input (OutType out) \<and> is_ok (fst (query (type_question (Key input)) st)))"
proof (cases rule: Inspect_cases[of U s query input st])
  case (refused e)
  then show ?thesis using assms by (intro exI[of _ "[]"]) (auto simp: inspect_exec_def)
next
  case (type_failed e st1 logs)
  then show ?thesis
    using assms by (intro exI[of _ "[type_question (Key input)]"]) (auto simp: inspect_exec_def)
next
  case (ttl_failed t e st1 st2 logs)
  then show ?thesis
    using assms
    by (intro exI[of _ "[type_question (Key input), ttl_question (Key input)]"]) (auto simp: inspect_exec_def)
next
  case (complete t ty l ttl st1 st2 out st3 logs)
  note v = inspect_value_cases[OF complete(9)]
  have r: "r = Inr out" "st' = st3" using assms complete(10) by (simp_all add: inspect_exec_def)
  show ?thesis
    using v(1,3) complete(4,7) r
    by (intro exI[of _ "inspect_questions U input ty"])
      (simp add: inspect_questions_def type_question_def ttl_question_def Let_def)
qed

interpretation inspect: guarded_query "inspect_exec U s (Redis_Query U r)" "redis_admitted U" for U s r
proof unfold_locales
  fix i st
  obtain x st' where run: "inspect_exec U s (Redis_Query U r) i st = (x, st')" by fastforce
  from inspect_exec_asks[OF run] obtain "is" where "is": "st' = fold (\<lambda>i st. snd (Redis_Query U r i st)) is st"
    and ans: "case x of Inl _ \<Rightarrow> True | Inr out \<Rightarrow> is = inspect_questions U i (OutType out)
      \<and> is_ok (fst (Redis_Query U r (type_question (Key i)) st))"
    by blast
  note asked = redis.ask_all_sent[unfolded redis.ask_all_def, of U r "is" st]
  show "\<exists>qs. sent (snd (inspect_exec U s (Redis_Query U r) i st)) = sent st @ qs \<and> list_all (redis_admitted U) qs"
    using asked unfolding run "is" snd_conv .
  assume "is_ok (fst (inspect_exec U s (Redis_Query U r) i st))"
  then obtain js where js: "is = type_question (Key i) # js" "is_ok (fst (Redis_Query U r (type_question (Key i)) st))"
    using ans run by (auto simp: inspect_questions_def Let_def elim!: is_okE)
  show "sent (snd (inspect_exec U s (Redis_Query U r) i st)) \<noteq> sent st"
    using redis.ask_all_answer[unfolded redis.ask_all_def, OF js(2), of js] unfolding run "is" js(1) snd_conv .
qed

section \<open>Properties\<close>

text \<open>Every command the inspector builds, for a key it accepts, an item limit it accepts and any
  type the server reports, passes the Redis validator unchanged.\<close>

theorem inspect_commands_accepted:
  assumes "validateKey (Key input) = ok" "1 \<le> effective_items input" "effective_items input \<le> 500"
    and "q \<in> set (inspect_questions U input ty)"
  shows "ValidateReadOnlyCommand V (Command q) = ok \<and> trim_space (Command q) = Command q"
  using simple_command[OF assms(1), of "''TYPE''" V] simple_command[OF assms(1), of "''TTL''" V]
    value_command[OF assms(1-3), of U ty V] assms(4)
  by (auto simp: inspect_questions_def type_question_def ttl_question_def Let_def split: if_splits)

theorem inspect_commands_accepted_witness:
  "ValidateReadOnlyCommand sample_unicode ''ZSCAN a:1 0 COUNT 100'' = ok"
proof -
  have "\<lparr>Command = ''ZSCAN a:1 0 COUNT 100''\<rparr>
      \<in> set (inspect_questions sample_unicode \<lparr>Key = ''a:1'', MaxItems = 0\<rparr> ''zset'')"
    by code_simp
  then have "ValidateReadOnlyCommand sample_unicode (Command \<lparr>Command = ''ZSCAN a:1 0 COUNT 100''\<rparr>) = ok"
    by (rule inspect_commands_accepted[THEN conjunct1, rotated 3]) code_simp+
  then show ?thesis by simp
qed

text \<open>C25: The Redis service never refuses a question of the inspector: neither does an inspection fail
  with a validation error, nor does its output report one for the value.\<close>

theorem inspect_never_refused:
  "case inspect_exec U s (Redis_Query U r) input st of
     (Inl e, _) \<Rightarrow> (\<forall>x. e \<noteq> TypeQueryFailed (ValidateCommand x) \<and> e \<noteq> TTLQueryFailed (ValidateCommand x))
   | (Inr out, _) \<Rightarrow> (\<forall>x. ValueError out \<noteq> ValueQueryFailed (ValidateCommand x))"
proof -
  have asked: "fst (Redis_Query U r q st0) \<noteq> Inl (ValidateCommand x)"
    if "ValidateReadOnlyCommand U (Command q) = ok \<and> trim_space (Command q) = Command q" for q st0 x
    using that by (cases rule: Redis_Query_cases[of U r q st0]; cases "redis_client r (sent st0 @ [q])") auto
  show ?thesis
  proof (cases rule: Inspect_cases[of U s "Redis_Query U r" input st])
    case (refused e)
    then show ?thesis by (auto simp: inspect_exec_def)
  next
    case (type_failed e st1 logs)
    then show ?thesis
      using asked[of "type_question (Key input)" st] simple_command[OF type_failed(1), of "''TYPE''" U]
      by (cases e) (auto simp: inspect_exec_def type_question_def)
  next
    case (ttl_failed t e st1 st2 logs)
    then show ?thesis
      using asked[of "ttl_question (Key input)" st1] simple_command[OF ttl_failed(1), of "''TTL''" U]
      by (cases e) (auto simp: inspect_exec_def ttl_question_def)
  next
    case (complete t ty l ttl st1 st2 out st3 logs)
    let ?v = "valueCommand U ty (Key input) (effective_items input)"
    have "ValueError out \<noteq> ValueQueryFailed (ValidateCommand x)" for x
      using inspect_value_cases(5)[OF complete(9), of "ValidateCommand x"] asked[of "\<lparr>Command = ?v\<rparr>" st2 x]
        value_command[OF complete(1-3), of U ty U] by auto
    then show ?thesis using complete(10) by (simp add: inspect_exec_def)
  qed
qed

text \<open>A complete inspection has asked exactly the type, the time to live and, when the type has a
  bounded read, that one command; every request that reached Redis is one the validator accepts.\<close>

theorem inspect_requests:
  assumes "inspect_exec U s (Redis_Query U r) input st = (Inr out, st')"
    and "list_all (redis_admitted U) (sent st)"
  shows "st' = fold (\<lambda>q st. snd (Redis_Query U r q st)) (inspect_questions U input (OutType out)) st
    \<and> list_all (redis_admitted U) (sent st')"
proof
  show "st' = fold (\<lambda>q st. snd (Redis_Query U r q st)) (inspect_questions U input (OutType out)) st"
    using inspect_exec_asks[OF assms(1)] by auto
  show "list_all (redis_admitted U) (sent st')"
    using inspect.exec_admitted[OF assms(2), of s r input] assms(1) by simp
qed

definition sample_inspect :: InspectService where
  "sample_inspect = \<lparr>is_logger = True, is_hash8 = (\<lambda>s. take 2 s), is_float_text = id\<rparr>"

definition hash_server :: "unit RedisService" where
  "hash_server = \<lparr>redis_client = (\<lambda>qs. Inr \<lparr>RedisJSON =
       (if length qs = 1 then quote ''hash'' else if length qs = 2 then ''300''
        else ''['' @ quote ''7'' @ '',[]]''), RedisElapsedMS = 1\<rparr>),
     redis_logger = False, redis_hash8 = id, redis_duration = 1\<rparr>"

theorem inspect_requests_witness:
  "sent (snd (inspect_exec sample_unicode sample_inspect (Redis_Query sample_unicode hash_server)
      \<lparr>Key = ''k'', MaxItems = 9\<rparr> empty_session))
    = [\<lparr>Command = ''TYPE k''\<rparr>, \<lparr>Command = ''TTL k''\<rparr>, \<lparr>Command = ''HSCAN k 0 COUNT 9''\<rparr>]"
proof -
  let ?st = "snd (inspect_exec sample_unicode sample_inspect (Redis_Query sample_unicode hash_server)
      \<lparr>Key = ''k'', MaxItems = 9\<rparr> empty_session)"
  let ?out = "\<lparr>OutKey = ''k'', OutType = ''hash'', TTLSeconds = 300, OutValue = ASlice [], NextCursor = ''7'',
      Truncated = True, ValueError = NoValueError\<rparr>"
  have "fst (inspect_exec sample_unicode sample_inspect (Redis_Query sample_unicode hash_server)
      \<lparr>Key = ''k'', MaxItems = 9\<rparr> empty_session) = Inr ?out"
    by code_simp
  then have run: "inspect_exec sample_unicode sample_inspect (Redis_Query sample_unicode hash_server)
      \<lparr>Key = ''k'', MaxItems = 9\<rparr> empty_session = (Inr ?out, ?st)"
    by (metis prod.collapse)
  have e: "list_all (redis_admitted sample_unicode) (sent empty_session)" by (simp add: empty_session_def)
  have "?st = fold (\<lambda>q st. snd (Redis_Query sample_unicode hash_server q st))
      (inspect_questions sample_unicode \<lparr>Key = ''k'', MaxItems = 9\<rparr> ''hash'') empty_session"
    using inspect_requests[OF run e] by simp
  moreover have "sent (fold (\<lambda>q st. snd (Redis_Query sample_unicode hash_server q st))
      (inspect_questions sample_unicode \<lparr>Key = ''k'', MaxItems = 9\<rparr> ''hash'') empty_session)
    = [\<lparr>Command = ''TYPE k''\<rparr>, \<lparr>Command = ''TTL k''\<rparr>, \<lparr>Command = ''HSCAN k 0 COUNT 9''\<rparr>]"
    by code_simp
  ultimately show ?thesis by simp
qed

end
