(* ===== verification/QueryPath.thy ===== *)
theory QueryPath
  imports UserSnapshot RedisInspect JsonRoundtrip
begin

text \<open>
  The query tools as \<open>cmd/ps-devtools-mcp/main.go\<close> wires them without direct connections: the SQL service, the
  Redis service over the SQL endpoint, the inspector over the Redis service and the user snapshot
  all send through one HTTP client. The state is the session of that client and the logs.
\<close>

section \<open>The shared client\<close>

type_synonym endpoint_net = "(http_request, string, http_response) remote"

record endpoint_state =
  es_http :: "(http_request, unit) session"
  es_db_log :: "db_log list"
  es_redis_log :: "redis_log list"
  es_inspect_log :: "inspect_log list"
  es_snapshot_log :: "snapshot_log list"

text \<open>The services with their loggers and clocks; the clients are filled in at each call.\<close>

record query_services =
  qs_client :: HTTPClient
  qs_net :: endpoint_net
  qs_db :: "http_query_error DbService"
  qs_redis :: "http_query_error RedisService"
  qs_inspect :: InspectService
  qs_snapshot :: "http_query_error SnapshotService"

text \<open>A service asks its client at most once: the requests it has sent go on the shared connection.\<close>

definition forward :: "HTTPClient \<Rightarrow> QueryInput list \<Rightarrow> endpoint_state \<Rightarrow> endpoint_state" where
  "forward c qs es = es\<lparr>es_http := (es_http es)\<lparr>sent := sent (es_http es) @ map (query_http_request c) qs\<rparr>\<rparr>"

definition query_test_db :: "unicode \<Rightarrow> query_services \<Rightarrow> QueryInput \<Rightarrow> endpoint_state
    \<Rightarrow> (http_query_error service_error, QueryOutput) result \<times> endpoint_state" where
  "query_test_db U Q input es =
    (case Service_Query U ((qs_db Q)\<lparr>db_client := \<lambda>qs. fst (HTTP_Query (qs_client Q) (qs_net Q) (last qs) (es_http es))\<rparr>)
        input \<lparr>sent = [], audit = es_db_log es\<rparr> of
       (r, st) \<Rightarrow> (r, (forward (qs_client Q) (sent st) es)\<lparr>es_db_log := audit st\<rparr>))"

definition query_test_redis :: "unicode \<Rightarrow> query_services \<Rightarrow> RedisInput \<Rightarrow> endpoint_state
    \<Rightarrow> (http_query_error redis_service_error, RedisOutput) result \<times> endpoint_state" where
  "query_test_redis U Q input es =
    (case Redis_Query U ((qs_redis Q)\<lparr>redis_client :=
          \<lambda>qs. fst (httpClient_Query (HTTP_Query (qs_client Q) (qs_net Q)) (last qs) (es_http es))\<rparr>)
        input \<lparr>sent = [], audit = es_redis_log es\<rparr> of
       (r, st) \<Rightarrow> (r, (forward (qs_client Q) (map (\<lambda>i. \<lparr>Statement = Command i, Engine = EngineRedis\<rparr>) (sent st)) es)
         \<lparr>es_redis_log := audit st\<rparr>))"

definition inspect_test_redis :: "unicode \<Rightarrow> query_services \<Rightarrow> InspectInput \<Rightarrow> endpoint_state
    \<Rightarrow> (http_query_error redis_service_error inspect_error, http_query_error redis_service_error InspectOutput) result
      \<times> endpoint_state" where
  "inspect_test_redis U Q input es =
    (case Inspect U (qs_inspect Q) (query_test_redis U Q) input es of
       (r, es', logs) \<Rightarrow> (r, es'\<lparr>es_inspect_log := es_inspect_log es' @ logs\<rparr>))"

definition get_test_user_snapshot :: "query_services \<Rightarrow> GetInput \<Rightarrow> endpoint_state
    \<Rightarrow> (snapshot_error, GetOutput) result \<times> endpoint_state" where
  "get_test_user_snapshot Q input es =
    (case Snapshot_Get (qs_snapshot Q) (HTTP_Query (qs_client Q) (qs_net Q)) input (es_http es) of
       (r, http, logs) \<Rightarrow> (r, es\<lparr>es_http := http, es_snapshot_log := es_snapshot_log es @ logs\<rparr>))"

section \<open>The tools in any order\<close>

inductive endpoint_step :: "unicode \<Rightarrow> query_services \<Rightarrow> endpoint_state \<Rightarrow> endpoint_state \<Rightarrow> bool"
  for U :: unicode and Q :: query_services where
  tool_db: "endpoint_step U Q es (snd (query_test_db U Q i es))"
| tool_redis: "endpoint_step U Q es (snd (query_test_redis U Q i es))"
| tool_inspect: "endpoint_step U Q es (snd (inspect_test_redis U Q i es))"
| tool_snapshot: "endpoint_step U Q es (snd (get_test_user_snapshot Q i es))"

text \<open>What a question on the connection may be.\<close>

definition question_ok :: "unicode \<Rightarrow> QueryInput \<Rightarrow> bool" where
  "question_ok U q \<longleftrightarrow>
     (if Engine q = EngineRedis then ValidateReadOnlyCommand U (Statement q) = ok
      else (Engine q = EngineXianshiSQL \<or> Engine q = EngineConfigSQL) \<and> ValidateReadOnlySQL U (Statement q) = ok)"

definition only_questions :: "unicode \<Rightarrow> query_services \<Rightarrow> endpoint_state \<Rightarrow> bool" where
  "only_questions U Q es \<longleftrightarrow> list_all (\<lambda>req. \<exists>q. req = query_http_request (qs_client Q) q \<and> question_ok U q) (sent (es_http es))"

lemma only_questions_log [simp]:
  "only_questions U Q (es\<lparr>es_db_log := a\<rparr>) = only_questions U Q es"
  "only_questions U Q (es\<lparr>es_redis_log := b\<rparr>) = only_questions U Q es"
  "only_questions U Q (es\<lparr>es_inspect_log := c\<rparr>) = only_questions U Q es"
  by (simp_all add: only_questions_def)

lemma forward_ok: "only_questions U Q es \<Longrightarrow> list_all (question_ok U) qs \<Longrightarrow> only_questions U Q (forward (qs_client Q) qs es)"
  by (auto simp: only_questions_def forward_def list_all_iff)

lemma query_test_db_ok: "only_questions U Q es \<Longrightarrow> only_questions U Q (snd (query_test_db U Q i es))"
proof -
  assume ok: "only_questions U Q es"
  let ?s = "(qs_db Q)\<lparr>db_client := \<lambda>qs. fst (HTTP_Query (qs_client Q) (qs_net Q) (last qs) (es_http es))\<rparr>"
  let ?st = "\<lparr>sent = [], audit = es_db_log es\<rparr> :: (QueryInput, db_log) session"
  have "list_all (db_admitted U) (sent (snd (Service_Query U ?s i ?st)))"
    using db.exec_admitted[of U ?st ?s i] by simp
  then have "list_all (question_ok U) (sent (snd (Service_Query U ?s i ?st)))"
    by (auto simp: list_all_iff db_admitted_def question_ok_def EngineRedis_def EngineXianshiSQL_def EngineConfigSQL_def)
  from forward_ok[OF ok this] show ?thesis by (simp add: query_test_db_def case_prod_unfold)
qed

lemma query_test_redis_ok: "only_questions U Q es \<Longrightarrow> only_questions U Q (snd (query_test_redis U Q i es))"
proof -
  assume ok: "only_questions U Q es"
  let ?s = "(qs_redis Q)\<lparr>redis_client := \<lambda>qs. fst (httpClient_Query (HTTP_Query (qs_client Q) (qs_net Q)) (last qs) (es_http es))\<rparr>"
  let ?st = "\<lparr>sent = [], audit = es_redis_log es\<rparr> :: (RedisInput, redis_log) session"
  have "list_all (redis_admitted U) (sent (snd (Redis_Query U ?s i ?st)))"
    using redis.exec_admitted[of U ?st ?s i] by simp
  then have "list_all (question_ok U) (map (\<lambda>i. \<lparr>Statement = Command i, Engine = EngineRedis\<rparr>) (sent (snd (Redis_Query U ?s i ?st))))"
    by (auto simp: list_all_iff redis_admitted_def question_ok_def)
  from forward_ok[OF ok this] show ?thesis by (simp add: query_test_redis_def case_prod_unfold)
qed

text \<open>The inspector keeps whatever every question of its client keeps.\<close>

lemma Inspect_keeps:
  assumes "\<And>i es. P es \<Longrightarrow> P (snd (query i es))" and "P es"
  shows "P (fst (snd (Inspect U s query input es)))"
proof -
  have q: "P es'" if "query i es = (r, es')" "P es" for i es r es' using assms(1)[OF that(2), of i] that(1) by simp
  show ?thesis
  proof (cases rule: Inspect_cases[of U s query input es])
    case refused
    then show ?thesis using assms(2) by simp
  next
    case type_failed
    show ?thesis using q[OF type_failed(4) assms(2)] by (simp add: type_failed(5))
  next
    case ttl_failed
    show ?thesis using q[OF ttl_failed(5) q[OF ttl_failed(4) assms(2)]] by (simp add: ttl_failed(6))
  next
    case (complete t ty l ttl st1 st2 out st3 logs)
    have "P st2" by (rule q[OF complete(7) q[OF complete(4) assms(2)]])
    moreover have "P (snd (query i st2))" for i using assms(1)[OF \<open>P st2\<close>] .
    ultimately show ?thesis using inspect_value_cases(1)[OF complete(9)] by (simp add: complete(10))
  qed
qed

lemma inspect_test_redis_ok: "only_questions U Q es \<Longrightarrow> only_questions U Q (snd (inspect_test_redis U Q i es))"
  using Inspect_keeps[of "only_questions U Q" "query_test_redis U Q" es U "qs_inspect Q" i] query_test_redis_ok
  by (simp add: inspect_test_redis_def case_prod_unfold)

text \<open>The snapshot's statements need no validator to be accepted.\<close>

lemma querySection_http: "sent (snd (querySection us (HTTP_Query c net) statement lim st))
    = sent st @ [query_http_request c \<lparr>Statement = statement, Engine = EngineXianshiSQL\<rparr>]"
  by (auto simp: querySection_def HTTP_Query_def send_def split: sum.split)

lemma get_test_user_snapshot_ok:
  assumes "only_questions U Q es"
  shows "only_questions U Q (snd (get_test_user_snapshot Q i es))"
proof (cases "valid_input i")
  case False
  then show ?thesis using assms by (auto simp: get_test_user_snapshot_def Snapshot_Get_def valid_input_def only_questions_def)
next
  case True
  let ?n = "nat (effective_limit i)"
  have lim: "0 \<le> effective_limit i" using True by (simp add: valid_input_def)
  have go: "\<not> (UID i = 0 \<or> maxUID < UID i)" "\<not> (effective_limit i < 1 \<or> 100 < effective_limit i)"
    using True by (auto simp: valid_input_def)
  have asked: "sent (snd (read_sections (qs_snapshot Q) (HTTP_Query (qs_client Q) (qs_net Q)) i ?n (es_http es)))
      = sent (es_http es) @ map (\<lambda>t. query_http_request (qs_client Q) \<lparr>Statement = t, Engine = EngineXianshiSQL\<rparr>) (snapshot_statements i)"
    by (simp add: read_sections_def Let_def case_prod_unfold lim snapshot_statements_def querySection_http)
  have "question_ok U \<lparr>Statement = t, Engine = EngineXianshiSQL\<rparr>" if "t \<in> set (snapshot_statements i)" for t
    using snapshot_statements_ok[OF True that] by (simp add: question_ok_def EngineRedis_def EngineXianshiSQL_def)
  then show ?thesis
    using assms go asked by (auto simp: get_test_user_snapshot_def Snapshot_Get_def case_prod_unfold only_questions_def list_all_iff)
qed

interpretation endpoint: transition_system "\<lambda>es. sent (es_http es) = []" "endpoint_step U Q" "only_questions U Q" for U Q
proof unfold_locales
  show "only_questions U Q es" if "sent (es_http es) = []" for es using that by (simp add: only_questions_def)
  show "only_questions U Q es'" if "only_questions U Q es" "endpoint_step U Q es es'" for es es'
    using that(2,1)
    by cases (simp_all add: query_test_db_ok query_test_redis_ok inspect_test_redis_ok get_test_user_snapshot_ok)
qed

section \<open>What the endpoint reads\<close>

definition request_fields :: "(string \<times> QueryInput decoder) list" where
  "request_fields =
    [(''statement'', at_field Statement (\<lambda>v q. q\<lparr>Statement := v\<rparr>) decode_string),
     (''engine'', at_field Engine (\<lambda>v q. q\<lparr>Engine := v\<rparr>) decode_int64)]"

text \<open>The struct of \<open>QueryInput\<close> read back from a body, as the service at the endpoint does.\<close>

definition read_request :: "string \<Rightarrow> QueryInput option" where
  "read_request body = unmarshal (decode_struct False request_fields) body \<lparr>Statement = [], Engine = 0\<rparr>"

lemma request_roundtrip:
  assumes "- (2 ^ 63) \<le> Engine q" "Engine q < 2 ^ 63"
  shows "read_request (encode_request q) = Some (q\<lparr>Statement := utf8_clean (Statement q)\<rparr>)"
proof -
  let ?es = "[(''statement'', quote (Statement q), JStr (escape_string (Statement q))),
     (''engine'', itoa (Engine q), JNum (itoa (Engine q)))]"
  have "list_all (\<lambda>(k, s, v). reads 0 s v) ?es" by (simp add: reads_basic itoa_literal)
  note r = reads_object[OF this]
  have "marshal_struct (map (\<lambda>(k, s, v). (k, s)) ?es) = encode_request q"
    by (simp add: encode_request_def marshal_struct_def member_text_def)
  then have p: "parse_json (encode_request q) = Some (JObj (map (\<lambda>(k, s, v). (escape_string k, v)) ?es))"
    using reads_parse[OF r] by (simp add: maxNestingDepth_def)
  have u: "utf8_clean ''statement'' = ''statement''" "utf8_clean ''engine'' = ''engine''" by code_simp+
  have e: "decode_int64 (JNum (itoa (Engine q))) 0 = Some (Engine q)"
    using assms unfolding decode_int64_def by (intro decode_int_itoa) simp_all
  show ?thesis
    by (simp add: read_request_def unmarshal_def p u find_field_def request_fields_def at_field_def e unquote_escape)
qed

text \<open>C13: Over any interleaving of the four query tools on the shared client, from a fresh connection, every
  request is a POST to the endpoint whose body reads back as the question asked (its text as JSON
  carries it), and every question is SQL the validator accepted for engine 1 or 3, or a Redis
  command the Redis validator accepted for engine 2.\<close>

theorem endpoint_requests_admitted:
  assumes "reach (\<lambda>es. sent (es_http es) = []) (endpoint_step U Q) es"
  shows "list_all (\<lambda>req. Method req = ''POST'' \<and> URL req = endpoint (qs_client Q) \<and>
      (\<exists>q. read_request (ReqBody req) = Some (q\<lparr>Statement := utf8_clean (Statement q)\<rparr>) \<and>
        (if Engine q = 2 then ValidateReadOnlyCommand U (Statement q) = ok
         else (Engine q = 1 \<or> Engine q = 3) \<and> ValidateReadOnlySQL U (Statement q) = ok))) (sent (es_http es))"
proof -
  have "read_request (ReqBody (query_http_request (qs_client Q) q)) = Some (q\<lparr>Statement := utf8_clean (Statement q)\<rparr>)"
    if "question_ok U q" for q
    using that request_roundtrip[of q]
    by (auto simp: question_ok_def query_http_request_def EngineRedis_def EngineXianshiSQL_def EngineConfigSQL_def split: if_splits)
  then show ?thesis
    using endpoint.reach_inv[OF assms]
    by (fastforce simp: only_questions_def list_all_iff query_http_request_def question_ok_def
        EngineRedis_def EngineXianshiSQL_def EngineConfigSQL_def)
qed

definition sample_services :: query_services where
  "sample_services =
    \<lparr>qs_client = sample_http, qs_net = (\<lambda>_. Inr sample_reply),
     qs_db = \<lparr>db_client = (\<lambda>_. Inl DecodeFailed), db_logger = False, db_hash8 = id, db_duration = 1\<rparr>,
     qs_redis = \<lparr>redis_client = (\<lambda>_. Inl DecodeFailed), redis_logger = False, redis_hash8 = id, redis_duration = 1\<rparr>,
     qs_inspect = sample_inspect,
     qs_snapshot = \<lparr>us_logger = False, us_error_text = (\<lambda>_. ''failed''), us_hash8 = id, us_duration = 1\<rparr>\<rparr>"

definition fresh_endpoint :: endpoint_state where
  "fresh_endpoint = \<lparr>es_http = empty_session, es_db_log = [], es_redis_log = [], es_inspect_log = [], es_snapshot_log = []\<rparr>"

theorem endpoint_requests_admitted_witness:
  "Method (query_http_request sample_http \<lparr>Statement = ''SHOW TABLES'', Engine = 1\<rparr>) = ''POST'' \<and>
   Method (query_http_request sample_http \<lparr>Statement = ''GET k'', Engine = 2\<rparr>) = ''POST''"
proof -
  let ?es1 = "snd (query_test_db sample_unicode sample_services \<lparr>Statement = '' SHOW TABLES'', Engine = 1\<rparr> fresh_endpoint)"
  let ?es2 = "snd (query_test_redis sample_unicode sample_services \<lparr>Command = ''GET k''\<rparr> ?es1)"
  have s: "sent (es_http ?es2) = [query_http_request sample_http \<lparr>Statement = ''SHOW TABLES'', Engine = 1\<rparr>,
      query_http_request sample_http \<lparr>Statement = ''GET k'', Engine = 2\<rparr>]"
    by code_simp
  have "reach (\<lambda>es. sent (es_http es) = []) (endpoint_step sample_unicode sample_services) ?es2"
    by (rule reach_step, rule reach_step, rule reach_start[of _ fresh_endpoint])
      (simp add: fresh_endpoint_def empty_session_def, rule tool_db, rule tool_redis)
  from endpoint_requests_admitted[OF this] show ?thesis unfolding s by simp
qed

end
