(* ===== verification/Startup.thy ===== *)
theory Startup
  imports AppConfig SlackNotify TestLogs DeployManager TestApi TestBot QueryPath
begin

text \<open>
  The start of the program (\<open>main\<close> of \<open>cmd/ps-devtools-mcp/main.go\<close>): from the command line and the environment
  to the services it serves, each of them direct, through the endpoint, configured or unavailable.
  What the machine answers (connections, files, the URL parser) is the record \<open>host\<close>.
\<close>

section \<open>The machine and the program\<close>

definition defaultQueryURL :: string where
  "defaultQueryURL = ''http://127.0.0.1/gk/v1/external/testEnvQuery''"

definition defaultMaxBodyMB :: int where "defaultMaxBodyMB = 2"

record 'db host =
  h_unicode :: unicode
  h_urls :: urls
  h_request_uri :: "string \<Rightarrow> url option"
  h_dialer :: "'db dialer"
  h_ping :: "redis_options \<Rightarrow> string option"
  h_file :: "string \<Rightarrow> (string, string) result"

datatype startup_error =
    SettingsInvalid app_error
  | QueryClientInvalid new_client_error
  | DatabaseNotOpened open_error
  | RedisNotOpened string
  | WebhookInvalid webhook_error
  | BotConfigInvalid bot_config_error
  | BotNotMade new_bot_error
  | ApiConfigInvalid api_config_error
  | ApiNotMade

text \<open>
  The clients and services of a started program: a direct client, the notifier, the bot and the
  API are absent when they are not configured (their place is then taken by the HTTP client, by
  no notifier and by \<open>Unavailable\<close>); the log bridge is its command and arguments, not yet run.
\<close>

record 'db program =
  pr_config :: Config
  pr_client :: HTTPClient
  pr_db :: "'db MySQLClient option"
  pr_redis :: "redis_options option"
  pr_webhook :: "Webhook option"
  pr_manager :: Manager
  pr_bot :: "BotService option"
  pr_api :: "ApiService option"
  pr_logs :: "(string \<times> string list) option"

text \<open>What is done to outside resources, in order.\<close>

datatype 'db resource_op = PoolOp "'db pool_op" | ConnOp redis_conn_op

section \<open>Starting\<close>

definition query_url :: "environment \<Rightarrow> string" where
  "query_url getenv = (let v = getenv ''PS_TEST_QUERY_URL'' in if v = [] then defaultQueryURL else v)"

definition mysql_config :: "Config \<Rightarrow> MySQLConfig" where
  "mysql_config c =
    \<lparr>Host = TestDBHost c, Port = TestDBPort c, User = TestDBUser c, Password = TestDBPassword c,
     XianshiDatabase = cfg_XianshiDatabase c, ConfigDatabase = cfg_ConfigDatabase c,
     ConnectTimeout = 0, QueryTimeout = 0, MaxRows = 0, MaxResultBody = 0\<rparr>"

definition open_database :: "'db host \<Rightarrow> Config \<Rightarrow> (startup_error, 'db MySQLClient option) result \<times> 'db resource_op list" where
  "open_database H c =
    (if DirectDBEnabled c then
       (case OpenMySQLClient (h_dialer H) (mysql_config c) of
          (r, ops) \<Rightarrow> (bind_err DatabaseNotOpened r (\<lambda>client. Inr (Some client)), map PoolOp ops))
     else (Inr None, []))"

definition open_redis :: "'db host \<Rightarrow> Config \<Rightarrow> (startup_error, redis_options option) result \<times> 'db resource_op list" where
  "open_redis H c =
    (if DirectRedisEnabled c then
       (case OpenDirectClient (h_ping H) \<lparr>Address = TestRedisAddress c, RedisPassword = TestRedisPassword c,
            RedisDatabase = TestRedisDatabase c\<rparr> of
          (r, ops) \<Rightarrow> (bind_err RedisNotOpened r (\<lambda>client. Inr (Some client)), map ConnOp ops))
     else (Inr None, []))"

definition make_webhook :: "'db host \<Rightarrow> Config \<Rightarrow> (startup_error, Webhook option) result" where
  "make_webhook H c =
    (if SlackDeployWebhookURL c \<noteq> [] then
       bind_err WebhookInvalid (NewWebhook (h_urls H) (SlackDeployWebhookURL c) True) (\<lambda>w. Inr (Some w))
     else Inr None)"

definition make_bot :: "'db host \<Rightarrow> Config \<Rightarrow> (startup_error, BotService option) result" where
  "make_bot H c =
    (if TestBotEnabled c then
       bind_err BotConfigInvalid (LoadBotConfig (h_unicode H) (h_urls H) (h_file H (TestBotConfig c))) (\<lambda>config.
       bind_err BotNotMade (NewBotService config
          \<lparr>Area = TestBotArea c, Mobile = TestBotMobile c, BotPassword = TestBotPassword c\<rparr> True True) (\<lambda>s.
       Inr (Some s)))
     else Inr None)"

definition make_api :: "'db host \<Rightarrow> Config \<Rightarrow> (startup_error, ApiService option) result" where
  "make_api H c =
    (if ReadOnlyAPIConfig c \<noteq> [] then
       bind_err ApiConfigInvalid (LoadApiConfig (h_unicode H) (h_urls H) (h_file H (ReadOnlyAPIConfig c))) (\<lambda>config.
       (case NewApiService config True True of None \<Rightarrow> Inl ApiNotMade | Some s \<Rightarrow> Inr (Some s)))
     else Inr None)"

text \<open>After the connections: the notifier, the manager, the bot, the API and the log bridge.\<close>

definition make_services :: "'db host \<Rightarrow> Config \<Rightarrow> HTTPClient \<Rightarrow> 'db MySQLClient option \<Rightarrow> redis_options option
    \<Rightarrow> (startup_error, 'db program) result" where
  "make_services H c client db redis =
    bind_err id (make_webhook H c) (\<lambda>webhook.
    bind_err id (make_bot H c) (\<lambda>bot.
    bind_err id (make_api H c) (\<lambda>api.
    Inr \<lparr>pr_config = c, pr_client = client, pr_db = db, pr_redis = redis, pr_webhook = webhook,
         pr_manager = NewManager, pr_bot = bot, pr_api = api,
         pr_logs = (if LogMCPCommand c \<noteq> [] then Some (LogMCPCommand c, LogMCPArgs c) else None)\<rparr>)))"

definition start_program :: "'db host \<Rightarrow> string list \<Rightarrow> environment
    \<Rightarrow> (startup_error, 'db program) result \<times> 'db resource_op list" where
  "start_program H args getenv =
    (case Parse (h_unicode H) args getenv of
       Inl e \<Rightarrow> (Inl (SettingsInvalid e), [])
     | Inr config \<Rightarrow>
    (case NewHTTPClient (h_request_uri H) (query_url getenv) True (push_bit 20 defaultMaxBodyMB) of
       Inl e \<Rightarrow> (Inl (QueryClientInvalid e), [])
     | Inr client \<Rightarrow>
    (case open_database H config of
       (Inl e, ops) \<Rightarrow> (Inl e, ops)
     | (Inr db, ops) \<Rightarrow>
    (case open_redis H config of
       (Inl e, ops') \<Rightarrow> (Inl e, ops @ ops')
     | (Inr redis, ops') \<Rightarrow> (make_services H config client db redis, ops @ ops')))))"

text \<open>The deferred calls that end outside resources, the last one deferred first.\<close>

definition deferred :: "'db program \<Rightarrow> 'db resource_op list" where
  "deferred p = (case pr_redis p of None \<Rightarrow> [] | Some c \<Rightarrow> map ConnOp (Direct_Close c))
     @ (case pr_db p of None \<Rightarrow> [] | Some c \<Rightarrow> map PoolOp (Close_MySQLClient c))"

text \<open>With the HTTP transport the program serves through the gate of \<open>runHTTP\<close>, else on its standard streams.\<close>

definition served_gate :: "'db program \<Rightarrow> gate option" where
  "served_gate p = (if Transport (pr_config p) = TransportHTTP then http_handler (pr_config p) True else None)"

section \<open>The end\<close>

text \<open>
  How serving ends: \<open>runHTTP\<close> returns when its server fails (\<open>None\<close>: it was closed), or when a signal has
  come and the shutdown has returned, perhaps with the error of its deadline; on the standard streams
  \<open>Run\<close> returns.
\<close>

datatype ending = ServerEnded "string option" | Signaled "string option" | StdioEnded "string option"

fun runHTTP :: "ending \<Rightarrow> string option" where
  "runHTTP (ServerEnded err) = err"
| "runHTTP (Signaled err) = err"
| "runHTTP (StdioEnded err) = None"

text \<open>
  The rest of \<open>main\<close>: the error it dies with, if any, and what is done to outside resources. \<open>log.Fatal\<close> ends the
  process, and the deferred calls do not run.
\<close>

definition main_end :: "'db program \<Rightarrow> ending \<Rightarrow> string option \<times> 'db resource_op list" where
  "main_end p e =
    (let err = (if Transport (pr_config p) = TransportHTTP then runHTTP e else (case e of StdioEnded err \<Rightarrow> err | _ \<Rightarrow> None))
     in (err, if err = None then deferred p else []))"

section \<open>Facts\<close>

lemma Parse_env:
  assumes "Parse U args getenv = Inr config"
  shows "TestDBHost config = trim_space (getenv ''PS_TEST_DB_HOST'')"
    and "TestBotArea config = trim_space (getenv ''PS_TESTBOT_AREA'')"
    and "TestBotMobile config = trim_space (getenv ''PS_TESTBOT_MOBILE'')"
proof -
  obtain c1 c2 c3 where p: "read_tokens getenv (env_config getenv) = Inr c1"
    "read_log_args getenv c1 = Inr c2" "parse_flags args c2 = Inr c3" "config = normalize_config U c3"
    using Parse_cases[OF assms] by metis
  have "TestDBHost c2 = trim_space (getenv ''PS_TEST_DB_HOST'') \<and> TestBotArea c2 = trim_space (getenv ''PS_TESTBOT_AREA'')
      \<and> TestBotMobile c2 = trim_space (getenv ''PS_TESTBOT_MOBILE'')"
    using p(1,2) by (auto simp: read_tokens_def read_log_args_def env_config_def Let_def split: if_splits option.splits sum.splits)
  moreover have "TestDBHost c3 = TestDBHost c2 \<and> TestBotArea c3 = TestBotArea c2 \<and> TestBotMobile c3 = TestBotMobile c2"
    using arg_cong[OF parse_flags_unflagged[OF p(3)], of TestDBHost] arg_cong[OF parse_flags_unflagged[OF p(3)], of TestBotArea]
      arg_cong[OF parse_flags_unflagged[OF p(3)], of TestBotMobile]
    by (simp add: unflagged_def)
  ultimately show "TestDBHost config = trim_space (getenv ''PS_TEST_DB_HOST'')"
    "TestBotArea config = trim_space (getenv ''PS_TESTBOT_AREA'')" "TestBotMobile config = trim_space (getenv ''PS_TESTBOT_MOBILE'')"
    by (simp_all add: p(4) normalize_config_def)
qed

text \<open>What the settings that were read leave for the connections and the bot to refuse.\<close>

definition database_refusal :: "open_error \<Rightarrow> bool" where
  "database_refusal e \<longleftrightarrow> (case e of BadConfig x \<Rightarrow> x = HostInvalid \<or> x = DatabaseNameInvalid ''xianshi'' \<or> x = DatabaseNameInvalid ''config''
     | _ \<Rightarrow> True)"

lemma open_database_refusal:
  assumes "Parse U args getenv = Inr config" "open_database H config = (Inl e, ops)"
  shows "\<exists>x. e = DatabaseNotOpened x \<and> database_refusal x"
proof -
  have s: "settings_ok config" using assms(1) by (rule Parse_config_ok)
  obtain x where x: "e = DatabaseNotOpened x" "fst (OpenMySQLClient (h_dialer H) (mysql_config config)) = Inl x" "DirectDBEnabled config"
    using assms(2) by (auto simp: open_database_def bind_err_def split: if_splits sum.splits prod.splits)
  have "database_refusal x"
  proof (cases "validateMySQLConfig (mysql_config config)")
    case (Inl y)
    then show ?thesis using x s
      by (auto simp: OpenMySQLClient_def database_refusal_def validateMySQLConfig_def guard_err_def mysql_config_def settings_ok_def split: if_splits)
  next
    case (Inr u)
    then show ?thesis using x(2)
      by (auto simp: OpenMySQLClient_def database_refusal_def Let_def split: prod.splits sum.splits)
  qed
  then show ?thesis using x(1) by blast
qed

lemma make_bot_refusal:
  assumes "Parse U args getenv = Inr config" "make_bot H config = Inl e"
  shows "\<exists>x. e = BotConfigInvalid x"
  using assms(2) Parse_config_ok[OF assms(1)] Parse_env[OF assms(1)]
  by (auto simp: make_bot_def bind_err_def NewBotService_def guard_err_def settings_ok_def Let_def split: if_splits sum.splits)

text \<open>The pools and the connections that a run of operations leaves open.\<close>

definition pools_open :: "'db resource_op list \<Rightarrow> 'db list" where
  "pools_open ops = still_open (List.map_filter (\<lambda>op. case op of PoolOp p \<Rightarrow> Some p | ConnOp _ \<Rightarrow> None) ops)"

definition conns_open :: "'db resource_op list \<Rightarrow> int" where
  "conns_open ops = sum_list (map (\<lambda>op. case op of ConnOp (NewConn _) \<Rightarrow> 1 | ConnOp CloseConn \<Rightarrow> - 1 | _ \<Rightarrow> 0) ops)"

lemma pools_open_PoolOp [simp]: "pools_open (map PoolOp ops @ map ConnOp cs) = still_open ops"
proof -
  have "List.map_filter (\<lambda>op. case op of PoolOp p \<Rightarrow> Some p | ConnOp _ \<Rightarrow> None) (map PoolOp ops @ map ConnOp cs) = ops"
    by (induction ops) (simp_all add: map_filter_def comp_def)
  then show ?thesis by (simp add: pools_open_def)
qed

lemma open_database_ops:
  assumes "open_database H c = (r, ops)"
  shows "\<exists>ps. ops = map PoolOp ps \<and> still_open ps = (case r of Inr (Some client) \<Rightarrow> [xianshi_db client, config_db client] | _ \<Rightarrow> [])"
proof (cases "DirectDBEnabled c")
  case True
  obtain q ps where o: "OpenMySQLClient (h_dialer H) (mysql_config c) = (q, ps)" by force
  then show ?thesis
    using assms True OpenMySQLClient_pools[where d = "h_dialer H" and config = "mysql_config c"]
    by (cases q) (auto simp: open_database_def bind_err_def)
qed (use assms in \<open>auto simp: open_database_def still_open_def\<close>)

lemma open_redis_ops:
  assumes "open_redis H c = (r, ops)"
  shows "\<exists>cs. ops = map ConnOp cs \<and> conns_open ops = (case r of Inr (Some _) \<Rightarrow> 1 | _ \<Rightarrow> 0)"
proof (cases "DirectRedisEnabled c")
  case True
  let ?config = "\<lparr>Address = TestRedisAddress c, RedisPassword = TestRedisPassword c, RedisDatabase = TestRedisDatabase c\<rparr>"
  obtain q cs where o: "OpenDirectClient (h_ping H) ?config = (q, cs)" by force
  then have "ops = map ConnOp cs" "r = bind_err RedisNotOpened q (\<lambda>client. Inr (Some client))"
    using assms True by (auto simp: open_redis_def)
  moreover have "sum_list (map (\<lambda>op. case op of NewConn _ \<Rightarrow> 1 | CloseConn \<Rightarrow> - 1 | _ \<Rightarrow> 0) cs) = (if is_ok q then 1 else 0 :: int)"
    using o by (auto simp: OpenDirectClient_def Let_def split: option.splits)
  ultimately show ?thesis
    by (cases q) (auto simp: conns_open_def comp_def)
qed (use assms in \<open>auto simp: open_redis_def conns_open_def\<close>)

text \<open>The runs of \<open>start_program\<close>.\<close>

lemma start_program_cases:
  obtains (settings) e where "Parse (h_unicode H) args getenv = Inl e" "start_program H args getenv = (Inl (SettingsInvalid e), [])"
  | (client) config e where "Parse (h_unicode H) args getenv = Inr config"
      "NewHTTPClient (h_request_uri H) (query_url getenv) True (push_bit 20 defaultMaxBodyMB) = Inl e"
      "start_program H args getenv = (Inl (QueryClientInvalid e), [])"
  | (database) config e ops where "Parse (h_unicode H) args getenv = Inr config"
      "open_database H config = (Inl e, ops)" "start_program H args getenv = (Inl e, ops)"
  | (redis) config db ops e ops' where "Parse (h_unicode H) args getenv = Inr config"
      "open_database H config = (Inr db, ops)" "open_redis H config = (Inl e, ops')"
      "start_program H args getenv = (Inl e, ops @ ops')"
  | (services) config client db ops redis ops' where "Parse (h_unicode H) args getenv = Inr config"
      "NewHTTPClient (h_request_uri H) (query_url getenv) True (push_bit 20 defaultMaxBodyMB) = Inr client"
      "open_database H config = (Inr db, ops)" "open_redis H config = (Inr redis, ops')"
      "start_program H args getenv = (make_services H config client db redis, ops @ ops')"
proof (cases "Parse (h_unicode H) args getenv")
  case (Inl e)
  then show ?thesis by (intro settings) (simp_all add: start_program_def)
next
  case p: (Inr config)
  show ?thesis
  proof (cases "NewHTTPClient (h_request_uri H) (query_url getenv) True (push_bit 20 defaultMaxBodyMB)")
    case (Inl e)
    then show ?thesis using p by (intro client) (simp_all add: start_program_def)
  next
    case n: (Inr cl)
    obtain r ops where d: "open_database H config = (r, ops)" by force
    obtain r' ops' where d': "open_redis H config = (r', ops')" by force
    show ?thesis
    proof (cases r)
      case (Inl e)
      then show ?thesis using p n d by (intro database) (simp_all add: start_program_def)
    next
      case db: (Inr db)
      show ?thesis
        using p n d d' db redis[of config db ops _ ops'] services[of config cl db ops _ ops']
        by (cases r') (simp_all add: start_program_def)
    qed
  qed
qed

lemma make_services_ok:
  assumes "make_services H c client db redis = Inr p"
  shows "pr_config p = c" "pr_client p = client" "pr_db p = db" "pr_redis p = redis" "pr_manager p = NewManager"
    "make_webhook H c = Inr (pr_webhook p)" "make_bot H c = Inr (pr_bot p)" "make_api H c = Inr (pr_api p)"
    "pr_logs p = (if LogMCPCommand c \<noteq> [] then Some (LogMCPCommand c, LogMCPArgs c) else None)"
  using assms by (auto simp: make_services_def bind_err_Inr)

lemma conns_open_append [simp]: "conns_open (a @ b) = conns_open a + conns_open b"
  "conns_open (map PoolOp ps) = 0"
  by (simp_all add: conns_open_def comp_def)

lemma pools_open_append: "pools_open (map PoolOp ps @ map ConnOp cs @ map ConnOp cs' @ map PoolOp ps') = still_open (ps @ ps')"
  by (simp add: pools_open_def map_filter_def comp_def)

text \<open>The deferred calls close what a started program has opened.\<close>

lemma deferred_closes:
  assumes "start_program H args getenv = (Inr p, ops)"
  shows "pools_open (ops @ deferred p) = [] \<and> conns_open (ops @ deferred p) = 0"
proof (cases rule: start_program_cases[of H args getenv])
  case (services config client db ops1 redis ops2)
  have Inr: "make_services H config client db redis = Inr p" and ops: "ops = ops1 @ ops2"
    using services(5) assms by simp_all
  obtain ps where ps: "ops1 = map PoolOp ps"
      "still_open ps = (case db of Some c \<Rightarrow> [xianshi_db c, config_db c] | None \<Rightarrow> [])"
    using open_database_ops[OF services(3)] by auto
  obtain cs where cs: "ops2 = map ConnOp cs" "conns_open ops2 = (case redis of Some _ \<Rightarrow> 1 | None \<Rightarrow> 0)"
    using open_redis_ops[OF services(4)] by auto
  have d: "deferred p = map ConnOp (case redis of None \<Rightarrow> [] | Some c \<Rightarrow> Direct_Close c)
      @ map PoolOp (case db of None \<Rightarrow> [] | Some c \<Rightarrow> Close_MySQLClient c)"
    by (simp add: deferred_def make_services_ok[OF Inr] split: option.split)
  have "still_open (ps @ (case db of None \<Rightarrow> [] | Some c \<Rightarrow> Close_MySQLClient c)) = []"
    using ps(2) by (auto simp: still_open_def Close_MySQLClient_def split: option.splits)
  moreover have "conns_open (map ConnOp (case redis of None \<Rightarrow> [] | Some c \<Rightarrow> Direct_Close c) :: 'a resource_op list)
      = (case redis of None \<Rightarrow> 0 | Some _ \<Rightarrow> - 1)"
    by (simp add: conns_open_def Direct_Close_def split: option.split)
  ultimately show ?thesis
    using cs(2) by (simp add: d ps(1) cs(1) pools_open_append ops split: option.splits)
qed (use assms in simp_all)

section \<open>Properties\<close>


text \<open>Outside resources are released: when the program ends without an error, no pool and no connection is open
  any more; a direct client that cannot be opened leaves none of its own; but an end with an error
  (a server that fails, a shutdown that exceeds its deadline) skips every deferred closing.\<close>

theorem startup_releases:
  "case start_program H args getenv of
     (Inr p, ops) \<Rightarrow> (case main_end p e of
         (None, closing) \<Rightarrow> pools_open (ops @ closing) = [] \<and> conns_open (ops @ closing) = 0
       | (Some err, closing) \<Rightarrow> closing = [])
   | (Inl (DatabaseNotOpened e), ops) \<Rightarrow> pools_open ops = [] \<and> conns_open ops = 0
   | (Inl (RedisNotOpened e), ops) \<Rightarrow> conns_open ops = 0
   | (Inl _, _) \<Rightarrow> True"
proof (cases rule: start_program_cases[of H args getenv])
  case (database config e ops)
  then obtain ps where "ops = map PoolOp ps" "still_open ps = []" using open_database_ops[OF database(2)] by auto
  then show ?thesis using database(3) pools_open_PoolOp[of ps "[]"] by (simp split: startup_error.split)
next
  case (redis config db ops e ops')
  moreover obtain x where "e = RedisNotOpened x"
    using redis(3) by (auto simp: open_redis_def bind_err_def split: if_splits sum.splits prod.splits)
  ultimately show ?thesis using open_database_ops[OF redis(2)] open_redis_ops[OF redis(3)] by auto
next
  case (services config client db ops redis ops')
  show ?thesis
  proof (cases "make_services H config client db redis")
    case (Inl e)
    then have "(\<nexists>x. e = DatabaseNotOpened x) \<and> (\<nexists>x. e = RedisNotOpened x)"
      by (auto simp: make_services_def make_webhook_def make_bot_def make_api_def bind_err_def
          split: sum.splits if_splits option.splits)
    then show ?thesis using services(5) Inl by (auto split: startup_error.split)
  next
    case (Inr p)
    have "main_end p e = (None, deferred p) \<or> (\<exists>err. main_end p e = (Some err, []))"
      by (auto simp: main_end_def Let_def)
    then show ?thesis using services(5) Inr deferred_closes[of H args getenv p "ops @ ops'"] by auto
  qed
qed simp_all

end
