(* ===== verification/ToolServer.thy ===== *)
theory ToolServer
  imports TestLogs DeployManager DeployOutput TestApi TestBot UserSnapshot RedisInspect
begin

text \<open>
  The MCP server (\<open>internal/mcpserver/server.go\<close>): the interfaces it serves and the tool each of their
  operations is registered as. A handler hands its input to one operation and gives back its output
  and error as they are, so that the operations are functions on a state with an answer of any type.
\<close>

section \<open>The services\<close>

type_synonym ('i, 's, 'o) operation = "'i \<Rightarrow> 's \<Rightarrow> 'o \<times> 's"

text \<open>The interfaces, and the services the server is given, one of each.\<close>

record ('s, 'o) queryService =
  DB_Query :: "(QueryInput, 's, 'o) operation"

record ('s, 'o) redisQueryService =
  Redis_Service_Query :: "(RedisInput, 's, 'o) operation"

record ('s, 'o) userSnapshotService =
  UserSnapshot_Get :: "(GetInput, 's, 'o) operation"

record ('s, 'o) redisInspectorService =
  RedisInspector_Inspect :: "(InspectInput, 's, 'o) operation"

record ('s, 'o) readOnlyAPIService =
  ReadOnlyAPI_Call :: "(ApiCallInput, 's, 'o) operation"

record ('s, 'o) testBotService =
  TestBot_List :: "(unit, 's, 'o) operation"
  TestBot_Call :: "(BotCallInput, 's, 'o) operation"

record ('s, 'o) testLogService =
  TestLogs_ListSources :: "(unit, 's, 'o) operation"
  TestLogs_Search :: "(SearchInput, 's, 'o) operation"
  TestLogs_Trace :: "(TraceInput, 's, 'o) operation"
  TestLogs_ListRuntimeSources :: "(unit, 's, 'o) operation"
  TestLogs_GetRuntime :: "(GetRuntimeInput, 's, 'o) operation"

record ('s, 'o) testDeployService =
  TestDeploy_ListServices :: "(unit, 's, 'o) operation"
  TestDeploy_ListProcesses :: "(string, 's, 'o) operation"
  TestDeploy_Plan :: "(DeploymentInput, 's, 'o) operation"
  TestDeploy_Deploy :: "(DeploymentInput, 's, 'o) operation"
  TestDeploy_Status :: "(ProcessActionInput, 's, 'o) operation"
  TestDeploy_Restart :: "(ProcessActionInput, 's, 'o) operation"

record ('s, 'o) testDeploymentJobService =
  TestDeployJobs_Start :: "(DeploymentInput, 's, 'o) operation"
  TestDeployJobs_Get :: "(string, 's, 'o) operation"
  TestDeployJobs_Logs :: "(string, 's, 'o) operation"
  TestDeployJobs_Recent :: "(int, 's, 'o) operation"
  TestDeployJobs_Cancel :: "(string, 's, 'o) operation"

record ('s, 'o) Services =
  svc_DB :: "('s, 'o) queryService"
  svc_Redis :: "('s, 'o) redisQueryService"
  svc_UserSnapshot :: "('s, 'o) userSnapshotService"
  svc_RedisInspector :: "('s, 'o) redisInspectorService"
  svc_ReadOnlyAPI :: "('s, 'o) readOnlyAPIService"
  svc_TestBot :: "('s, 'o) testBotService"
  svc_TestLogs :: "('s, 'o) testLogService"
  svc_TestDeploy :: "('s, 'o) testDeployService"
  svc_TestDeployJobs :: "('s, 'o) testDeploymentJobService"

section \<open>The tools\<close>

text \<open>A call of a tool, with its decoded input.\<close>

datatype tool_request =
    QueryTestDB QueryInput
  | StartTestDeployment DeploymentInput
  | GetTestDeploymentStatus string
  | GetTestDeploymentLogs string
  | GetRecentDeployments int
  | CancelTestDeployment string
  | GetTestProcessStatus ProcessActionInput
  | RestartTestProcess ProcessActionInput
  | ListTestDeployServices
  | ListTestDeployProcesses string
  | PlanTestDeployment DeploymentInput
  | DeployTestService DeploymentInput
  | QueryTestRedis RedisInput
  | GetTestUserSnapshot GetInput
  | InspectTestRedis InspectInput
  | ListTestLogSources
  | SearchTestLogs SearchInput
  | TraceTestLogs TraceInput
  | CallTestReadonlyAPI ApiCallInput
  | ListTestbotEndpoints
  | CallTestbotAPI BotCallInput
  | ListTestRuntimeSources
  | GetTestServiceRuntime GetRuntimeInput

fun requested_tool :: "tool_request \<Rightarrow> string" where
  "requested_tool (QueryTestDB _) = ''query_test_db''"
| "requested_tool (StartTestDeployment _) = ''start_test_deployment''"
| "requested_tool (GetTestDeploymentStatus _) = ''get_test_deployment_status''"
| "requested_tool (GetTestDeploymentLogs _) = ''get_test_deployment_logs''"
| "requested_tool (GetRecentDeployments _) = ''get_recent_deployments''"
| "requested_tool (CancelTestDeployment _) = ''cancel_test_deployment''"
| "requested_tool (GetTestProcessStatus _) = ''get_test_process_status''"
| "requested_tool (RestartTestProcess _) = ''restart_test_process''"
| "requested_tool ListTestDeployServices = ''list_test_deploy_services''"
| "requested_tool (ListTestDeployProcesses _) = ''list_test_deploy_processes''"
| "requested_tool (PlanTestDeployment _) = ''plan_test_deployment''"
| "requested_tool (DeployTestService _) = ''deploy_test_service''"
| "requested_tool (QueryTestRedis _) = ''query_test_redis''"
| "requested_tool (GetTestUserSnapshot _) = ''get_test_user_snapshot''"
| "requested_tool (InspectTestRedis _) = ''inspect_test_redis''"
| "requested_tool ListTestLogSources = ''list_test_log_sources''"
| "requested_tool (SearchTestLogs _) = ''search_test_logs''"
| "requested_tool (TraceTestLogs _) = ''trace_test_logs''"
| "requested_tool (CallTestReadonlyAPI _) = ''call_test_readonly_api''"
| "requested_tool ListTestbotEndpoints = ''list_testbot_endpoints''"
| "requested_tool (CallTestbotAPI _) = ''call_testbot_api''"
| "requested_tool ListTestRuntimeSources = ''list_test_runtime_sources''"
| "requested_tool (GetTestServiceRuntime _) = ''get_test_service_runtime''"

text \<open>\<open>New\<close>: the handler of each tool.\<close>

fun New :: "('s, 'o) Services \<Rightarrow> tool_request \<Rightarrow> 's \<Rightarrow> 'o \<times> 's" where
  "New services (QueryTestDB input) = DB_Query (svc_DB services) input"
| "New services (StartTestDeployment input) = TestDeployJobs_Start (svc_TestDeployJobs services) input"
| "New services (GetTestDeploymentStatus input) = TestDeployJobs_Get (svc_TestDeployJobs services) input"
| "New services (GetTestDeploymentLogs input) = TestDeployJobs_Logs (svc_TestDeployJobs services) input"
| "New services (GetRecentDeployments input) = TestDeployJobs_Recent (svc_TestDeployJobs services) input"
| "New services (CancelTestDeployment input) = TestDeployJobs_Cancel (svc_TestDeployJobs services) input"
| "New services (GetTestProcessStatus input) = TestDeploy_Status (svc_TestDeploy services) input"
| "New services (RestartTestProcess input) = TestDeploy_Restart (svc_TestDeploy services) input"
| "New services ListTestDeployServices = TestDeploy_ListServices (svc_TestDeploy services) ()"
| "New services (ListTestDeployProcesses input) = TestDeploy_ListProcesses (svc_TestDeploy services) input"
| "New services (PlanTestDeployment input) = TestDeploy_Plan (svc_TestDeploy services) input"
| "New services (DeployTestService input) = TestDeploy_Deploy (svc_TestDeploy services) input"
| "New services (QueryTestRedis input) = Redis_Service_Query (svc_Redis services) input"
| "New services (GetTestUserSnapshot input) = UserSnapshot_Get (svc_UserSnapshot services) input"
| "New services (InspectTestRedis input) = RedisInspector_Inspect (svc_RedisInspector services) input"
| "New services ListTestLogSources = TestLogs_ListSources (svc_TestLogs services) ()"
| "New services (SearchTestLogs input) = TestLogs_Search (svc_TestLogs services) input"
| "New services (TraceTestLogs input) = TestLogs_Trace (svc_TestLogs services) input"
| "New services (CallTestReadonlyAPI input) = ReadOnlyAPI_Call (svc_ReadOnlyAPI services) input"
| "New services ListTestbotEndpoints = TestBot_List (svc_TestBot services) ()"
| "New services (CallTestbotAPI input) = TestBot_Call (svc_TestBot services) input"
| "New services ListTestRuntimeSources = TestLogs_ListRuntimeSources (svc_TestLogs services) ()"
| "New services (GetTestServiceRuntime input) = TestLogs_GetRuntime (svc_TestLogs services) input"

section \<open>Components of a server\<close>

text \<open>
  A server is an interleaving of its components: each of its steps is a step of a component, or
  leaves that component as it is. A run of the server then shows each component a run of its own.
\<close>

locale server_component =
  fixes start :: "'s \<Rightarrow> bool" and step :: "'s \<Rightarrow> 's \<Rightarrow> bool"
    and view :: "'s \<Rightarrow> 'c" and component_start :: "'c \<Rightarrow> bool" and component_step :: "'c \<Rightarrow> 'c \<Rightarrow> bool"
  assumes view_start: "start s \<Longrightarrow> component_start (view s)"
    and view_step: "step s t \<Longrightarrow> component_step (view s) (view t) \<or> view t = view s"
begin

lemma component_reached: "reach start step s \<Longrightarrow> reach component_start component_step (view s)"
proof (induction rule: reach.induct)
  case (reach_start s)
  then show ?case by (intro reach.reach_start view_start)
next
  case (reach_step s t)
  then show ?case using view_step[of s t] by (auto intro: reach.reach_step)
qed

end

end
