(* ===== verification/Program.thy ===== *)
theory Program
  imports Startup ToolServer
begin

text \<open>
  The program that runs: the services \<open>main\<close> wires for the started program behind the tools of the server,
  over one state, and the run of that server: its tool calls, the goroutines of its deployments and
  its shutdown, in any order. A tool call is one step; what it gets from outside is arbitrary. What
  the script does on its host, for a deployment or a restart, is outside the state.
\<close>

section \<open>The state and the answers\<close>

record server_state =
  sv_query :: endpoint_state
  sv_db :: "(QueryInput, db_log) session"
  sv_redis :: "(RedisInput, redis_log) session"
  sv_snapshot_log :: "snapshot_log list"
  sv_inspect_log :: "inspect_log list"
  sv_jobs :: system
  sv_bot :: bot_state
  sv_api :: "(http_request, api_log) session"
  sv_logs :: "bridge Lazy \<times> bridge_session"

datatype answer =
    AQuery "(http_query_error service_error, QueryOutput) result"
  | ADirectQuery "(query_error service_error, QueryOutput) result"
  | ARedis "(http_query_error redis_service_error, RedisOutput) result"
  | ADirectRedis "(direct_error redis_service_error, RedisOutput) result"
  | ASnapshot "(snapshot_error, GetOutput) result"
  | AInspect "(http_query_error redis_service_error inspect_error, http_query_error redis_service_error InspectOutput) result"
  | ADirectInspect "(direct_error redis_service_error inspect_error, direct_error redis_service_error InspectOutput) result"
  | AUnavailable
  | AApi "(api_error, ApiCallOutput) result option"
  | AEndpoints "EndpointInfo list"
  | ABot "(bot_error, BotCallOutput) result"
  | ASources "(log_error, SourcesOutput) result"
  | ASearch "(log_error, SearchOutput) result"
  | ATrace "(log_error, TraceOutput) result"
  | ARuntime "(log_error, GetRuntimeOutput) result"
  | AList "(deploy_error, string list) result"
  | ACommand "string \<times> deploy_error option"
  | AStatus "(deploy_error, ProcessStatus list) result"
  | ARestart "ProcessDeploymentResult list \<times> deploy_error option"
  | AStarted "(manager_error, string \<times> DeploymentStatus) result"
  | ATask "(manager_error, DeploymentTask) result"
  | ATaskLogs "(manager_error, string \<times> DeploymentStatus \<times> string list) result"
  | ARecent "(manager_error, DeploymentTask list) result option"
  | ACanceled "(manager_error, bool) result option"

text \<open>
  The outside of the services: the loggers, hashes and clocks in their records, the servers they
  ask. The clients in \<open>wd_query\<close> and the services are replaced by those of the program.
\<close>

record ('db, 'v) world =
  wd_unicode :: unicode
  wd_query :: query_services
  wd_driver :: "nat \<Rightarrow> ('db, 'v) driver"
  wd_db :: "query_error DbService"
  wd_snapshot :: "query_error SnapshotService"
  wd_redis_server :: "(string list, string, redis_reply) remote"
  wd_redis :: "direct_error RedisService"
  wd_api :: outside
  wd_api_net :: "(http_request, string, http_response) remote"
  wd_bot :: bot_world
  wd_bot_net :: net

text \<open>What one tool call meets: random bytes, the time, the runs of the script, the log backend.\<close>

record moment =
  mo_random :: "string option"
  mo_now :: int
  mo_script :: "string list \<Rightarrow> script_run"
  mo_notify :: "Webhook \<Rightarrow> DeploymentNotification \<Rightarrow> string option"
  mo_canceled :: bool
  mo_duration :: int
  mo_connect :: "(connect_error, bridge) result"

section \<open>The wiring of the queries\<close>

definition endpoint_services :: "'db program \<Rightarrow> ('db, 'v) world \<Rightarrow> query_services" where
  "endpoint_services p W = (wd_query W)\<lparr>qs_client := pr_client p\<rparr>"

text \<open>The remote of a direct client: the driver may answer each question differently.\<close>

definition mysql_remote :: "('db, 'v) world \<Rightarrow> 'db MySQLClient \<Rightarrow> (QueryInput, query_error, QueryOutput) remote" where
  "mysql_remote W c qs = fst (MySQL_Query (wd_unicode W) c (wd_driver W (length qs)) (last qs))"

definition redis_remote :: "('db, 'v) world \<Rightarrow> (RedisInput, direct_error, RedisOutput) remote" where
  "redis_remote W qs = fst (Direct_Query (wd_redis_server W) (redis_duration (wd_redis W)) (last qs)
     (\<lparr>sent = map (str_fields \<circ> Command) (butlast qs), audit = []\<rparr> :: (string list, unit) session))"

definition run_db :: "'db program \<Rightarrow> ('db, 'v) world \<Rightarrow> (QueryInput, server_state, answer) operation" where
  "run_db p W input s =
    (case pr_db p of
       None \<Rightarrow> (case query_test_db (wd_unicode W) (endpoint_services p W) input (sv_query s) of
         (r, es) \<Rightarrow> (AQuery r, s\<lparr>sv_query := es\<rparr>))
     | Some c \<Rightarrow> (case Service_Query (wd_unicode W) ((wd_db W)\<lparr>db_client := mysql_remote W c\<rparr>) input (sv_db s) of
         (r, st) \<Rightarrow> (ADirectQuery r, s\<lparr>sv_db := st\<rparr>)))"

definition direct_redis_service :: "('db, 'v) world \<Rightarrow> direct_error RedisService" where
  "direct_redis_service W = (wd_redis W)\<lparr>redis_client := redis_remote W\<rparr>"

definition run_redis :: "'db program \<Rightarrow> ('db, 'v) world \<Rightarrow> (RedisInput, server_state, answer) operation" where
  "run_redis p W input s =
    (case pr_redis p of
       None \<Rightarrow> (case query_test_redis (wd_unicode W) (endpoint_services p W) input (sv_query s) of
         (r, es) \<Rightarrow> (ARedis r, s\<lparr>sv_query := es\<rparr>))
     | Some _ \<Rightarrow> (case Redis_Query (wd_unicode W) (direct_redis_service W) input (sv_redis s) of
         (r, st) \<Rightarrow> (ADirectRedis r, s\<lparr>sv_redis := st\<rparr>)))"

definition run_inspect :: "'db program \<Rightarrow> ('db, 'v) world \<Rightarrow> (InspectInput, server_state, answer) operation" where
  "run_inspect p W input s =
    (case pr_redis p of
       None \<Rightarrow> (case inspect_test_redis (wd_unicode W) (endpoint_services p W) input (sv_query s) of
         (r, es) \<Rightarrow> (AInspect r, s\<lparr>sv_query := es\<rparr>))
     | Some _ \<Rightarrow> (case Inspect (wd_unicode W) (qs_inspect (wd_query W))
           (Redis_Query (wd_unicode W) (direct_redis_service W)) input (sv_redis s) of
         (r, st, logs) \<Rightarrow> (ADirectInspect r, s\<lparr>sv_redis := st, sv_inspect_log := sv_inspect_log s @ logs\<rparr>)))"

definition run_snapshot :: "'db program \<Rightarrow> ('db, 'v) world \<Rightarrow> (GetInput, server_state, answer) operation" where
  "run_snapshot p W input s =
    (case pr_db p of
       None \<Rightarrow> (case get_test_user_snapshot (endpoint_services p W) input (sv_query s) of
         (r, es) \<Rightarrow> (ASnapshot r, s\<lparr>sv_query := es\<rparr>))
     | Some c \<Rightarrow> (case Snapshot_Get (wd_snapshot W) (send (mysql_remote W c)) input (sv_db s) of
         (r, st, logs) \<Rightarrow> (ASnapshot r, s\<lparr>sv_db := st, sv_snapshot_log := sv_snapshot_log s @ logs\<rparr>)))"

section \<open>The wiring of the other services\<close>

definition run_api :: "'db program \<Rightarrow> ('db, 'v) world \<Rightarrow> (ApiCallInput, server_state, answer) operation" where
  "run_api p W input s =
    (case pr_api p of
       None \<Rightarrow> (AUnavailable, s)
     | Some service \<Rightarrow> (case Api_Call (wd_api W) service (wd_api_net W) input (sv_api s) of
         None \<Rightarrow> (AApi None, s)
       | Some (r, st) \<Rightarrow> (AApi (Some r), s\<lparr>sv_api := st\<rparr>)))"

definition run_bot_list :: "'db program \<Rightarrow> (unit, server_state, answer) operation" where
  "run_bot_list p _ s = (case pr_bot p of None \<Rightarrow> AUnavailable | Some service \<Rightarrow> AEndpoints (Bot_List service), s)"

definition run_bot :: "'db program \<Rightarrow> ('db, 'v) world \<Rightarrow> (BotCallInput, server_state, answer) operation" where
  "run_bot p W input s =
    (case pr_bot p of
       None \<Rightarrow> (AUnavailable, s)
     | Some service \<Rightarrow> (case Bot_Call (wd_bot W) service (wd_bot_net W) input (sv_bot s) of
         (r, b) \<Rightarrow> (ABot r, s\<lparr>sv_bot := b\<rparr>)))"

definition run_logs :: "'db program \<Rightarrow> ((log_error, 'o) result \<Rightarrow> answer) \<Rightarrow> 'o lazy_run \<Rightarrow> moment
    \<Rightarrow> server_state \<Rightarrow> answer \<times> server_state" where
  "run_logs p wrap tool mo s =
    (case pr_logs p of
       None \<Rightarrow> (wrap logs_unavailable, s)
     | Some _ \<Rightarrow> (case tool (mo_connect mo) (sv_logs s) of (r, ls) \<Rightarrow> (wrap r, s\<lparr>sv_logs := ls\<rparr>)))"

text \<open>\<open>Start\<close> of the manager launches the goroutine of the deployment it has accepted.\<close>

definition launch :: "string \<Rightarrow> DeploymentInput \<Rightarrow> Manager \<Rightarrow> system \<Rightarrow> system" where
  "launch did input m j = j\<lparr>manager := m, contexts := (did, Live) # contexts j,
     workers := (did, \<lparr>w_input = input, w_progress = Launched\<rparr>) # workers j, used := did # used j\<rparr>"

abbreviation mo_id :: "moment \<Rightarrow> string option" where
  "mo_id mo \<equiv> newDeploymentID (mo_random mo)"

definition run_start :: "moment \<Rightarrow> (DeploymentInput, server_state, answer) operation" where
  "run_start mo input s =
    (case Manager_Start (manager (sv_jobs s)) (mo_id mo) (mo_now mo) input of
       (Inl e, m) \<Rightarrow> (AStarted (Inl e), s\<lparr>sv_jobs := (sv_jobs s)\<lparr>manager := m\<rparr>\<rparr>)
     | (Inr out, m) \<Rightarrow> (AStarted (Inr out), s\<lparr>sv_jobs := launch (fst out) input m (sv_jobs s)\<rparr>))"

definition run_cancel :: "(string, server_state, answer) operation" where
  "run_cancel did s =
    (case Manager_Cancel (manager (sv_jobs s)) did of
       None \<Rightarrow> (ACanceled None, s)
     | Some (r, ids) \<Rightarrow> (ACanceled (Some r), s\<lparr>sv_jobs := cancel_all ids (sv_jobs s)\<rparr>))"

text \<open>The deployment service, with a notifier when there is a webhook.\<close>

definition program_deploy :: "'db program \<Rightarrow> moment \<Rightarrow> deploy_service" where
  "program_deploy p mo =
    (case pr_webhook p of
       None \<Rightarrow> NewDeployService (mo_script mo) True
     | Some webhook \<Rightarrow> NewServiceWithNotifier (mo_script mo) (Some (mo_notify mo webhook)) True)"

definition main_services :: "'db program \<Rightarrow> ('db, 'v) world \<Rightarrow> moment \<Rightarrow> (server_state, answer) Services" where
  "main_services p W mo =
    \<lparr>svc_DB = \<lparr>DB_Query = run_db p W\<rparr>,
     svc_Redis = \<lparr>Redis_Service_Query = run_redis p W\<rparr>,
     svc_UserSnapshot = \<lparr>UserSnapshot_Get = run_snapshot p W\<rparr>,
     svc_RedisInspector = \<lparr>RedisInspector_Inspect = run_inspect p W\<rparr>,
     svc_ReadOnlyAPI = \<lparr>ReadOnlyAPI_Call = run_api p W\<rparr>,
     svc_TestBot = \<lparr>TestBot_List = run_bot_list p,
        TestBot_Call = run_bot p W\<rparr>,
     svc_TestLogs = \<lparr>TestLogs_ListSources = (\<lambda>_. run_logs p ASources lazy_ListSources mo),
        TestLogs_Search = (\<lambda>input. run_logs p ASearch (lazy_Search input) mo),
        TestLogs_Trace = (\<lambda>input. run_logs p ATrace (lazy_Trace input) mo),
        TestLogs_ListRuntimeSources = (\<lambda>_. run_logs p ASources lazy_ListRuntimeSources mo),
        TestLogs_GetRuntime = (\<lambda>input. run_logs p ARuntime (lazy_GetRuntime input) mo)\<rparr>,
     svc_TestDeploy = \<lparr>TestDeploy_ListServices = (\<lambda>_ s. (AList (ListServices (ds_runner (program_deploy p mo))), s)),
        TestDeploy_ListProcesses = (\<lambda>service s. (AList (ListProcesses (ds_runner (program_deploy p mo)) service), s)),
        TestDeploy_Plan = (\<lambda>input s. (ACommand (Plan (ds_runner (program_deploy p mo)) input), s)),
        TestDeploy_Deploy = (\<lambda>input s. (ACommand (Deploy (ds_runner (program_deploy p mo)) (ds_notifier (program_deploy p mo))
        (mo_canceled mo) (mo_duration mo) input), s)),
        TestDeploy_Status = (\<lambda>input s. (AStatus (Service_Status (ds_runner (program_deploy p mo)) input), s)),
        TestDeploy_Restart = (\<lambda>input s. (ARestart (Restart (ds_runner (program_deploy p mo)) input), s))\<rparr>,
     svc_TestDeployJobs = \<lparr>TestDeployJobs_Start = run_start mo,
        TestDeployJobs_Get = (\<lambda>did s. (ATask (Manager_Get (manager (sv_jobs s)) did), s)),
        TestDeployJobs_Logs = (\<lambda>did s. (ATaskLogs (Manager_Logs (manager (sv_jobs s)) did), s)),
        TestDeployJobs_Recent = (\<lambda>lim s. (ARecent (Manager_Recent (manager (sv_jobs s)) lim), s)),
        TestDeployJobs_Cancel = run_cancel\<rparr>\<rparr>"

section \<open>The run of the server\<close>

definition server_start :: "'db program \<Rightarrow> server_state \<Rightarrow> bool" where
  "server_start p s \<longleftrightarrow> sent (es_http (sv_query s)) = [] \<and> sent (sv_db s) = [] \<and> sent (sv_redis s) = []
    \<and> sv_jobs s = \<lparr>manager = pr_manager p, contexts = [], workers = [], used = []\<rparr>
    \<and> bot_start (sv_bot s) \<and> sent (sv_api s) = [] \<and> sv_logs s = (newLazy, empty_session)"

definition fresh_id :: "moment \<Rightarrow> system \<Rightarrow> bool" where
  "fresh_id mo j \<longleftrightarrow> (case mo_id mo of None \<Rightarrow> True | Some did \<Rightarrow> did \<notin> set (used j))"

inductive server_step :: "'db program \<Rightarrow> ('db, 'v) world \<Rightarrow> server_state \<Rightarrow> server_state \<Rightarrow> bool"
  for p :: "'db program" and W :: "('db, 'v) world" where
  call: "fresh_id mo (sv_jobs s) \<Longrightarrow> server_step p W s (snd (New (main_services p W mo) req s))"
| goroutine: "worker_step (wd_unicode W) (sv_jobs s) j \<Longrightarrow> server_step p W s (s\<lparr>sv_jobs := j\<rparr>)"
| deadline: "map_of (contexts (sv_jobs s)) did = Some Live \<Longrightarrow>
    server_step p W s (s\<lparr>sv_jobs := (sv_jobs s)\<lparr>contexts := AList.update did CtxDeadline (contexts (sv_jobs s))\<rparr>\<rparr>)"
| close_manager: "server_step p W s (s\<lparr>sv_jobs := cancel_all (close_cancels (manager (sv_jobs s))) (sv_jobs s)\<rparr>)"
| close_logs: "server_step p W s (s\<lparr>sv_logs := (snd (lazy_Close (fst (sv_logs s))), snd (sv_logs s))\<rparr>)"

inductive_cases server_stepE: "server_step p W s t"

lemmas server_step_cases = server_stepE [consumes 1, case_names call goroutine deadline close_manager close_logs]

section \<open>What an operation leaves alone\<close>

named_theorems frame \<open>the parts of the state an operation keeps\<close>

lemma run_db_frame [frame]:
  "sv_redis (snd (run_db p W i s)) = sv_redis s" "sv_jobs (snd (run_db p W i s)) = sv_jobs s"
  "sv_bot (snd (run_db p W i s)) = sv_bot s" "sv_api (snd (run_db p W i s)) = sv_api s"
  "sv_logs (snd (run_db p W i s)) = sv_logs s"
  by (auto simp: run_db_def split: option.split prod.split)

lemma run_redis_frame [frame]:
  "sv_db (snd (run_redis p W i s)) = sv_db s" "sv_jobs (snd (run_redis p W i s)) = sv_jobs s"
  "sv_bot (snd (run_redis p W i s)) = sv_bot s" "sv_api (snd (run_redis p W i s)) = sv_api s"
  "sv_logs (snd (run_redis p W i s)) = sv_logs s"
  by (auto simp: run_redis_def split: option.split prod.split)

lemma run_inspect_frame [frame]:
  "sv_db (snd (run_inspect p W i s)) = sv_db s" "sv_jobs (snd (run_inspect p W i s)) = sv_jobs s"
  "sv_bot (snd (run_inspect p W i s)) = sv_bot s" "sv_api (snd (run_inspect p W i s)) = sv_api s"
  "sv_logs (snd (run_inspect p W i s)) = sv_logs s"
  by (auto simp: run_inspect_def split: option.split prod.split)

lemma run_snapshot_frame [frame]:
  "sv_redis (snd (run_snapshot p W i s)) = sv_redis s" "sv_jobs (snd (run_snapshot p W i s)) = sv_jobs s"
  "sv_bot (snd (run_snapshot p W i s)) = sv_bot s" "sv_api (snd (run_snapshot p W i s)) = sv_api s"
  "sv_logs (snd (run_snapshot p W i s)) = sv_logs s"
  by (auto simp: run_snapshot_def split: option.split prod.split)

lemma run_api_frame [frame]:
  "sv_query (snd (run_api p W i s)) = sv_query s" "sv_db (snd (run_api p W i s)) = sv_db s"
  "sv_redis (snd (run_api p W i s)) = sv_redis s" "sv_jobs (snd (run_api p W i s)) = sv_jobs s"
  "sv_bot (snd (run_api p W i s)) = sv_bot s" "sv_logs (snd (run_api p W i s)) = sv_logs s"
  by (auto simp: run_api_def split: option.split prod.split)

lemma run_bot_frame [frame]:
  "sv_query (snd (run_bot p W i s)) = sv_query s" "sv_db (snd (run_bot p W i s)) = sv_db s"
  "sv_redis (snd (run_bot p W i s)) = sv_redis s" "sv_jobs (snd (run_bot p W i s)) = sv_jobs s"
  "sv_api (snd (run_bot p W i s)) = sv_api s" "sv_logs (snd (run_bot p W i s)) = sv_logs s"
  by (auto simp: run_bot_def split: option.split prod.split)

lemma run_bot_list_frame [frame]: "snd (run_bot_list p u s) = s"
  by (simp add: run_bot_list_def)

lemma run_logs_frame [frame]:
  "sv_query (snd (run_logs p wrap tool mo s)) = sv_query s" "sv_db (snd (run_logs p wrap tool mo s)) = sv_db s"
  "sv_redis (snd (run_logs p wrap tool mo s)) = sv_redis s" "sv_jobs (snd (run_logs p wrap tool mo s)) = sv_jobs s"
  "sv_bot (snd (run_logs p wrap tool mo s)) = sv_bot s" "sv_api (snd (run_logs p wrap tool mo s)) = sv_api s"
  by (auto simp: run_logs_def split: option.split prod.split)

lemma run_start_frame [frame]:
  "sv_query (snd (run_start mo i s)) = sv_query s" "sv_db (snd (run_start mo i s)) = sv_db s"
  "sv_redis (snd (run_start mo i s)) = sv_redis s" "sv_api (snd (run_start mo i s)) = sv_api s"
  "sv_bot (snd (run_start mo i s)) = sv_bot s" "sv_logs (snd (run_start mo i s)) = sv_logs s"
  by (auto simp: run_start_def split: sum.split prod.split)

lemma run_cancel_frame [frame]:
  "sv_query (snd (run_cancel i s)) = sv_query s" "sv_db (snd (run_cancel i s)) = sv_db s"
  "sv_redis (snd (run_cancel i s)) = sv_redis s" "sv_api (snd (run_cancel i s)) = sv_api s"
  "sv_bot (snd (run_cancel i s)) = sv_bot s" "sv_logs (snd (run_cancel i s)) = sv_logs s"
  by (auto simp: run_cancel_def split: option.split prod.split)

section \<open>The components of the run\<close>

lemma Manager_Start_refused: "Manager_Start m did now input = (Inl e, m') \<Longrightarrow> m' = m"
  by (auto simp: Manager_Start_def split: sum.splits option.splits)

lemma Manager_Start_id: "Manager_Start m did now input = (Inr out, m') \<Longrightarrow> did = Some (fst out)"
  by (auto simp: Manager_Start_def split: sum.splits option.splits)

lemma run_start_jobs:
  assumes "fresh_id mo (sv_jobs s)"
  shows "client_step (sv_jobs s) (sv_jobs (snd (run_start mo i s))) \<or> sv_jobs (snd (run_start mo i s)) = sv_jobs s"
proof -
  obtain r m where r: "Manager_Start (manager (sv_jobs s)) (mo_id mo) (mo_now mo) i = (r, m)" by force
  show ?thesis
  proof (cases r)
    case (Inl e)
    then show ?thesis using Manager_Start_refused[of "manager (sv_jobs s)" "mo_id mo" "mo_now mo" i e m] r
      by (simp add: run_start_def)
  next
    case (Inr out)
    have id: "mo_id mo = Some (fst out)" using r Inr by (auto dest: Manager_Start_id)
    have "client_step (sv_jobs s) (launch (fst out) i m (sv_jobs s))"
      unfolding launch_def
      by (rule step_start) (use r Inr id assms in \<open>auto simp: fresh_id_def\<close>)
    then show ?thesis using r Inr by (simp add: run_start_def)
  qed
qed

lemma run_cancel_jobs:
  "client_step (sv_jobs s) (sv_jobs (snd (run_cancel i s))) \<or> sv_jobs (snd (run_cancel i s)) = sv_jobs s"
  by (auto simp: run_cancel_def intro: step_cancel split: option.split prod.split)

interpretation jobs: server_component "server_start p" "server_step p W" sv_jobs
    "\<lambda>j. j = \<lparr>manager = pr_manager p, contexts = [], workers = [], used = []\<rparr>" "step (wd_unicode W)" for p W
proof unfold_locales
  show "sv_jobs s = \<lparr>manager = pr_manager p, contexts = [], workers = [], used = []\<rparr>" if "server_start p s" for s
    using that by (simp add: server_start_def)
  show "step (wd_unicode W) (sv_jobs s) (sv_jobs t) \<or> sv_jobs t = sv_jobs s" if "server_step p W s t" for s t
    using that
  proof (cases rule: server_step_cases)
    case (call mo req)
    then show ?thesis
      using run_start_jobs[OF call(2)] run_cancel_jobs by (cases req) (simp_all add: main_services_def frame step_def, blast+)
  next
    case (goroutine j)
    then show ?thesis by (simp add: step_def)
  next
    case (deadline did)
    then show ?thesis by (auto simp: step_def intro: step_deadline)
  next
    case close_manager
    then show ?thesis by (auto simp: step_def intro: step_close)
  qed simp
qed

text \<open>The four query tools over the shared HTTP client.\<close>

lemma run_endpoint:
  "sv_query (snd (run_db p W q s)) = sv_query s \<or> endpoint_step (wd_unicode W) (endpoint_services p W) (sv_query s) (sv_query (snd (run_db p W q s)))"
  "sv_query (snd (run_redis p W r s)) = sv_query s \<or> endpoint_step (wd_unicode W) (endpoint_services p W) (sv_query s) (sv_query (snd (run_redis p W r s)))"
  "sv_query (snd (run_inspect p W i s)) = sv_query s \<or> endpoint_step (wd_unicode W) (endpoint_services p W) (sv_query s) (sv_query (snd (run_inspect p W i s)))"
  "sv_query (snd (run_snapshot p W g s)) = sv_query s \<or> endpoint_step (wd_unicode W) (endpoint_services p W) (sv_query s) (sv_query (snd (run_snapshot p W g s)))"
  by (auto simp: run_db_def run_redis_def run_inspect_def run_snapshot_def case_prod_unfold intro: endpoint_step.intros split: option.split)

interpretation query: server_component "server_start p" "server_step p W" sv_query
    "\<lambda>es. sent (es_http es) = []" "endpoint_step (wd_unicode W) (endpoint_services p W)" for p W
proof unfold_locales
  show "sent (es_http (sv_query s)) = []" if "server_start p s" for s using that by (simp add: server_start_def)
  show "endpoint_step (wd_unicode W) (endpoint_services p W) (sv_query s) (sv_query t) \<or> sv_query t = sv_query s"
    if "server_step p W s t" for s t
    using that
  proof (cases rule: server_step_cases)
    case (call mo req)
    then show ?thesis using run_endpoint[of p W _ s] by (cases req) (simp_all add: main_services_def frame, blast+)
  qed simp_all
qed

text \<open>The bot, when there is one.\<close>

definition bot_component :: "'db program \<Rightarrow> ('db, 'v) world \<Rightarrow> bot_state \<Rightarrow> bot_state \<Rightarrow> bool" where
  "bot_component p W b b' \<longleftrightarrow> (case pr_bot p of None \<Rightarrow> False | Some service \<Rightarrow> bot_step (wd_bot W) service (wd_bot_net W) b b')"

lemma run_bot_component:
  "bot_component p W (sv_bot s) (sv_bot (snd (run_bot p W i s))) \<or> sv_bot (snd (run_bot p W i s)) = sv_bot s"
  by (auto simp: run_bot_def bot_component_def bot_step_def case_prod_unfold split: option.split)

interpretation bot_tools: server_component "server_start p" "server_step p W" sv_bot bot_start "bot_component p W" for p W
proof unfold_locales
  show "bot_start (sv_bot s)" if "server_start p s" for s using that by (simp add: server_start_def)
  show "bot_component p W (sv_bot s) (sv_bot t) \<or> sv_bot t = sv_bot s" if "server_step p W s t" for s t
    using that
  proof (cases rule: server_step_cases)
    case (call mo req)
    then show ?thesis using run_bot_component[of p W s] by (cases req) (simp_all add: main_services_def frame)
  qed simp_all
qed

text \<open>The read-only API, when there is one.\<close>

definition api_component :: "'db program \<Rightarrow> ('db, 'v) world \<Rightarrow> (http_request, api_log) session \<Rightarrow> (http_request, api_log) session \<Rightarrow> bool" where
  "api_component p W st st' \<longleftrightarrow> (case pr_api p of None \<Rightarrow> False
     | Some service \<Rightarrow> \<exists>input r. Api_Call (wd_api W) service (wd_api_net W) input st = Some (r, st'))"

lemma run_api_component:
  "api_component p W (sv_api s) (sv_api (snd (run_api p W i s))) \<or> sv_api (snd (run_api p W i s)) = sv_api s"
  by (auto simp: run_api_def api_component_def split: option.split prod.split)

interpretation api_tool: server_component "server_start p" "server_step p W" sv_api "\<lambda>st. sent st = []" "api_component p W" for p W
proof unfold_locales
  show "sent (sv_api s) = []" if "server_start p s" for s using that by (simp add: server_start_def)
  show "api_component p W (sv_api s) (sv_api t) \<or> sv_api t = sv_api s" if "server_step p W s t" for s t
    using that
  proof (cases rule: server_step_cases)
    case (call mo req)
    then show ?thesis using run_api_component[of p W s] by (cases req) (simp_all add: main_services_def frame)
  qed simp_all
qed

text \<open>The questions to the direct clients.\<close>

definition db_component :: "'db program \<Rightarrow> ('db, 'v) world \<Rightarrow> (QueryInput, db_log) session \<Rightarrow> (QueryInput, db_log) session \<Rightarrow> bool" where
  "db_component p W st st' \<longleftrightarrow> (case pr_db p of None \<Rightarrow> False | Some c \<Rightarrow>
     (\<exists>i. st' = snd (Service_Query (wd_unicode W) ((wd_db W)\<lparr>db_client := mysql_remote W c\<rparr>) i st))
     \<or> (\<exists>i. st' = fst (snd (Snapshot_Get (wd_snapshot W) (send (mysql_remote W c)) i st))))"

lemma run_db_component:
  "db_component p W (sv_db s) (sv_db (snd (run_db p W q s))) \<or> sv_db (snd (run_db p W q s)) = sv_db s"
  "db_component p W (sv_db s) (sv_db (snd (run_snapshot p W g s))) \<or> sv_db (snd (run_snapshot p W g s)) = sv_db s"
  by (auto simp: run_db_def run_snapshot_def db_component_def case_prod_unfold split: option.split)

interpretation db_tools: server_component "server_start p" "server_step p W" sv_db "\<lambda>st. sent st = []" "db_component p W" for p W
proof unfold_locales
  show "sent (sv_db s) = []" if "server_start p s" for s using that by (simp add: server_start_def)
  show "db_component p W (sv_db s) (sv_db t) \<or> sv_db t = sv_db s" if "server_step p W s t" for s t
    using that
  proof (cases rule: server_step_cases)
    case (call mo req)
    then show ?thesis using run_db_component[of p W s] by (cases req) (simp_all add: main_services_def frame)
  qed simp_all
qed

definition redis_component :: "'db program \<Rightarrow> ('db, 'v) world \<Rightarrow> (RedisInput, redis_log) session \<Rightarrow> (RedisInput, redis_log) session \<Rightarrow> bool" where
  "redis_component p W st st' \<longleftrightarrow> pr_redis p \<noteq> None \<and>
     ((\<exists>i. st' = snd (Redis_Query (wd_unicode W) (direct_redis_service W) i st))
     \<or> (\<exists>i. st' = fst (snd (Inspect (wd_unicode W) (qs_inspect (wd_query W)) (Redis_Query (wd_unicode W) (direct_redis_service W)) i st))))"

lemma run_redis_component:
  "redis_component p W (sv_redis s) (sv_redis (snd (run_redis p W q s))) \<or> sv_redis (snd (run_redis p W q s)) = sv_redis s"
  "redis_component p W (sv_redis s) (sv_redis (snd (run_inspect p W i s))) \<or> sv_redis (snd (run_inspect p W i s)) = sv_redis s"
  by (auto simp: run_redis_def run_inspect_def redis_component_def case_prod_unfold split: option.split)

interpretation redis_tools: server_component "server_start p" "server_step p W" sv_redis "\<lambda>st. sent st = []" "redis_component p W" for p W
proof unfold_locales
  show "sent (sv_redis s) = []" if "server_start p s" for s using that by (simp add: server_start_def)
  show "redis_component p W (sv_redis s) (sv_redis t) \<or> sv_redis t = sv_redis s" if "server_step p W s t" for s t
    using that
  proof (cases rule: server_step_cases)
    case (call mo req)
    then show ?thesis using run_redis_component[of p W s] by (cases req) (simp_all add: main_services_def frame)
  qed simp_all
qed

text \<open>The session of the log backend, when one is configured; the shutdown closes it in any case.\<close>

definition log_component :: "'db program \<Rightarrow> bridge Lazy \<times> bridge_session \<Rightarrow> bridge Lazy \<times> bridge_session \<Rightarrow> bool" where
  "log_component p ls ls' \<longleftrightarrow> ls' = (snd (lazy_Close (fst ls)), snd ls) \<or> pr_logs p \<noteq> None \<and> (\<exists>outcome.
       ls' = snd (lazy_ListSources outcome ls) \<or> ls' = snd (lazy_ListRuntimeSources outcome ls)
     \<or> (\<exists>i. ls' = snd (lazy_Search i outcome ls)) \<or> (\<exists>i. ls' = snd (lazy_Trace i outcome ls))
     \<or> (\<exists>i. ls' = snd (lazy_GetRuntime i outcome ls)))"

lemma run_logs_kept: "sv_logs (snd (run_logs p wrap tool mo s)) =
    (if pr_logs p = None then sv_logs s else snd (tool (mo_connect mo) (sv_logs s)))"
  by (auto simp: run_logs_def split: option.split prod.split)

interpretation log_tools: server_component "server_start p" "server_step p W" sv_logs
    "\<lambda>ls. ls = (newLazy, empty_session)" "log_component p" for p W
proof unfold_locales
  show "sv_logs s = (newLazy, empty_session)" if "server_start p s" for s using that by (simp add: server_start_def)
  show "log_component p (sv_logs s) (sv_logs t) \<or> sv_logs t = sv_logs s" if "server_step p W s t" for s t
    using that
  proof (cases rule: server_step_cases)
    case (call mo req)
    then show ?thesis by (cases req) (auto simp: main_services_def frame run_logs_kept log_component_def)
  qed (simp_all add: log_component_def)
qed

section \<open>What the components ask\<close>

text \<open>A call of one of the five log tools, with the JSON of an input of that tool as its arguments.\<close>

definition log_admitted :: "tool_call \<Rightarrow> bool" where
  "log_admitted c \<longleftrightarrow> (\<exists>arguments.
     unmarshal (decode_map decode_any_at ANil) arguments [] = Some (tool_arguments c)
     \<and> (tool_name c \<in> {''list_test_log_sources'', ''list_test_runtime_sources''} \<and> arguments = encode_nothing
      \<or> tool_name c = ''search_test_logs'' \<and> (\<exists>i. arguments = encode_search i)
      \<or> tool_name c = ''trace_test_logs'' \<and> (\<exists>i. arguments = encode_trace i)
      \<or> tool_name c = ''get_test_service_runtime'' \<and> (\<exists>i. arguments = encode_runtime i)))"

lemma bridge_call_asks:
  assumes "\<And>args. unmarshal (decode_map decode_any_at ANil) text [] = Some args \<Longrightarrow> log_admitted \<lparr>tool_name = name, tool_arguments = args\<rparr>"
  shows "\<exists>cs. sent (snd (bridge_call f logger down decode zero name text st)) = sent st @ cs \<and> list_all log_admitted cs"
  using assms by (auto simp: bridge_call_def send_def write_log_def split: option.split sum.split)

lemma bridge_asks:
  "\<exists>cs. sent (snd (bridge_ListSources b st)) = sent st @ cs \<and> list_all log_admitted cs"
  "\<exists>cs. sent (snd (bridge_ListRuntimeSources b st)) = sent st @ cs \<and> list_all log_admitted cs"
  "\<exists>cs. sent (snd (bridge_Search b search st)) = sent st @ cs \<and> list_all log_admitted cs"
  "\<exists>cs. sent (snd (bridge_Trace b trace st)) = sent st @ cs \<and> list_all log_admitted cs"
  "\<exists>cs. sent (snd (bridge_GetRuntime b runtime st)) = sent st @ cs \<and> list_all log_admitted cs"
  unfolding bridge_ListSources_def bridge_ListRuntimeSources_def bridge_Search_def bridge_Trace_def bridge_GetRuntime_def
  by (rule bridge_call_asks, force simp: log_admitted_def)+

lemma lazy_tool_asks:
  assumes "\<And>b st. \<exists>cs. sent (snd (use b st)) = sent st @ cs \<and> list_all P cs"
  shows "\<exists>cs. sent (snd (snd (lazy_tool outcome use ls))) = sent (snd ls) @ cs \<and> list_all P cs"
proof (cases "lazy_get outcome (fst ls)")
  case (Pair r l)
  then show ?thesis using assms[of "projr r" "snd ls"] by (cases r) (simp_all add: lazy_tool_def case_prod_unfold)
qed

lemma log_component_asks:
  assumes "log_component p ls ls'"
  shows "\<exists>cs. sent (snd ls') = sent (snd ls) @ cs \<and> list_all log_admitted cs \<and> (pr_logs p = None \<longrightarrow> cs = [])"
proof (cases "ls' = (snd (lazy_Close (fst ls)), snd ls)")
  case True
  then show ?thesis by simp
next
  case False
  then have "pr_logs p \<noteq> None" using assms by (auto simp: log_component_def)
  then have None: "(pr_logs p = None \<longrightarrow> cs = []) = True" for cs :: "tool_call list" by (simp only: simp_thms)
  have "\<exists>cs. sent (snd ls') = sent (snd ls) @ cs \<and> list_all log_admitted cs"
    using assms False unfolding log_component_def lazy_ListSources_def lazy_ListRuntimeSources_def lazy_Search_def lazy_Trace_def
      lazy_GetRuntime_def by (elim disjE conjE exE; (simp; fail | (hypsubst, intro lazy_tool_asks bridge_asks)))
  then show ?thesis unfolding None simp_thms .
qed

lemma admitted_question: "db_admitted U q \<Longrightarrow> question_ok U q"
  by (auto simp: db_admitted_def question_ok_def EngineRedis_def EngineXianshiSQL_def EngineConfigSQL_def)

lemma db_component_asks:
  assumes "db_component p W st st'"
  shows "\<exists>qs. sent st' = sent st @ qs \<and> list_all (question_ok (wd_unicode W)) qs"
proof -
  obtain c where "pr_db p = Some c" using assms by (auto simp: db_component_def split: option.splits)
  then consider (query) i where "st' = snd (Service_Query (wd_unicode W) ((wd_db W)\<lparr>db_client := mysql_remote W c\<rparr>) i st)"
    | (snapshot) i where "st' = fst (snd (Snapshot_Get (wd_snapshot W) (send (mysql_remote W c)) i st))"
    using assms by (auto simp: db_component_def)
  then show ?thesis
  proof cases
    case query
    then show ?thesis using db.exec_sent[of "wd_unicode W" "(wd_db W)\<lparr>db_client := mysql_remote W c\<rparr>" i st] admitted_question
      by (fastforce simp: list_all_iff)
  next
    case snapshot
    have "list_all (question_ok (wd_unicode W)) (map (\<lambda>t. \<lparr>Statement = t, Engine = EngineXianshiSQL\<rparr>) (snapshot_statements i))"
      if "valid_input i"
      using snapshot_statements_ok[OF that] by (simp add: list_all_iff question_ok_def EngineRedis_def EngineXianshiSQL_def)
    then show ?thesis unfolding snapshot Snapshot_Get_asks by simp
  qed
qed

lemma redis_component_asks:
  assumes "redis_component p W st st'"
  shows "\<exists>qs. sent st' = sent st @ qs \<and> list_all (redis_admitted (wd_unicode W)) qs"
proof -
  consider (query) i where "st' = snd (Redis_Query (wd_unicode W) (direct_redis_service W) i st)"
    | (inspect) i where "st' = snd (inspect_exec (wd_unicode W) (qs_inspect (wd_query W)) (Redis_Query (wd_unicode W) (direct_redis_service W)) i st)"
    using assms by (auto simp: redis_component_def inspect_exec_def case_prod_unfold)
  then show ?thesis
    by cases (use redis.exec_sent inspect.exec_sent in blast)+
qed

lemma api_component_asks:
  assumes "api_component p W st st'" "pr_api p = Some service" "config_ok (w_urls (wd_api W)) config"
    "NewApiService config client logger = Some service"
  shows "\<exists>qs. sent st' = sent st @ qs
    \<and> list_all (\<lambda>req. \<exists>ep. ep \<in> set (ac_Endpoints config) \<and> api_admitted (wd_api W) ep req) qs"
proof -
  obtain input r where c: "Api_Call (wd_api W) service (wd_api_net W) input st = Some (r, st')"
    using assms(1,2) by (auto simp: api_component_def)
  note a = api_request_cases[OF assms(3,4), of input]
  show ?thesis
  proof (cases "api_request (wd_api W) service input")
    case None
    then show ?thesis using a by simp
  next
    case (Some x)
    show ?thesis
    proof (cases x)
      case (Inl e)
      then show ?thesis using c Some by (intro exI[of _ "[]"]) (simp add: Api_Call_def)
    next
      case (Inr y)
      obtain ep req where y: "y = (ep, req)" by force
      have "sent st' = sent st @ [req]"
        using c by (auto simp: Api_Call_def Some Inr y send_def split: sum.splits)
      then show ?thesis using a by (intro exI[of _ "[req]"]) (auto simp: Some Inr y)
    qed
  qed
qed

text \<open>What is asked of every step is asked of the whole run.\<close>

lemma reach_asks:
  assumes "reach (\<lambda>st. sent st = []) cstep st"
    and "\<And>st st'. cstep st st' \<Longrightarrow> \<exists>qs. sent st' = sent st @ qs \<and> list_all P qs"
  shows "list_all P (sent st)"
  using assms(1) by induction (use assms(2) in \<open>fastforce simp: list_all_iff\<close>)+

lemma reach_log_asks:
  assumes "reach (\<lambda>ls. ls = (newLazy, empty_session)) (log_component p) ls"
  shows "list_all log_admitted (sent (snd ls)) \<and> (pr_logs p = None \<longrightarrow> sent (snd ls) = [])"
  using assms
proof induction
  case (reach_step ls ls')
  then show ?case using log_component_asks[OF reach_step(2)] by (auto simp: list_all_iff)
qed (simp add: empty_session_def)

text \<open>What a started program has.\<close>

lemma start_program_made:
  assumes "fst (start_program H args getenv) = Inr p"
  shows "pr_manager p = NewManager" "make_api H (pr_config p) = Inr (pr_api p)" "make_bot H (pr_config p) = Inr (pr_bot p)"
proof -
  have "\<exists>client db redis. make_services H (pr_config p) client db redis = Inr p"
    using assms by (cases rule: start_program_cases[of H args getenv]) (auto dest: make_services_ok(1))
  then show "pr_manager p = NewManager" "make_api H (pr_config p) = Inr (pr_api p)" "make_bot H (pr_config p) = Inr (pr_bot p)"
    by (auto dest: make_services_ok)
qed

lemma make_api_config:
  assumes "make_api H c = Inr (Some service)"
  obtains config where "LoadApiConfig (h_unicode H) (h_urls H) (h_file H (ReadOnlyAPIConfig c)) = Inr config"
    "NewApiService config True True = Some service"
  using assms by (auto simp: make_api_def bind_err_def split: if_splits sum.splits option.splits)

section \<open>Properties\<close>

text \<open>C14: A run of the server is an interleaving of its components: whatever tools are called, and however the
  goroutines, deadlines and the shutdown come between, the jobs, the endpoint client, the bot, the
  API and the direct clients each go through a run of their own, so that whatever holds of every run
  of a component holds inside the program.\<close>

theorem server_refines_components:
  assumes "fst (start_program H args getenv) = Inr p" "reach (server_start p) (server_step p W) s"
  shows "reach initial (step (wd_unicode W)) (sv_jobs s)
    \<and> reach (\<lambda>es. sent (es_http es) = []) (endpoint_step (wd_unicode W) (endpoint_services p W)) (sv_query s)
    \<and> reach bot_start (bot_component p W) (sv_bot s)
    \<and> reach (\<lambda>st. sent st = []) (api_component p W) (sv_api s)
    \<and> reach (\<lambda>st. sent st = []) (db_component p W) (sv_db s)
    \<and> reach (\<lambda>st. sent st = []) (redis_component p W) (sv_redis s)"
proof -
  have "initial = (\<lambda>j. j = \<lparr>manager = pr_manager p, contexts = [], workers = [], used = []\<rparr>)"
    by (simp add: initial_def start_program_made(1)[OF assms(1)] fun_eq_iff)
  then show ?thesis
    using jobs.component_reached[OF assms(2)] query.component_reached[OF assms(2)] bot_tools.component_reached[OF assms(2)]
      api_tool.component_reached[OF assms(2)] db_tools.component_reached[OF assms(2)] redis_tools.component_reached[OF assms(2)]
    by simp
qed

text \<open>C2: Whatever the clients of a started program do, these channels of it carry only what is admitted: the
  questions on the endpoint and on the direct clients are accepted reads; the requests of the bot are its
  login or a configured endpoint; those of the API are for an endpoint of the loaded configuration; the calls to the
  log backend are of its five tools, with the JSON of an input of the tool. Without a configuration the bot,
  the API and the log bridge send nothing. And the manager never has two running deployments of one
  service; a synchronous deployment takes no lock and is not among these. Posts to Slack and
  runs of the script are not covered here.\<close>

theorem server_admits:
  assumes "fst (start_program H args getenv) = Inr p" "reach (server_start p) (server_step p W) s"
    and "w_urls (wd_api W) = h_urls H"
  shows "list_all (\<lambda>req. \<exists>q. req = query_http_request (pr_client p) q \<and> question_ok (wd_unicode W) q) (sent (es_http (sv_query s)))
    \<and> list_all (question_ok (wd_unicode W)) (sent (sv_db s))
    \<and> list_all (redis_admitted (wd_unicode W)) (sent (sv_redis s))
    \<and> (case pr_bot p of None \<Rightarrow> sent (b_session (sv_bot s)) = []
        | Some service \<Rightarrow> list_all (bot_request_ok (wd_bot W) service) (sent (b_session (sv_bot s))))
    \<and> (case pr_api p of None \<Rightarrow> sent (sv_api s) = []
        | Some _ \<Rightarrow> \<exists>config. LoadApiConfig (h_unicode H) (h_urls H) (h_file H (ReadOnlyAPIConfig (pr_config p))) = Inr config
            \<and> list_all (\<lambda>req. \<exists>ep. ep \<in> set (ac_Endpoints config) \<and> api_admitted (wd_api W) ep req) (sent (sv_api s)))
    \<and> (case pr_logs p of None \<Rightarrow> sent (snd (sv_logs s)) = [] | Some _ \<Rightarrow> list_all log_admitted (sent (snd (sv_logs s))))
    \<and> unique_running (tasks (manager (sv_jobs s)))"
proof -
  note run = jobs.component_reached[OF assms(2)] query.component_reached[OF assms(2)] bot_tools.component_reached[OF assms(2)]
      api_tool.component_reached[OF assms(2)] db_tools.component_reached[OF assms(2)] redis_tools.component_reached[OF assms(2)]
  have "initial = (\<lambda>j. j = \<lparr>manager = pr_manager p, contexts = [], workers = [], used = []\<rparr>)"
    by (simp add: initial_def start_program_made(1)[OF assms(1)] fun_eq_iff)
  then have "reach initial (step (wd_unicode W)) (sv_jobs s)" using run(1) by simp
  then have "unique_running (tasks (manager (sv_jobs s)))" using manager.reach_inv by (auto simp: inv_def)
  moreover have "list_all (\<lambda>req. \<exists>q. req = query_http_request (pr_client p) q \<and> question_ok (wd_unicode W) q) (sent (es_http (sv_query s)))"
    using endpoint.reach_inv[OF run(2)] by (simp add: only_questions_def endpoint_services_def)
  moreover have "list_all (question_ok (wd_unicode W)) (sent (sv_db s))"
    by (rule reach_asks[OF run(5) db_component_asks])
  moreover have "list_all (redis_admitted (wd_unicode W)) (sent (sv_redis s))"
    by (rule reach_asks[OF run(6) redis_component_asks])
  moreover have "case pr_bot p of None \<Rightarrow> sent (b_session (sv_bot s)) = []
      | Some service \<Rightarrow> list_all (bot_request_ok (wd_bot W) service) (sent (b_session (sv_bot s)))"
  proof (cases "pr_bot p")
    case None
    have "bot_start (sv_bot s)" using run(3) by induction (simp_all add: bot_component_def None)
    then show ?thesis by (simp add: None bot_start_def)
  next
    case (Some service)
    have "bot_component p W = bot_step (wd_bot W) service (wd_bot_net W)" by (simp add: bot_component_def Some fun_eq_iff)
    then show ?thesis using bot.reach_inv run(3) by (simp add: Some)
  qed
  moreover have "case pr_api p of None \<Rightarrow> sent (sv_api s) = []
      | Some _ \<Rightarrow> \<exists>config. LoadApiConfig (h_unicode H) (h_urls H) (h_file H (ReadOnlyAPIConfig (pr_config p))) = Inr config
          \<and> list_all (\<lambda>req. \<exists>ep. ep \<in> set (ac_Endpoints config) \<and> api_admitted (wd_api W) ep req) (sent (sv_api s))"
  proof (cases "pr_api p")
    case None
    have "sent (sv_api s) = []" using run(4) by induction (simp_all add: api_component_def None)
    then show ?thesis by (simp add: None)
  next
    case (Some service)
    obtain config where c: "LoadApiConfig (h_unicode H) (h_urls H) (h_file H (ReadOnlyAPIConfig (pr_config p))) = Inr config"
      "NewApiService config True True = Some service"
      using start_program_made(2)[OF assms(1)] unfolding Some by (rule make_api_config)
    have "config_ok (w_urls (wd_api W)) config" using LoadApiConfig_ok[OF c(1)] by (simp add: assms(3))
    then have "list_all (\<lambda>req. \<exists>ep. ep \<in> set (ac_Endpoints config) \<and> api_admitted (wd_api W) ep req) (sent (sv_api s))"
      using reach_asks[OF run(4)] api_component_asks[OF _ Some _ c(2)] by blast
    then show ?thesis using c(1) by (auto simp: Some)
  qed
  moreover have "case pr_logs p of None \<Rightarrow> sent (snd (sv_logs s)) = [] | Some _ \<Rightarrow> list_all log_admitted (sent (snd (sv_logs s)))"
    using reach_log_asks[OF log_tools.component_reached[OF assms(2)]] by (simp split: option.split)
  ultimately show ?thesis by blast
qed

definition sample_host :: "unit host" where
  "sample_host = \<lparr>h_unicode = sample_unicode, h_urls = w_urls sample_outside,
     h_request_uri = (\<lambda>_. Some (sample_url\<lparr>u_scheme := ''http''\<rparr>)),
     h_dialer = \<lparr>sql_open = (\<lambda>_. Inl ''down''), ping = (\<lambda>_. None)\<rparr>, h_ping = (\<lambda>_. None), h_file = (\<lambda>_. Inl ''no file'')\<rparr>"

definition sample_program :: "unit program" where
  "sample_program = projr (fst (start_program sample_host [] (\<lambda>_. [])))"

lemma sample_program: "fst (start_program sample_host [] (\<lambda>_. [])) = Inr sample_program"
proof -
  have "\<not> isl (fst (start_program sample_host [] (\<lambda>_. [])))" by code_simp
  then show ?thesis by (simp add: sample_program_def)
qed

definition sample_world :: "(unit, unit) world" where
  "sample_world = \<lparr>wd_unicode = sample_unicode, wd_query = sample_services,
     wd_driver = (\<lambda>_. \<lparr>begin_tx = (\<lambda>_ _ _. None), query_context = (\<lambda>_ _. Inl ''down''), marshal_result = (\<lambda>_ _. Inl ''down''),
        elapsed_ms = 0\<rparr>),
     wd_db = \<lparr>db_client = (\<lambda>_. Inl (BeginFailed ''down'')), db_logger = False, db_hash8 = id, db_duration = 1\<rparr>,
     wd_snapshot = \<lparr>us_logger = False, us_error_text = (\<lambda>_. ''failed''), us_hash8 = id, us_duration = 1\<rparr>,
     wd_redis_server = (\<lambda>_. Inl ''down''),
     wd_redis = \<lparr>redis_client = (\<lambda>_. Inl (QueryFailed ''down'')), redis_logger = False, redis_hash8 = id, redis_duration = 1\<rparr>,
     wd_api = sample_outside, wd_api_net = sample_net, wd_bot = sample_bot_world, wd_bot_net = sample_bot_net\<rparr>"

definition sample_moment :: moment where
  "sample_moment = \<lparr>mo_random = Some ''12345678'', mo_now = 0,
     mo_script = (\<lambda>_. \<lparr>chunks = [], exit_error = None\<rparr>),
     mo_notify = (\<lambda>_ _. None), mo_canceled = False, mo_duration = 0, mo_connect = Inl (ConnectFailed ''down'')\<rparr>"

definition sample_state :: server_state where
  "sample_state = \<lparr>sv_query = fresh_endpoint, sv_db = empty_session, sv_redis = empty_session, sv_snapshot_log = [],
     sv_inspect_log = [], sv_jobs = \<lparr>manager = pr_manager sample_program, contexts = [], workers = [], used = []\<rparr>,
     sv_bot = \<lparr>b_token = [], b_lastSign = 0, b_session = empty_session\<rparr>, sv_api = empty_session,
     sv_logs = (newLazy, empty_session)\<rparr>"

definition sample_query :: tool_request where
  "sample_query = QueryTestDB \<lparr>Statement = '' SHOW TABLES'', Engine = 1\<rparr>"

definition sample_after :: server_state where
  "sample_after = snd (New (main_services sample_program sample_world sample_moment) sample_query sample_state)"

lemma sample_run: "reach (server_start sample_program) (server_step sample_program sample_world) sample_after"
proof (rule reach_step)
  show "reach (server_start sample_program) (server_step sample_program sample_world) sample_state"
    by (rule reach_start)
      (simp add: server_start_def sample_state_def fresh_endpoint_def empty_session_def bot_start_def)
  show "server_step sample_program sample_world sample_state sample_after"
    unfolding sample_after_def by (rule call) (simp add: fresh_id_def sample_moment_def sample_state_def newDeploymentID_def)
qed

lemma sample_asked: "length (sent (es_http (sv_query sample_after))) = 1"
proof -
  let ?q = "\<lparr>Statement = '' SHOW TABLES'', Engine = 1\<rparr>"
  have made: "pr_db sample_program = None" by code_simp
  have world: "wd_unicode sample_world = sample_unicode" "sv_query sample_state = fresh_endpoint"
    by (simp_all add: sample_world_def sample_state_def)
  have "sv_query sample_after = sv_query (snd (run_db sample_program sample_world ?q sample_state))"
    by (simp add: sample_after_def sample_query_def main_services_def)
  also have "\<dots> = snd (query_test_db sample_unicode (endpoint_services sample_program sample_world) ?q fresh_endpoint)"
    by (simp add: run_db_def made case_prod_unfold world)
  finally have "sv_query sample_after = snd (query_test_db sample_unicode (endpoint_services sample_program sample_world) ?q fresh_endpoint)" .
  moreover have "length (sent (es_http (snd (query_test_db sample_unicode (sample_services\<lparr>qs_client := c\<rparr>) ?q fresh_endpoint)))) = 1" for c
    by code_simp
  ultimately show ?thesis by (simp add: endpoint_services_def sample_world_def)
qed

theorem server_refines_components_witness:
  "reach initial (step sample_unicode) (sv_jobs sample_after) \<and> sent (es_http (sv_query sample_after)) \<noteq> []"
  using server_refines_components[OF sample_program sample_run] sample_asked by (auto simp: sample_world_def)

theorem server_admits_witness:
  "list_all (\<lambda>req. \<exists>q. req = query_http_request (pr_client sample_program) q \<and> question_ok sample_unicode q)
     (sent (es_http (sv_query sample_after))) \<and> length (sent (es_http (sv_query sample_after))) = 1"
proof -
  have "w_urls (wd_api sample_world) = h_urls sample_host" by (simp add: sample_world_def sample_host_def)
  from server_admits[OF sample_program sample_run this] sample_asked show ?thesis by (simp add: sample_world_def)
qed

end
