(* ===== verification/Served.thy ===== *)
theory Served
  imports Program
begin

text \<open>
  The program behind its HTTP transport (\<open>runHTTP\<close> of \<open>cmd/ps-devtools-mcp/main.go\<close> and the rest of \<open>main\<close>): the server
  with its gate, the requests in it and the tools they call, from the first request to the signal, the
  shutdown with its deadline, and the deferred calls. The MCP handler, which is another module's, runs a
  tool only while the request that asks for it is being served, any number of tools for each.
\<close>

section \<open>The HTTP server\<close>

text \<open>Durations are in seconds.\<close>

definition deploymentWindow :: int where "deploymentWindow = 15 * 60"

record http_server =
  Addr :: string
  Handler :: gate
  ReadHeaderTimeout :: int
  ReadTimeout :: int
  WriteTimeout :: int
  IdleTimeout :: int

definition http_server :: "Config \<Rightarrow> http_server option" where
  "http_server c = map_option (\<lambda>handler. \<lparr>Addr = ListenAddress c, Handler = handler, ReadHeaderTimeout = 5,
     ReadTimeout = 20, WriteTimeout = deploymentWindow, IdleTimeout = 60\<rparr>) (http_handler c True)"

text \<open>
  Where \<open>main\<close> stands: the server takes requests; \<open>Shutdown\<close> waits for them; then the deferred calls, in their
  order (the log bridge, the manager, which cancels and then waits, the direct clients); the end, with the
  error the program dies of.
\<close>

datatype phase = Serving | Draining | ClosingLogs | ClosingJobs | AwaitingJobs | Exited "string option"

fun handling :: "phase \<Rightarrow> bool" where
  "handling Serving \<longleftrightarrow> True"
| "handling Draining \<longleftrightarrow> True"
| "handling _ \<longleftrightarrow> False"

fun running :: "phase \<Rightarrow> bool" where
  "running (Exited _) \<longleftrightarrow> False"
| "running _ \<longleftrightarrow> True"

text \<open>
  The state: the gate, the services, the phase; the tools called so far with the request that called each;
  whether the manager's close ran into its deadline; what was done to outside resources at the end.
\<close>

record 'db served =
  sd_gate :: gate
  sd_server :: server_state
  sd_phase :: phase
  sd_calls :: "(http_call \<times> tool_request) list"
  sd_jobs_left :: bool
  sd_closing :: "'db resource_op list"

definition served_start :: "'db program \<Rightarrow> 'db served \<Rightarrow> bool" where
  "served_start p k \<longleftrightarrow> map_option Handler (http_server (pr_config p)) = Some (sd_gate k) \<and> server_start p (sd_server k)
    \<and> pr_manager p = NewManager \<and> sd_phase k = Serving \<and> sd_calls k = [] \<and> \<not> sd_jobs_left k \<and> sd_closing k = []"

section \<open>The steps\<close>

definition close_bridge :: "'db program \<Rightarrow> server_state \<Rightarrow> server_state" where
  "close_bridge p s = (if pr_logs p = None then s
     else s\<lparr>sv_logs := (snd (lazy_Close (fst (sv_logs s))), snd (sv_logs s))\<rparr>)"

definition close_jobs :: "server_state \<Rightarrow> server_state" where
  "close_jobs s = s\<lparr>sv_jobs := cancel_all (close_cancels (manager (sv_jobs s))) (sv_jobs s)\<rparr>"

text \<open>
  A connection that was accepted before the shutdown may still bring a request. \<open>Shutdown\<close> returns when no
  request is being served, or at its deadline of ten seconds; \<open>Close\<close> of the manager when its goroutines have
  ended, or after a minute.
\<close>

inductive served_step :: "'db program \<Rightarrow> ('db, 'v) world \<Rightarrow> 'db served \<Rightarrow> 'db served \<Rightarrow> bool"
  for p :: "'db program" and W :: "('db, 'v) world" where
  request: "handling (sd_phase k) \<Longrightarrow> served_step p W k (k\<lparr>sd_gate := snd (serve req (sd_gate k))\<rparr>)"
| tool: "handling (sd_phase k) \<Longrightarrow> req \<in> set (g_inflight (sd_gate k)) \<Longrightarrow> fresh_id mo (sv_jobs (sd_server k)) \<Longrightarrow>
    served_step p W k (k\<lparr>sd_server := snd (New (main_services p W mo) t (sd_server k)), sd_calls := sd_calls k @ [(req, t)]\<rparr>)"
| response: "handling (sd_phase k) \<Longrightarrow> req \<in> set (g_inflight (sd_gate k)) \<Longrightarrow>
    served_step p W k (k\<lparr>sd_gate := end_request req (sd_gate k)\<rparr>)"
| worker: "running (sd_phase k) \<Longrightarrow> worker_step (wd_unicode W) (sv_jobs (sd_server k)) j \<Longrightarrow>
    served_step p W k (k\<lparr>sd_server := (sd_server k)\<lparr>sv_jobs := j\<rparr>\<rparr>)"
| timeout: "running (sd_phase k) \<Longrightarrow> map_of (contexts (sv_jobs (sd_server k))) did = Some Live \<Longrightarrow>
    served_step p W k (k\<lparr>sd_server := (sd_server k)\<lparr>sv_jobs := (sv_jobs (sd_server k))
      \<lparr>contexts := AList.update did CtxDeadline (contexts (sv_jobs (sd_server k)))\<rparr>\<rparr>\<rparr>)"
| failed: "sd_phase k = Serving \<Longrightarrow> served_step p W k (k\<lparr>sd_phase := Exited (Some err)\<rparr>)"
| signaled: "sd_phase k = Serving \<Longrightarrow> served_step p W k (k\<lparr>sd_phase := Draining\<rparr>)"
| overrun: "sd_phase k = Draining \<Longrightarrow> served_step p W k (k\<lparr>sd_phase := Exited (Some err)\<rparr>)"
| drained: "sd_phase k = Draining \<Longrightarrow> g_inflight (sd_gate k) = [] \<Longrightarrow> served_step p W k (k\<lparr>sd_phase := ClosingLogs\<rparr>)"
| bridge_closed: "sd_phase k = ClosingLogs \<Longrightarrow>
    served_step p W k (k\<lparr>sd_phase := ClosingJobs, sd_server := close_bridge p (sd_server k)\<rparr>)"
| jobs_canceled: "sd_phase k = ClosingJobs \<Longrightarrow>
    served_step p W k (k\<lparr>sd_phase := AwaitingJobs, sd_server := close_jobs (sd_server k)\<rparr>)"
| jobs_ended: "sd_phase k = AwaitingJobs \<Longrightarrow> workers (sv_jobs (sd_server k)) = [] \<Longrightarrow>
    served_step p W k (k\<lparr>sd_phase := Exited None, sd_closing := deferred p\<rparr>)"
| jobs_overrun: "sd_phase k = AwaitingJobs \<Longrightarrow>
    served_step p W k (k\<lparr>sd_phase := Exited None, sd_jobs_left := True, sd_closing := deferred p\<rparr>)"

inductive_cases served_stepE: "served_step p W k k'"

lemmas served_step_cases = served_stepE [consumes 1, case_names request tool response worker timeout failed signaled
  overrun drained bridge_closed jobs_canceled jobs_ended jobs_overrun]

section \<open>The gate and the server inside\<close>

interpretation gate_part: server_component "served_start p" "served_step p W" sd_gate
    "gate_start (http_tokens (pr_config p)) (MaxConcurrent (pr_config p)) True" gate_step for p W
proof unfold_locales
  show "gate_start (http_tokens (pr_config p)) (MaxConcurrent (pr_config p)) True (sd_gate k)" if "served_start p k" for k
    using that by (auto simp: served_start_def http_server_def http_handler_def gate_start_def)
  show "gate_step (sd_gate k) (sd_gate k') \<or> sd_gate k' = sd_gate k" if "served_step p W k k'" for k k'
    using that by (cases rule: served_step_cases) (auto intro: gate_step.intros)
qed

interpretation server_part: server_component "served_start p" "served_step p W" sd_server "server_start p" "server_step p W" for p W
proof unfold_locales
  show "server_start p (sd_server k)" if "served_start p k" for k using that by (simp add: served_start_def)
  show "server_step p W (sd_server k) (sd_server k') \<or> sd_server k' = sd_server k" if "served_step p W k k'" for k k'
    using that
    by (cases rule: served_step_cases) (auto simp: close_bridge_def close_jobs_def intro: server_step.intros)
qed

section \<open>The invariant\<close>

text \<open>How far the deferred calls have come; an exit with an error is at none of them.\<close>

fun calls_done :: "phase \<Rightarrow> nat" where
  "calls_done ClosingLogs = 1"
| "calls_done ClosingJobs = 2"
| "calls_done AwaitingJobs = 3"
| "calls_done (Exited None) = 4"
| "calls_done _ = 0"

definition authenticated :: "Config \<Rightarrow> http_call \<Rightarrow> bool" where
  "authenticated c req \<longleftrightarrow> (\<exists>token \<in> snd ` set (http_tokens c). bears req token)"

definition jobs_stopped :: "system \<Rightarrow> bool" where
  "jobs_stopped j \<longleftrightarrow> (\<forall>i \<in> fst ` set (workers j). context_of j i \<noteq> Live)"

definition untouched :: "server_state \<Rightarrow> bool" where
  "untouched s \<longleftrightarrow> sent (es_http (sv_query s)) = [] \<and> sent (sv_db s) = [] \<and> sent (sv_redis s) = []
    \<and> sent (b_session (sv_bot s)) = [] \<and> sent (sv_api s) = [] \<and> tasks (manager (sv_jobs s)) = []
    \<and> lz_service (fst (sv_logs s)) = None \<and> sent (snd (sv_logs s)) = []"

definition phase_ok :: "'db program \<Rightarrow> 'db served \<Rightarrow> bool" where
  "phase_ok p k \<longleftrightarrow> (let n = calls_done (sd_phase k); s = sd_server k in
     (1 \<le> n \<longrightarrow> g_inflight (sd_gate k) = [])
     \<and> (2 \<le> n \<longrightarrow> pr_logs p \<noteq> None \<longrightarrow> lz_closed (fst (sv_logs s)))
     \<and> (3 \<le> n \<longrightarrow> jobs_stopped (sv_jobs s))
     \<and> (4 \<le> n \<longrightarrow> \<not> sd_jobs_left k \<longrightarrow> workers (sv_jobs s) = [])
     \<and> (sd_jobs_left k \<longrightarrow> n = 4) \<and> sd_closing k = (if n = 4 then deferred p else []))"

definition served_ok :: "'db program \<Rightarrow> 'db served \<Rightarrow> bool" where
  "served_ok p k \<longleftrightarrow> gate_ok (http_tokens (pr_config p)) (MaxConcurrent (pr_config p)) (sd_gate k)
    \<and> inv (sv_jobs (sd_server k)) \<and> phase_ok p k
    \<and> list_all (\<lambda>(req, _). authenticated (pr_config p) req) (sd_calls k)
    \<and> (sd_calls k = [] \<longrightarrow> untouched (sd_server k))"

lemma handling_calls_done: "handling ph \<Longrightarrow> calls_done ph = 0 \<and> running ph"
  by (cases ph) auto

lemma worker_step_frame:
  assumes "worker_step U j j'"
  shows "contexts j' = contexts j" "fst ` set (workers j') \<subseteq> fst ` set (workers j)"
proof -
  have key: "did \<in> fst ` set (workers j)" if "map_of (workers j) did = Some w" for did w
    using that by (force dest: map_of_SomeD)
  show "contexts j' = contexts j" using assms by (cases rule: worker_step_cases) (simp_all add: set_progress_def)
  show "fst ` set (workers j') \<subseteq> fst ` set (workers j)"
    using assms by (cases rule: worker_step_cases) (simp_all add: set_progress_def dom_update key image_mono AList.delete_eq)
qed

lemma jobs_stopped_keep:
  assumes "jobs_stopped j" "contexts j' = contexts j" "fst ` set (workers j') \<subseteq> fst ` set (workers j)"
  shows "jobs_stopped j'"
  unfolding jobs_stopped_def
proof
  fix i assume "i \<in> fst ` set (workers j')"
  then have "context_of j i \<noteq> Live" using assms(1,3) unfolding jobs_stopped_def by blast
  then show "context_of j' i \<noteq> Live" by (simp add: context_of_def assms(2))
qed

lemma worker_entry:
  assumes "map_of (workers j) did = Some w" "inv j"
  shows "tasks (manager j) \<noteq> []"
proof -
  obtain t where "map_of (tasks (manager j)) did = Some t" using assms(2,1) by (rule inv_worker)
  then show ?thesis by auto
qed

lemma no_worker_step: "worker_step U j j' \<Longrightarrow> inv j \<Longrightarrow> tasks (manager j) \<noteq> []"
  by (cases rule: worker_step_cases) (blast dest: worker_entry)+

lemma phase_ok_step:
  assumes "served_step p W k k'" "phase_ok p k" "inv (sv_jobs (sd_server k))"
  shows "phase_ok p k'"
  using assms(1)
proof (cases rule: served_step_cases)
  case (worker j)
  then show ?thesis using assms(2) jobs_stopped_keep[OF _ worker_step_frame[OF worker(3)]]
    by (cases "sd_phase k") (auto simp: phase_ok_def Let_def)
next
  case (timeout did)
  then show ?thesis using assms(2)
    by (cases "sd_phase k") (auto simp: phase_ok_def Let_def jobs_stopped_def context_of_def map_of_update_at split: option.splits)
next
  case jobs_canceled
  have "jobs_stopped (sv_jobs (close_jobs (sd_server k)))"
    using close_reaches[OF assms(3)] by (auto simp: jobs_stopped_def close_jobs_def cancel_all_def map_of_eq_None_iff)
  then show ?thesis using jobs_canceled assms(2) by (auto simp: phase_ok_def Let_def close_jobs_def)
qed (use assms(2) in \<open>auto simp: phase_ok_def Let_def close_bridge_def lazy_Close_def dest: handling_calls_done\<close>)

lemma served_jobs:
  assumes "served_step p W k k'" "inv (sv_jobs (sd_server k))"
  shows "inv (sv_jobs (sd_server k'))"
  using server_part.view_step[OF assms(1)] jobs.view_step[of p W "sd_server k" "sd_server k'"] assms(2) inv_step by metis

lemma untouched_step:
  assumes "served_step p W k k'" "inv (sv_jobs (sd_server k))" "untouched (sd_server k)" "sd_calls k' = []"
  shows "untouched (sd_server k')"
  using assms(1)
proof (cases rule: served_step_cases)
  case (worker j)
  then show ?thesis using no_worker_step[OF worker(3) assms(2)] assms(3) by (simp add: untouched_def)
qed (use assms(3,4) in \<open>auto simp: untouched_def close_bridge_def close_jobs_def lazy_Close_def cancel_all_def\<close>)

lemma served_ok_step:
  assumes "served_ok p k" "served_step p W k k'"
  shows "served_ok p k'"
proof -
  have g: "gate_ok (http_tokens (pr_config p)) (MaxConcurrent (pr_config p)) (sd_gate k)" and j: "inv (sv_jobs (sd_server k))"
    using assms(1) by (simp_all add: served_ok_def)
  have "gate_ok (http_tokens (pr_config p)) (MaxConcurrent (pr_config p)) (sd_gate k')"
    using gate_part.view_step[OF assms(2)] http.step_inv[OF g] g by metis
  moreover have "list_all (\<lambda>(req, _). authenticated (pr_config p) req) (sd_calls k')"
    using assms(2)
  proof (cases rule: served_step_cases)
    case (tool req mo t)
    then show ?thesis using assms(1) g by (auto simp: served_ok_def gate_ok_def list_all_iff authenticated_def)
  qed (use assms(1) in \<open>simp_all add: served_ok_def\<close>)
  moreover have "sd_calls k' = [] \<longrightarrow> untouched (sd_server k')"
    using untouched_step[OF assms(2) j] assms by (auto simp: served_ok_def elim: served_stepE)
  ultimately show ?thesis
    using served_jobs[OF assms(2) j] phase_ok_step[OF assms(2) _ j] assms(1) by (simp add: served_ok_def)
qed

lemma served_ok_start: "served_start p k \<Longrightarrow> served_ok p k"
  using gate_part.view_start[of p k] http.start_inv
  by (auto simp: served_start_def served_ok_def server_start_def phase_ok_def untouched_def bot_start_def newLazy_def
      NewManager_def empty_session_def inv_initial initial_def)

interpretation served: transition_system "served_start p" "served_step p W" "served_ok p" for p W
  by unfold_locales (auto intro: served_ok_start served_ok_step)

section \<open>Coming to an end\<close>

text \<open>The goroutines of deployments run on until the program exits, the requests until they are answered.\<close>

lemma workers_run:
  "(worker_step (wd_unicode W))\<^sup>*\<^sup>* j j' \<Longrightarrow> running (sd_phase k) \<Longrightarrow> sv_jobs (sd_server k) = j \<Longrightarrow>
    (served_step p W)\<^sup>*\<^sup>* k (k\<lparr>sd_server := (sd_server k)\<lparr>sv_jobs := j'\<rparr>\<rparr>)"
proof (induction rule: rtranclp_induct)
  case (step i j')
  let ?k = "k\<lparr>sd_server := (sd_server k)\<lparr>sv_jobs := i\<rparr>\<rparr>"
  have "served_step p W ?k (?k\<lparr>sd_server := (sd_server ?k)\<lparr>sv_jobs := j'\<rparr>\<rparr>)"
    by (rule worker) (use step.hyps(2) step.prems(1) in simp_all)
  with step.IH[OF step.prems] show ?case by (simp add: rtranclp.rtrancl_into_rtrancl)
next
  case base
  then have "k\<lparr>sd_server := (sd_server k)\<lparr>sv_jobs := j\<rparr>\<rparr> = k" by simp
  then show ?case by simp
qed

text \<open>From the close of the manager, and from the last answered request of a shutdown, to the exit.\<close>

lemma awaiting_runs:
  assumes "sd_phase k = AwaitingJobs" "\<not> sd_jobs_left k" "inv (sv_jobs (sd_server k))"
  shows "\<exists>k'. (served_step p W)\<^sup>*\<^sup>* k k' \<and> sd_phase k' = Exited None \<and> \<not> sd_jobs_left k'"
proof -
  obtain j where j: "(worker_step (wd_unicode W))\<^sup>*\<^sup>* (sv_jobs (sd_server k)) j" "workers j = []"
    using workers_drain assms(3) by blast
  let ?k = "k\<lparr>sd_server := (sd_server k)\<lparr>sv_jobs := j\<rparr>\<rparr>"
  have "(served_step p W)\<^sup>*\<^sup>* k ?k" by (rule workers_run[OF j(1)]) (simp_all add: assms(1))
  moreover have "served_step p W ?k (?k\<lparr>sd_phase := Exited None, sd_closing := deferred p\<rparr>)"
    by (rule jobs_ended) (simp_all add: j(2) assms(1))
  ultimately have "(served_step p W)\<^sup>*\<^sup>* k (?k\<lparr>sd_phase := Exited None, sd_closing := deferred p\<rparr>)"
    by (rule rtranclp.rtrancl_into_rtrancl)
  moreover have "sd_phase (?k\<lparr>sd_phase := Exited None, sd_closing := deferred p\<rparr>) = Exited None \<and> \<not> sd_jobs_left (?k\<lparr>sd_phase := Exited None, sd_closing := deferred p\<rparr>)"
    by (simp add: assms(2))
  ultimately show ?thesis by blast
qed

lemma shutdown_runs:
  assumes "sd_phase k = Draining" "g_inflight (sd_gate k) = []" "inv (sv_jobs (sd_server k))" "\<not> sd_jobs_left k"
  shows "\<exists>k'. (served_step p W)\<^sup>*\<^sup>* k k' \<and> sd_phase k' = Exited None"
proof -
  let ?k1 = "k\<lparr>sd_phase := ClosingLogs\<rparr>"
  let ?k2 = "?k1\<lparr>sd_phase := ClosingJobs, sd_server := close_bridge p (sd_server ?k1)\<rparr>"
  let ?k3 = "?k2\<lparr>sd_phase := AwaitingJobs, sd_server := close_jobs (sd_server ?k2)\<rparr>"
  have steps: "served_step p W k ?k1" "served_step p W ?k1 ?k2" "served_step p W ?k2 ?k3"
    using assms(1,2) by (intro drained bridge_closed jobs_canceled; simp)+
  have "inv (sv_jobs (sd_server ?k3))"
    using served_jobs[OF steps(3)] served_jobs[OF steps(2)] served_jobs[OF steps(1)] assms(3) by blast
  then obtain k' where "(served_step p W)\<^sup>*\<^sup>* ?k3 k'" "sd_phase k' = Exited None"
    using awaiting_runs[of ?k3 p W] assms(4) by auto
  then show ?thesis using steps by (meson converse_rtranclp_into_rtranclp)
qed

section \<open>Properties\<close>

text \<open>C3: Behind the HTTP transport every tool that is ever called is called by a request that bears a configured
  token, with at most as many requests at once as the settings allow; before the first of them nothing has
  been sent to any system and no deployment exists; and what happens to the services is a run of the
  server, so that what is proved of its runs holds for the program that is served.\<close>

theorem served_authenticated:
  assumes "reach (served_start p) (served_step p W) k"
  shows "list_all (\<lambda>(req, _). \<exists>token \<in> snd ` set (http_tokens (pr_config p)). bears req token) (sd_calls k)
    \<and> int (length (g_inflight (sd_gate k))) \<le> MaxConcurrent (pr_config p)
    \<and> (if sd_calls k = [] then untouched (sd_server k) else True)
    \<and> reach (server_start p) (server_step p W) (sd_server k)"
  using served.reach_inv[OF assms] server_part.component_reached[OF assms]
  by (auto simp: served_ok_def gate_ok_def authenticated_def)

text \<open>C15: The end of the program. When it exits without an error no request is being served, the log session is
  ended for good, every deployment that still runs was canceled or hit its deadline, none runs unless the
  manager's minute was over, and no pool and no connection is open; an exit with an error closes
  nothing; and either does what \<open>main_end\<close> says of the way the serving ended.\<close>

theorem served_shutdown:
  assumes "start_program H args getenv = (Inr p, ops)" "Transport (pr_config p) = TransportHTTP"
    and "reach (served_start p) (served_step p W) k"
  shows "case sd_phase k of
      Exited err \<Rightarrow> (\<exists>e. main_end p e = (err, sd_closing k))
        \<and> (if err = None then g_inflight (sd_gate k) = []
            \<and> (if pr_logs p = None then True else fst (lazy_get outcome (fst (sv_logs (sd_server k)))) = Inl BackendClosed)
            \<and> list_all (\<lambda>(i, _). context_of (sv_jobs (sd_server k)) i \<noteq> Live) (workers (sv_jobs (sd_server k)))
            \<and> (if sd_jobs_left k then True else \<forall>v. running_lock (sv_jobs (sd_server k)) v = None)
            \<and> pools_open (ops @ sd_closing k) = [] \<and> conns_open (ops @ sd_closing k) = 0
          else sd_closing k = [])
    | _ \<Rightarrow> sd_closing k = []"
proof -
  have ok: "phase_ok p k" "inv (sv_jobs (sd_server k))" using served.reach_inv[OF assms(3)] by (simp_all add: served_ok_def)
  show ?thesis
  proof (cases "sd_phase k")
    case (Exited err)
    show ?thesis
    proof (cases err)
      case None
      have "main_end p (Signaled None) = (None, deferred p)" by (simp add: main_end_def Let_def assms(2))
      moreover have "sd_closing k = deferred p" using ok(1) by (simp add: phase_ok_def Let_def Exited None)
      ultimately have "\<exists>e. main_end p e = (err, sd_closing k)" by (metis None)
      then show ?thesis using ok deferred_closes[OF assms(1)] no_workers_no_locks[OF ok(2)]
        by (auto simp: phase_ok_def Let_def Exited None lazy_get_def jobs_stopped_def list_all_iff)
    next
      case (Some e)
      have "main_end p (ServerEnded (Some e)) = (Some e, [])" by (simp add: main_end_def Let_def assms(2))
      then show ?thesis using ok(1) by (auto simp: phase_ok_def Let_def Exited Some)
    qed
  qed (use ok(1) in \<open>simp_all add: phase_ok_def Let_def\<close>)
qed

text \<open>What is left of the shutdown once the manager has been told to close.\<close>

lemma closing_steps:
  assumes "served_step p W k k'" "sd_phase k = AwaitingJobs"
  shows "sd_phase k' \<in> {AwaitingJobs, Exited None}" "step (wd_unicode W) (sv_jobs (sd_server k)) (sv_jobs (sd_server k')) \<or> sv_jobs (sd_server k') = sv_jobs (sd_server k)"
  using assms by (cases rule: served_step_cases; force simp: step_def intro: step_deadline)+

lemma exited_stays: "served_step p W k k' \<Longrightarrow> sd_phase k \<noteq> Exited e"
  by (cases rule: served_step_cases) auto

lemma closing_context:
  assumes "served_step p W k k'" "sd_phase k = AwaitingJobs" "context_of (sv_jobs (sd_server k)) i \<noteq> Live"
  shows "context_of (sv_jobs (sd_server k')) i = context_of (sv_jobs (sd_server k)) i"
  using assms(1)
proof (cases rule: served_step_cases)
  case (worker j)
  then show ?thesis by (simp add: context_of_def worker_step_frame(1)[OF worker(3)])
next
  case (timeout did)
  then show ?thesis using assms(3) by (auto simp: context_of_def map_of_update_at)
qed (use assms(2) in simp_all)

lemma closing_entry:
  assumes "served_step p W k k'" "sd_phase k = AwaitingJobs" "inv (sv_jobs (sd_server k))"
  shows "map_of (tasks (manager (sv_jobs (sd_server k')))) i = None \<longleftrightarrow> map_of (tasks (manager (sv_jobs (sd_server k)))) i = None"
  using assms(1)
proof (cases rule: served_step_cases)
  case (worker j)
  then show ?thesis using worker_step_keeps(1)[OF worker(3) assms(3)] by simp
qed (use assms(2) in simp_all)

text \<open>A deployment that the close has canceled, until the program is over.\<close>

definition close_canceled :: "'db served \<Rightarrow> string \<Rightarrow> bool" where
  "close_canceled k i \<longleftrightarrow> sd_phase k \<in> {AwaitingJobs, Exited None} \<and> map_of (tasks (manager (sv_jobs (sd_server k)))) i \<noteq> None
    \<and> context_of (sv_jobs (sd_server k)) i = CtxCanceled \<and> bound_to_cancel (sv_jobs (sd_server k)) i"

lemma close_canceled_step:
  assumes "served_step p W k k'" "close_canceled k i" "inv (sv_jobs (sd_server k))"
  shows "close_canceled k' i"
proof -
  have a: "sd_phase k = AwaitingJobs" using assms(2) exited_stays[OF assms(1)] by (auto simp: close_canceled_def)
  have "bound_to_cancel (sv_jobs (sd_server k')) i"
    using closing_steps(2)[OF assms(1) a] bound_to_cancel_step[OF assms(3)] assms(2) by (auto simp: close_canceled_def)
  then show ?thesis
    using closing_steps(1)[OF assms(1) a] closing_context[OF assms(1) a, of i] closing_entry[OF assms(1) a assms(3), of i] assms(2)
    by (simp add: close_canceled_def)
qed

text \<open>C16: What the close of the manager does to the deployments that run when the program shuts down: from
  then on each is at its own deadline or canceled; and when the program has exited, each canceled one is
  recorded as canceled, whatever its script answered, or is one that the manager's minute has left running, still canceled.\<close>

theorem served_shutdown_cancels:
  assumes "reach (served_start p) (served_step p W) k" "sd_phase k = AwaitingJobs"
    and "(served_step p W)\<^sup>*\<^sup>* k k'" "sd_phase k' = Exited None"
  shows "list_all (\<lambda>(i, _). case context_of (sv_jobs (sd_server k)) i of
      Live \<Rightarrow> False
    | CtxDeadline \<Rightarrow> True
    | CtxCanceled \<Rightarrow> (case lifecycle_of (sv_jobs (sd_server k')) i of
        Ended t \<Rightarrow> Status (m_task t) = DeploymentCanceled
      | Active _ \<Rightarrow> sd_jobs_left k' \<and> context_of (sv_jobs (sd_server k')) i = CtxCanceled
      | _ \<Rightarrow> False)) (workers (sv_jobs (sd_server k)))"
proof -
  have ok: "served_ok p k" using served.reach_inv[OF assms(1)] .
  then have i: "inv (sv_jobs (sd_server k))" and stop: "jobs_stopped (sv_jobs (sd_server k))"
    using assms(2) by (simp_all add: served_ok_def phase_ok_def Let_def)
  have ok': "served_ok p k'" using served.reach_steps_inv[OF assms(3) ok] .
  then have i': "inv (sv_jobs (sd_server k'))" and left: "sd_jobs_left k' \<or> workers (sv_jobs (sd_server k')) = []"
    using assms(4) by (auto simp: served_ok_def phase_ok_def Let_def)
  have fate: "case lifecycle_of (sv_jobs (sd_server k')) j of
        Ended t \<Rightarrow> Status (m_task t) = DeploymentCanceled
      | Active _ \<Rightarrow> sd_jobs_left k' \<and> context_of (sv_jobs (sd_server k')) j = CtxCanceled
      | _ \<Rightarrow> False" if w: "(j, w) \<in> set (workers (sv_jobs (sd_server k)))" and c: "context_of (sv_jobs (sd_server k)) j = CtxCanceled" for j w
  proof -
    have "distinct (map fst (workers (sv_jobs (sd_server k))))" using i by (simp add: inv_def tables_ok_def)
    then have "map_of (workers (sv_jobs (sd_server k))) j = Some w" using w by simp
    then obtain t where t: "map_of (tasks (manager (sv_jobs (sd_server k)))) j = Some t" "worker_ok t w" using i inv_worker by metis
    then have "j \<in> set (used (sv_jobs (sd_server k)))" using i by (force simp: inv_def tables_ok_def dest: map_of_SomeD)
    then have start: "close_canceled k j" using t c assms(2) by (simp add: close_canceled_def bound_to_cancel_def worker_ok_def)
    have "served_ok p k' \<and> close_canceled k' j"
      using assms(3)
    proof (induction rule: rtranclp_induct)
      case (step m n)
      then show ?case using close_canceled_step[OF step(2)] served_ok_step[OF _ step(2)] by (auto simp: served_ok_def)
    qed (simp add: ok start)
    then obtain t' where e: "map_of (tasks (manager (sv_jobs (sd_server k')))) j = Some t'" "context_of (sv_jobs (sd_server k')) j = CtxCanceled"
      "if task_terminal t' then Status (m_task t') = DeploymentCanceled else True"
      by (auto simp: close_canceled_def bound_to_cancel_def)
    moreover have "task_terminal t' \<or> sd_jobs_left k'"
      using left inv_entry[OF i' e(1)] by (auto simp: entry_ok_def done_ok_def)
    ultimately show ?thesis by (auto simp: lifecycle_of_def)
  qed
  have "context_of (sv_jobs (sd_server k)) j \<noteq> Live" if "(j, w) \<in> set (workers (sv_jobs (sd_server k)))" for j w
    using stop that by (force simp: jobs_stopped_def)
  then show ?thesis using fate by (auto simp: list_all_iff split: ctx_state.split)
qed

section \<open>A run\<close>

text \<open>A request with the token \<open>new\<close> comes and calls a tool; then the program is told to stop.\<close>

definition http_program :: "unit program" where
  "http_program = projr (fst (start_program sample_host sample_args sample_env))"

definition http_ops :: "unit resource_op list" where
  "http_ops = snd (start_program sample_host sample_args sample_env)"

lemma http_program: "start_program sample_host sample_args sample_env = (Inr http_program, http_ops)"
proof -
  have "\<not> isl (fst (start_program sample_host sample_args sample_env))" by code_simp
  then show ?thesis by (simp add: http_program_def http_ops_def prod_eq_iff)
qed

lemma http_transport: "Transport (pr_config http_program) = TransportHTTP"
  by code_simp

definition token_call :: http_call where
  "token_call = \<lparr>c_method = ''POST'', c_path = ''/mcp'', c_authorization = ''Bearer new'', c_remote = ''r''\<rparr>"

definition served_0 :: "unit served" where
  "served_0 = \<lparr>sd_gate = the (http_handler (pr_config http_program) True),
     sd_server = sample_state\<lparr>sv_jobs := \<lparr>manager = NewManager, contexts = [], workers = [], used = []\<rparr>\<rparr>,
     sd_phase = Serving, sd_calls = [], sd_jobs_left = False, sd_closing = []\<rparr>"

definition served_1 :: "unit served" where
  "served_1 = served_0\<lparr>sd_gate := snd (serve token_call (sd_gate served_0))\<rparr>"

definition served_2 :: "unit served" where
  "served_2 = served_1\<lparr>sd_server := snd (New (main_services http_program sample_world sample_moment) sample_query (sd_server served_1)),
     sd_calls := sd_calls served_1 @ [(token_call, sample_query)]\<rparr>"

lemma served_run_1: "reach (served_start http_program) (served_step http_program sample_world) served_1"
proof (rule reach_step)
  have "http_handler (pr_config http_program) True \<noteq> None" by code_simp
  then obtain g where h: "http_handler (pr_config http_program) True = Some g" by blast
  have m: "pr_manager http_program = NewManager"
    using start_program_made(1)[of sample_host sample_args sample_env http_program] by (simp add: http_program)
  show "reach (served_start http_program) (served_step http_program sample_world) served_0"
    by (rule reach_start)
      (use h m in \<open>simp add: served_start_def served_0_def http_server_def server_start_def sample_state_def fresh_endpoint_def
        empty_session_def bot_start_def option.map_comp comp_def option.map_ident\<close>)
  show "served_step http_program sample_world served_0 served_1"
    unfolding served_1_def by (rule request) (simp add: served_0_def)
qed

lemma served_inflight: "g_inflight (sd_gate served_1) = [token_call]"
proof -
  have "g_inflight (snd (serve token_call (the (http_handler (pr_config http_program) True)))) = [token_call]" by code_simp
  then show ?thesis by (simp add: served_1_def served_0_def)
qed

lemma served_run_2: "reach (served_start http_program) (served_step http_program sample_world) served_2"
proof (rule reach_step[OF served_run_1])
  show "served_step http_program sample_world served_1 served_2"
    unfolding served_2_def
    by (rule tool) (simp_all add: served_inflight, simp_all add: served_1_def served_0_def fresh_id_def sample_moment_def newDeploymentID_def)
qed

theorem served_authenticated_witness:
  "sd_calls served_2 = [(token_call, sample_query)] \<and> (\<exists>token \<in> snd ` set (http_tokens (pr_config http_program)). bears token_call token)"
proof -
  have "sd_calls served_2 = [(token_call, sample_query)]" by (simp add: served_2_def served_1_def served_0_def)
  then show ?thesis using served_authenticated[OF served_run_2] by simp
qed

text \<open>The same request starts a deployment; then the program is told to stop.\<close>

definition served_3 :: "unit served" where
  "served_3 = served_1\<lparr>sd_server := snd (New (main_services http_program sample_world sample_moment) (StartTestDeployment run_input) (sd_server served_1)),
     sd_calls := sd_calls served_1 @ [(token_call, StartTestDeployment run_input)]\<rparr>"

definition served_4 :: "unit served" where
  "served_4 = served_3\<lparr>sd_gate := end_request token_call (sd_gate served_3), sd_phase := ClosingLogs\<rparr>"

definition served_5 :: "unit served" where
  "served_5 = served_4\<lparr>sd_phase := AwaitingJobs, sd_server := close_jobs (close_bridge http_program (sd_server served_4))\<rparr>"

definition started_id :: string where
  "started_id = the (newDeploymentID (mo_random sample_moment))"

lemma served_3_jobs: "sv_jobs (sd_server served_3) = \<lparr>manager = \<lparr>tasks = [(started_id, new_task started_id 0 run_input)], order = [started_id], limit = 50\<rparr>,
    contexts = [(started_id, Live)], workers = [(started_id, run_worker Launched)], used = [started_id]\<rparr>"
proof -
  have id: "newDeploymentID (mo_random sample_moment) = Some started_id" by (simp add: started_id_def newDeploymentID_def sample_moment_def)
  have "mo_now sample_moment = 0" by (simp add: sample_moment_def)
  moreover have "sv_jobs (sd_server served_1) = run_0" by (simp add: served_1_def served_0_def run_0_def)
  ultimately show ?thesis
    by (simp add: served_3_def main_services_def run_start_def id launch_def run_0_def Manager_Start_def run_input_valid find_running_def NewManager_def
      pruneLocked_def defaultHistoryLimit_def run_worker_def)
qed

lemma served_run_5: "reach (served_start http_program) (served_step http_program sample_world) served_5"
proof -
  have phase: "sd_phase served_1 = Serving" "sd_gate served_3 = sd_gate served_1" "sd_phase served_3 = Serving"
    by (simp_all add: served_3_def served_1_def served_0_def)
  let ?k = "served_3\<lparr>sd_gate := end_request token_call (sd_gate served_3)\<rparr>"
  let ?d = "?k\<lparr>sd_phase := Draining\<rparr>"
  let ?b = "served_4\<lparr>sd_phase := ClosingJobs, sd_server := close_bridge http_program (sd_server served_4)\<rparr>"
  have "served_step http_program sample_world served_1 served_3"
    unfolding served_3_def
    by (rule tool) (simp_all add: served_inflight phase, simp_all add: served_1_def served_0_def fresh_id_def sample_moment_def newDeploymentID_def)
  moreover have "served_step http_program sample_world served_3 ?k" by (rule response) (simp_all add: phase served_inflight)
  moreover have "served_step http_program sample_world ?k ?d" by (rule signaled) (simp add: phase)
  moreover have "served_step http_program sample_world ?d served_4"
    using drained[of ?d http_program sample_world] by (simp add: served_4_def phase end_request_def release_def served_inflight)
  moreover have "served_step http_program sample_world served_4 ?b" by (rule bridge_closed) (simp add: served_4_def)
  moreover have "served_step http_program sample_world ?b served_5"
    using jobs_canceled[of ?b http_program sample_world] by (simp add: served_5_def)
  ultimately show ?thesis using served_run_1 by (meson reach_step)
qed

theorem served_shutdown_cancels_witness:
  "\<exists>k t. (served_step http_program sample_world)\<^sup>*\<^sup>* served_5 k \<and> sd_phase k = Exited None
    \<and> lifecycle_of (sv_jobs (sd_server k)) started_id = Ended t \<and> Status (m_task t) = DeploymentCanceled"
proof -
  have k5: "sd_phase served_5 = AwaitingJobs" "\<not> sd_jobs_left served_5" "inv (sv_jobs (sd_server served_5))"
    using served.reach_inv[OF served_run_5] by (simp_all add: served_5_def served_4_def served_3_def served_1_def served_0_def served_ok_def)
  obtain k where k: "(served_step http_program sample_world)\<^sup>*\<^sup>* served_5 k" "sd_phase k = Exited None" "\<not> sd_jobs_left k"
    using awaiting_runs[OF k5] by blast
  have jobs: "sv_jobs (sd_server served_5) = cancel_all (close_cancels (manager (sv_jobs (sd_server served_3)))) (sv_jobs (sd_server served_3))"
    by (simp add: served_5_def served_4_def close_jobs_def close_bridge_def)
  have "workers (sv_jobs (sd_server served_5)) = [(started_id, run_worker Launched)]"
    "context_of (sv_jobs (sd_server served_5)) started_id = CtxCanceled"
    by (simp_all add: jobs served_3_jobs cancel_all_def context_of_def close_cancels_def new_task_simps cancel_context_def)
  then show ?thesis using served_shutdown_cancels[OF served_run_5 k5(1) k(1,2)] k
    by (auto split: lifecycle.splits)
qed

theorem served_shutdown_witness:
  "\<exists>k :: unit served. sd_phase k = Exited None \<and> g_inflight (sd_gate k) = [] \<and> conns_open (http_ops @ sd_closing k) = 0"
proof -
  have start: "sd_phase served_1 = Serving" "\<not> sd_jobs_left served_1" "inv (sv_jobs (sd_server served_1))"
    using served.reach_inv[OF served_run_1] by (simp_all add: served_ok_def, simp_all add: served_1_def served_0_def)
  let ?k = "served_1\<lparr>sd_gate := end_request token_call (sd_gate served_1)\<rparr>"
  have "reach (served_start http_program) (served_step http_program sample_world) ?k"
    by (rule reach_step[OF served_run_1], rule response) (simp_all add: start served_inflight)
  then have r: "reach (served_start http_program) (served_step http_program sample_world) (?k\<lparr>sd_phase := Draining\<rparr>)"
    by (rule reach_step, intro signaled) (simp add: start)
  obtain k where k: "(served_step http_program sample_world)\<^sup>*\<^sup>* (?k\<lparr>sd_phase := Draining\<rparr>) k" "sd_phase k = Exited None"
    using shutdown_runs[of "?k\<lparr>sd_phase := Draining\<rparr>" http_program sample_world] start by (auto simp: end_request_def release_def served_inflight)
  from k(1) r have "reach (served_start http_program) (served_step http_program sample_world) k"
    by (induction rule: rtranclp_induct) (auto intro: reach_step)
  note served_shutdown[OF http_program http_transport this]
  then have "g_inflight (sd_gate k) = [] \<and> conns_open (http_ops @ sd_closing k) = 0"
    unfolding k(2) phase.case by simp
  then show ?thesis using k(2) by blast
qed

end
