(* ===== verification/Spec2Isabelle.thy ===== *)
theory Spec2Isabelle
  imports SqlSelect BotGoroutines Served
begin

text \<open>
  A model of \<open>ps-devtools-mcp\<close>, a server of the Model Context Protocol that gives developers bounded
  access to a test environment: read-only SQL and Redis queries, user snapshots, allowlisted HTTP
  endpoints, a bot that logs in as a test user, logs of a downstream server, and deployments by a
  script. All of it is shallow: a Go function is a HOL function of the same name, \<open>(T, error)\<close> is a
  sum, a struct a record, state is passed and returned, goroutines are inductive step relations.

  \<^bold>\<open>Parts and theories\<close>

  \<^item> \<open>Prelude\<close>: results (\<open>bind_err\<close>, \<open>guard_err\<close>), sessions (what was sent to a remote party and logged),
    \<open>reach\<close>, and the locales \<open>transition_system\<close>, \<open>monotone_system\<close> and \<open>guarded_query\<close> that the
    components interpret.
  \<^item> \<open>GoStrings\<close>, \<open>GoRegexp\<close>, \<open>GoJson\<close>, \<open>GoHttp\<close>, \<open>Redaction\<close>: what the program uses of Go's standard library. Strings
    are lists of bytes; runes are decoded as UTF-8, wrong bytes as U+FFFD. Regular expressions are
    matched by leftmost-first backtracking. The JSON scanner works on an explicit stack with the
    depth limit of Go. \<open>JsonRoundtrip\<close> proves that what the encoder writes is read back.
  \<^item> \<open>SqlValidator\<close> (\<open>internal/testdb/validator.go\<close>), with \<open>SqlSelect\<close> for statements of plain words; \<open>MySQLClient\<close>
    (\<open>mysql_client.go\<close>): configuration, pools, the scope check, the read-only transaction; \<open>DbQuery\<close>
    (\<open>service.go\<close>, \<open>client.go\<close>): the SQL service with its audit line and the HTTP client.
  \<^item> \<open>Redis\<close> (\<open>internal/testredis\<close>): command validator, service, both clients; \<open>RedisInspect\<close>
    (\<open>internal/redisinspect\<close>): the three questions of an inspection; \<open>UserSnapshot\<close>
    (\<open>internal/usersnapshot\<close>): the five statements and their sections.
  \<^item> \<open>TestApi\<close> (\<open>internal/testapi\<close>) and \<open>TestBot\<close> (\<open>internal/testbot\<close>): configuration files and their checks, requests,
    logins, signatures, redaction. \<open>BotGoroutines\<close>: concurrent calls of the bot over its shared token and clock.
  \<^item> \<open>DeployService\<close> and \<open>DeployOutput\<close> (\<open>internal/testdeploy/service.go\<close>, the parsers and the task log of
    \<open>manager.go\<close>), \<open>DeployManager\<close> (\<open>manager.go\<close>): the history of deployments, its methods, and the goroutine of
    each deployment step by step. \<open>SlackNotify\<close> (\<open>internal/slacknotify\<close>): the notifications.
  \<^item> \<open>TestLogs\<close> (\<open>internal/testlogs\<close>): the downstream call, the lazy session and the goroutines over it.
  \<^item> \<open>HttpTransport\<close> (\<open>internal/httptransport\<close>): authentication and the limit of concurrent requests. \<open>AppConfig\<close>
    (\<open>internal/appconfig\<close>): environment, flags, checks.
  \<^item> \<open>QueryPath\<close>: the four query tools over one HTTP client. \<open>Startup\<close>: \<open>main\<close> of \<open>cmd/ps-devtools-mcp/main.go\<close> up to
    the services, and its end. \<open>ToolServer\<close> (\<open>internal/mcpserver\<close>): the interfaces and the tools. \<open>Program\<close>: the
    services \<open>main\<close> wires, and the run of the whole server. \<open>Served\<close>: that server behind its gate (\<open>runHTTP\<close>), from
    the first request to the shutdown and the deferred calls.

  \<^bold>\<open>How the parts interact\<close>

  A tool call reaches \<open>New\<close> through the gate of \<open>HttpTransport\<close>; \<open>main_services\<close> sends it to a service, which
  validates and asks its client, direct or over HTTP, and logs. A service is a function on a
  \<open>session\<close>; a remote party is a function from everything it was asked to its answer, so it may
  answer each question differently. The services that ask through a validator interpret
  \<open>guarded_query\<close>; the machines (the manager, the gate, the lazy session, the bot, the endpoint client)
  interpret \<open>transition_system\<close> or \<open>monotone_system\<close>; and each part of the whole server interprets \<open>server_component\<close>:
  a step of the server is a step of that part or leaves it alone, so a run of the server projects to
  a run of each part, and what is proved of a part holds in the program.

  \<^bold>\<open>What the lemmas show\<close>

  \<^item> SQL: the scanner accepts exactly the segmentations into plain bytes and closed quotes, and its verdict
    does not depend on the bodies of literals; an accepted statement has a limit and no forbidden
    word; the direct client runs one read-only transaction that is rolled back on every path.
  \<^item> Redis: accepted commands read at most 500 items, except the range from 0 to the largest 64-bit integer,
    whose length wraps around; the inspector's commands are
    never refused.
  \<^item> Deployments: arguments are fixed words, services and selectors of a small language; the history, the
    locks and the life of each deployment over all interleavings; that the goroutines end, when scripts and
    notifiers return, within five steps each; bounds of the logs.
  \<^item> HTTP: requests within the allowlists, redaction, signatures, tokens, the limit of the gate.
  \<^item> Start and run: failures after the settings are read, release of resources, that the questions, the requests
    of the bot and the API and the calls of the log tools are admitted in every run, and that over HTTP every tool is called by an authenticated request.
  \<^item> Shutdown: what an exit leaves behind (nothing, or with an error everything), and that the close of
    the manager cancels each running deployment, which is then recorded as canceled.

  \<^bold>\<open>Bounds and fuel\<close>

  Nothing runs on fuel: every function is total, by structural recursion or a proved measure (the
  regular expressions on the rest of the text, the JSON scanner on the text left). Integers that
  wrap or saturate in Go are kept at their width or checked against it where the code depends on
  it (the Redis range is computed modulo 2^64, \<open>atoi\<close> fails beyond 64 bits, user identifiers are words).

  \<^bold>\<open>Outside the model, as parameters\<close>

  The tables of Unicode case mapping beyond ASCII (record \<open>unicode\<close>, whose case maps are those of ASCII below
  128), \<open>net/url\<close> parsing and printing (\<open>urls\<close>), digests, clocks, random bytes, the text of a float in
  JSON, the MySQL driver, the Redis server, the network, the deployment script and the file system.

  \<^bold>\<open>Not modelled\<close>

  The MCP SDK (its schema check and JSON-RPC), the routing and the connections of \<open>net/http\<close> (its timeouts are settings only), process groups and
  signals beyond what they make the script return, contexts other than those of deployments,
  printed log lines beyond the fields they carry, redirects that \<open>net/http\<close> follows within one call of the client,
  what the deployment script does on its host (a synchronous deployment or a restart is an answer only), and the shell scripts of the repository. Calls of
  one tool are atomic steps in \<open>Program\<close>: the query tools share no state but the connection, and the interleavings
  inside the calls of the bot, the downstream bridge and the deployments have their own step relations
  (\<open>BotGoroutines\<close>, \<open>TestLogs\<close>, \<open>DeployManager\<close>). The files under \<open>scripts\<close>, \<open>deploy\<close> and \<open>docs\<close> are not Go.
\<close>

end
